(* ===== verification/Prelude.thy ===== *)
theory Prelude
  imports Main "HOL-Library.Word"
begin

unbundle bit_operations_syntax

text \<open>
  Shared ground of the WaluOS development: the fixed-width integer types of the C sources,
  \<^verbatim>\<open>size_t\<close> and \<^verbatim>\<open>int\<close> arithmetic with the wrap-around written out, counted loops, C
  strings, and the interface of a component whose operations keep an invariant.
\<close>

section \<open>Types\<close>

type_synonym u8 = "8 word"
type_synonym u16 = "16 word"
type_synonym u32 = "32 word"
type_synonym u64 = "64 word"

named_theorems op_defs "definitions of the operations, unfolded in component proofs"
named_theorems inv_defs "definitions of the invariants, unfolded in component proofs"

section \<open>Definitions\<close>

text \<open>
  A \<^verbatim>\<open>size_t\<close> is a natural number below \<open>2 ^ 64\<close>; a C \<^verbatim>\<open>int\<close> is an integer in the range of
  a 32-bit two's complement word. Conversions and operations that can leave the range reduce.
\<close>

definition size_add :: "nat \<Rightarrow> nat \<Rightarrow> nat" where
  "size_add a b = (a + b) mod 2 ^ 64"

definition size_sub :: "nat \<Rightarrow> nat \<Rightarrow> nat" where
  "size_sub a b = nat ((int a - int b) mod 2 ^ 64)"

definition size_of_int :: "int \<Rightarrow> nat" where
  "size_of_int i = nat (i mod 2 ^ 64)"

definition int_wrap :: "int \<Rightarrow> int" where
  "int_wrap i = (i + 2 ^ 31) mod 2 ^ 32 - 2 ^ 31"

text \<open>\<^verbatim>\<open>for (i = lo; i < hi; i++) body\<close> with no early exit.\<close>

definition for_range :: "nat \<Rightarrow> nat \<Rightarrow> (nat \<Rightarrow> 's \<Rightarrow> 's) \<Rightarrow> 's \<Rightarrow> 's" where
  "for_range lo hi body s = fold body [lo..<hi] s"

text \<open>
  Text of the program as bytes; a C string in a buffer ends before its first NUL byte.
\<close>

definition bytes :: "string \<Rightarrow> u8 list" where
  "bytes s = map of_char s"

definition c_str :: "u8 list \<Rightarrow> u8 list" where
  "c_str buf = takeWhile (\<lambda>b. b \<noteq> 0) buf"

section \<open>size\_t and int\<close>

lemma size_add_in_range [simp]: "a + b < 2 ^ 64 \<Longrightarrow> size_add a b = a + b"
  by (simp add: size_add_def)

lemma size_add_less: "size_add a b < 2 ^ 64"
  by (simp add: size_add_def)

lemma size_sub_in_range [simp]: "b \<le> a \<Longrightarrow> a < 2 ^ 64 \<Longrightarrow> size_sub a b = a - b"
  by (simp add: size_sub_def nat_diff_distrib flip: of_nat_diff)

lemma size_of_int_less: "size_of_int i < 2 ^ 64"
proof -
  have "i mod 2 ^ 64 < 2 ^ 64" by (rule pos_mod_bound) simp
  then show ?thesis by (simp add: size_of_int_def nat_less_iff)
qed

lemma size_of_int_nonneg [simp]: "0 \<le> i \<Longrightarrow> i < 2 ^ 64 \<Longrightarrow> size_of_int i = nat i"
  by (simp add: size_of_int_def)

lemma size_of_int_neg:
  assumes "i < 0" "- (2 ^ 64) \<le> i"
  shows "size_of_int i = nat (2 ^ 64 + i)"
proof -
  have "i mod 2 ^ 64 = (2 ^ 64 + i) mod 2 ^ 64" by simp
  also have "\<dots> = 2 ^ 64 + i" using assms by (intro mod_pos_pos_trivial) auto
  finally show ?thesis by (simp add: size_of_int_def)
qed

lemma int_wrap_range: "- (2 ^ 31) \<le> int_wrap i \<and> int_wrap i < 2 ^ 31"
proof -
  have "0 \<le> (i + 2 ^ 31) mod 2 ^ 32" "(i + 2 ^ 31) mod 2 ^ 32 < 2 ^ 32"
    by (rule pos_mod_sign pos_mod_bound; simp)+
  then show ?thesis by (simp add: int_wrap_def)
qed

lemma int_wrap_id [simp]: "- (2 ^ 31) \<le> i \<Longrightarrow> i < 2 ^ 31 \<Longrightarrow> int_wrap i = i"
  by (simp add: int_wrap_def)

section \<open>Counted loops\<close>

lemma for_range_empty [simp]: "hi \<le> lo \<Longrightarrow> for_range lo hi body s = s"
  by (simp add: for_range_def)

lemma for_range_Cons: "lo < hi \<Longrightarrow> for_range lo hi body s = for_range (Suc lo) hi body (body lo s)"
  by (simp add: for_range_def upt_conv_Cons)

lemma for_range_Suc [simp]:
  "lo \<le> hi \<Longrightarrow> for_range lo (Suc hi) body s = body hi (for_range lo hi body s)"
  by (simp add: for_range_def)

lemma for_range_inv:
  assumes "P s" and "\<And>i s. lo \<le> i \<Longrightarrow> i < hi \<Longrightarrow> P s \<Longrightarrow> P (body i s)"
  shows "P (for_range lo hi body s)"
proof (cases "lo \<le> hi")
  case True
  have "P (fold body xs s)" if "set xs \<subseteq> {lo..<hi}" "P s" for xs s
    using that by (induction xs arbitrary: s) (auto intro: assms(2))
  then show ?thesis using assms(1) by (simp add: for_range_def)
next
  case False
  then show ?thesis using assms(1) by simp
qed

text \<open>Two loops run in step keep a relation between their states.\<close>

lemma for_range_rel:
  assumes "R s t" and "\<And>i s t. lo \<le> i \<Longrightarrow> i < hi \<Longrightarrow> R s t \<Longrightarrow> R (body i s) (body' i t)"
  shows "R (for_range lo hi body s) (for_range lo hi body' t)"
proof -
  have "R (fold body xs s) (fold body' xs t)" if "set xs \<subseteq> {lo..<hi}" "R s t" for xs s t
    using that by (induction xs arbitrary: s t) (auto intro: assms(2))
  then show ?thesis using assms(1) by (simp add: for_range_def)
qed

text \<open>A loop whose body only changes one slot per index has a pointwise closed form.\<close>

lemma for_range_pointwise:
  assumes "\<And>i m. lo \<le> i \<Longrightarrow> i < hi \<Longrightarrow> body i m = m(addr i := val i)"
    and "inj_on addr {lo..<hi}"
  shows "for_range lo hi body m a =
    (if a \<in> addr ` {lo..<hi} then val (the_inv_into {lo..<hi} addr a) else m a)"
proof (cases "lo \<le> hi")
  case False
  then show ?thesis by simp
next
  case True
  have "for_range lo n body m a =
      (if a \<in> addr ` {lo..<n} then val (the_inv_into {lo..<hi} addr a) else m a)"
    if "lo \<le> n" "n \<le> hi" for n
    using that
  proof (induction n rule: dec_induct)
    case base
    then show ?case by simp
  next
    case (step n)
    have "the_inv_into {lo..<hi} addr (addr n) = n"
      using step by (intro the_inv_into_f_f assms(2)) auto
    moreover have "{lo..<Suc n} = insert n {lo..<n}" using step by auto
    ultimately show ?case using step by (auto simp: assms(1))
  qed
  with True show ?thesis by simp
qed

section \<open>Lists\<close>

lemma nth_take_Suc: "n < length xs \<Longrightarrow> take (Suc n) xs = take n xs @ [xs ! n]"
  by (rule take_Suc_conv_app_nth)

lemma take_drop_Suc_nth: "n < length xs \<Longrightarrow> drop n xs = xs ! n # drop (Suc n) xs"
  by (rule Cons_nth_drop_Suc [symmetric])

lemma list_update_take: "n \<le> i \<Longrightarrow> take n (xs[i := x]) = take n xs"
  by simp

lemma image_remove: "a \<in> A \<Longrightarrow> (\<And>b. b \<in> A \<Longrightarrow> h b = h a \<Longrightarrow> b = a) \<Longrightarrow> h ` (A - {a}) = h ` A - {h a}"
  by auto

lemma remove_nth:
  assumes "distinct xs" "i < length xs"
  shows "distinct (take i xs @ drop (Suc i) xs)" "set (take i xs @ drop (Suc i) xs) = set xs - {xs ! i}"
proof -
  define ys x zs where "ys = take i xs" and "x = xs ! i" and "zs = drop (Suc i) xs"
  have "xs = ys @ x # zs" using assms(2) by (simp add: ys_def x_def zs_def id_take_nth_drop)
  then have "distinct (ys @ zs)" "set (ys @ zs) = set xs - {x}" using assms(1) by auto
  then show "distinct (take i xs @ drop (Suc i) xs)" "set (take i xs @ drop (Suc i) xs) = set xs - {xs ! i}"
    by (simp_all only: ys_def x_def zs_def)
qed

lemma find_upt_Some:
  "find P [0..<n] = Some i \<longleftrightarrow> i < n \<and> P i \<and> (\<forall>j < i. \<not> P j)"
  by (auto simp: find_Some_iff)

lemma find_upt_None: "find P [0..<n] = None \<longleftrightarrow> (\<forall>i < n. \<not> P i)"
  by (auto simp: find_None_iff)

lemma c_str_take: "0 \<notin> set (take n buf) \<Longrightarrow> n < length buf \<Longrightarrow> buf ! n = 0 \<Longrightarrow>
    c_str buf = take n buf"
proof -
  assume a: "0 \<notin> set (take n buf)" "n < length buf" "buf ! n = 0"
  have "buf = take n buf @ buf ! n # drop (Suc n) buf"
    using a(2) by (rule id_take_nth_drop)
  then have "takeWhile (\<lambda>b. b \<noteq> 0) buf =
      takeWhile (\<lambda>b. b \<noteq> 0) (take n buf @ buf ! n # drop (Suc n) buf)" by simp
  also have "\<dots> = take n buf @ takeWhile (\<lambda>b. b \<noteq> 0) (buf ! n # drop (Suc n) buf)"
    using a(1) by (intro takeWhile_append2) auto
  finally show ?thesis using a(3) by (simp add: c_str_def)
qed

lemma c_str_no_nul: "0 \<notin> set xs \<Longrightarrow> c_str xs = xs"
  by (simp add: c_str_def takeWhile_eq_all_conv) metis

lemma c_str_free [simp]: "0 \<notin> set (c_str xs)"
  by (auto simp: c_str_def dest: set_takeWhileD)

section \<open>Words\<close>

lemma word_less_2p_iff: "n < LENGTH('a) \<Longrightarrow> (a :: 'a :: len word) < 2 ^ n \<longleftrightarrow> a AND mask n = a"
  by (simp add: mask_eq_iff_w2p word_size)

lemma unat_2p: "n < LENGTH('a) \<Longrightarrow> unat (2 ^ n :: 'a :: len word) = 2 ^ n"
proof -
  assume "n < LENGTH('a)"
  then have "(2 :: nat) ^ n mod 2 ^ LENGTH('a) = 2 ^ n" by simp
  then have "unat (of_nat (2 ^ n) :: 'a word) = 2 ^ n" by (simp only: unat_of_nat)
  then show ?thesis by simp
qed

text \<open>Clearing the low \<open>n\<close> bits rounds down to a multiple of \<open>2 ^ n\<close>.\<close>

lemma word_and_not_mask: "(a :: 'a :: len word) AND NOT (mask n) = push_bit n (drop_bit n a)"
  by (rule bit_word_eqI) (auto simp: bit_simps)

lemma unat_and_not_mask: "unat ((a :: 'a :: len word) AND NOT (mask n)) = unat a div 2 ^ n * 2 ^ n"
proof -
  have d: "unat (drop_bit n a) = unat a div 2 ^ n"
    by (simp only: unat_drop_bit_eq) (simp add: drop_bit_eq_div)
  have "unat a div 2 ^ n * 2 ^ n \<le> unat a" by simp
  also have "\<dots> < 2 ^ LENGTH('a)" by (rule unsigned_less)
  finally have "unat a div 2 ^ n * 2 ^ n mod 2 ^ LENGTH('a) = unat a div 2 ^ n * 2 ^ n" by simp
  moreover have "unat (push_bit n (drop_bit n a)) = take_bit LENGTH('a) (push_bit n (unat a div 2 ^ n))"
    by (simp only: unsigned_push_bit_eq d)
  ultimately have "unat (push_bit n (drop_bit n a)) = unat a div 2 ^ n * 2 ^ n"
    by (simp only: take_bit_eq_mod push_bit_eq_mult)
  then show ?thesis by (simp only: word_and_not_mask)
qed

lemma word_or_less_2p:
  "n < LENGTH('a) \<Longrightarrow> (a :: 'a :: len word) < 2 ^ n \<Longrightarrow> b < 2 ^ n \<Longrightarrow> a OR b < 2 ^ n"
  by (simp only: word_less_2p_iff bit.conj_disj_distrib2)

lemma word_xor_less_2p:
  "n < LENGTH('a) \<Longrightarrow> (a :: 'a :: len word) < 2 ^ n \<Longrightarrow> b < 2 ^ n \<Longrightarrow> a XOR b < 2 ^ n"
  by (simp only: word_less_2p_iff bit.conj_xor_distrib2)

lemma word_and_less: "(a :: 'a :: len word) < c \<Longrightarrow> a AND b < c"
  by (rule le_less_trans [OF word_and_le2])

section \<open>Components with an invariant\<close>

text \<open>
  The interface every stateful component has: a step per operation and an invariant that each
  step keeps. Runs of operations then keep it, and so does every state on the way.
\<close>

locale invariant_machine =
  fixes step :: "'e \<Rightarrow> 's \<Rightarrow> 's"
    and inv :: "'s \<Rightarrow> bool"
  assumes step_inv: "inv s \<Longrightarrow> inv (step e s)"
begin

lemma run_inv: "inv s \<Longrightarrow> inv (fold step es s)"
  by (induction es arbitrary: s) (auto intro: step_inv)

lemma run_prefix_inv: "inv s \<Longrightarrow> inv (fold step (take n es) s)"
  by (rule run_inv)

end

text \<open>
  The same for a component whose steps are a relation: what it can reach from a state that satisfies
  the invariant satisfies it too. A machine is such a system with a step for every event.
\<close>

locale invariant_system =
  fixes trans :: "'s \<Rightarrow> 's \<Rightarrow> bool"
    and inv :: "'s \<Rightarrow> bool"
  assumes trans_inv: "trans s s' \<Longrightarrow> inv s \<Longrightarrow> inv s'"
begin

lemma reach_inv: "trans\<^sup>*\<^sup>* s s' \<Longrightarrow> inv s \<Longrightarrow> inv s'"
  by (induction rule: rtranclp_induct) (auto intro: trans_inv)

end

sublocale invariant_machine \<subseteq> machine: invariant_system "\<lambda>s s'. \<exists>e. s' = step e s" inv
  by unfold_locales (auto intro: step_inv)

end
