(* ===== verification/Ring.thy ===== *)
theory Ring
  imports Prelude "HOL-Library.Sublist"
begin

text \<open>
  Every queue of the kernel (keyboard bytes, keyboard events, TTY reads, both directions of a
  PTY) is the same ring: an array, a head where the producer writes and a tail where the
  consumer reads, one slot always left free. This theory gives the list a ring stands for, the
  effect of the two index movements on it, and the interface of a bounded first-in first-out
  queue that each concrete queue is an instance of.
\<close>

section \<open>Definitions\<close>

definition ring_wf :: "nat \<Rightarrow> 'a list \<Rightarrow> nat \<Rightarrow> nat \<Rightarrow> bool" where
  "ring_wf n q h t \<longleftrightarrow> 0 < n \<and> length q = n \<and> h < n \<and> t < n"

definition ring_len :: "nat \<Rightarrow> nat \<Rightarrow> nat \<Rightarrow> nat" where
  "ring_len n h t = (h + n - t) mod n"

definition ring_list :: "nat \<Rightarrow> 'a list \<Rightarrow> nat \<Rightarrow> nat \<Rightarrow> 'a list" where
  "ring_list n q h t = map (\<lambda>i. q ! ((t + i) mod n)) [0..<ring_len n h t]"

text \<open>
  A schedule of one producer and one consumer: \<open>Some x\<close> pushes \<open>x\<close>, \<^const>\<open>None\<close> tries to pop.
  The result is what the consumer got, in order, and the final state.
\<close>

fun fifo_run ::
    "('a \<Rightarrow> 's \<Rightarrow> 's) \<Rightarrow> ('s \<Rightarrow> ('a \<times> 's) option) \<Rightarrow> 'a option list \<Rightarrow> 's \<Rightarrow> 'a list \<times> 's" where
  "fifo_run push pop [] s = ([], s)"
| "fifo_run push pop (Some x # ops) s = fifo_run push pop ops (push x s)"
| "fifo_run push pop (None # ops) s =
     (case pop s of
        None \<Rightarrow> fifo_run push pop ops s
      | Some (x, s') \<Rightarrow> (case fifo_run push pop ops s' of (out, s'') \<Rightarrow> (x # out, s'')))"

definition pushed :: "'a option list \<Rightarrow> 'a list" where
  "pushed ops = List.map_filter id ops"

section \<open>Index arithmetic\<close>

lemma ring_len_cases:
  "h < n \<Longrightarrow> t < n \<Longrightarrow> ring_len n h t = (if t \<le> h then h - t else h + n - t)"
  by (auto simp: ring_len_def mod_if)

lemma ring_next_cases: "h < n \<Longrightarrow> Suc h mod n = (if Suc h = n then 0 else Suc h)"
  by (auto simp: mod_Suc)

lemma ring_slot_cases:
  "(t::nat) < n \<Longrightarrow> i < n \<Longrightarrow> (t + i) mod n = (if t + i < n then t + i else t + i - n)"
  by (auto simp: le_mod_geq not_less)

lemma ring_len_less: "ring_wf n q h t \<Longrightarrow> ring_len n h t < n"
  by (auto simp: ring_wf_def ring_len_cases)

lemma ring_len_zero: "h < n \<Longrightarrow> t < n \<Longrightarrow> ring_len n h t = 0 \<longleftrightarrow> h = t"
  by (auto simp: ring_len_cases)

lemma ring_len_full:
  "h < n \<Longrightarrow> t < n \<Longrightarrow> Suc h mod n = t \<longleftrightarrow> ring_len n h t = n - 1"
  by (auto simp: ring_len_cases ring_next_cases)

lemma ring_len_push:
  assumes "h < n" "t < n" "Suc h mod n \<noteq> t"
  shows "ring_len n (Suc h mod n) t = Suc (ring_len n h t)"
proof -
  have "Suc h mod n < n" using assms by simp
  then show ?thesis
    using assms by (simp only: ring_len_cases ring_next_cases split: if_splits) auto
qed

lemma ring_len_pop:
  assumes "h < n" "t < n" "h \<noteq> t"
  shows "ring_len n h t = Suc (ring_len n h (Suc t mod n))"
proof -
  have "Suc t mod n < n" using assms by simp
  then show ?thesis
    using assms by (simp only: ring_len_cases ring_next_cases split: if_splits) auto
qed

lemma ring_slot_neq_head:
  assumes "h < n" "t < n" "i < ring_len n h t"
  shows "(t + i) mod n \<noteq> h"
proof -
  have "i < n" using assms by (auto simp: ring_len_cases split: if_splits)
  then show ?thesis using assms by (auto simp: ring_len_cases ring_slot_cases split: if_splits)
qed

lemma ring_slot_head: "h < n \<Longrightarrow> t < n \<Longrightarrow> (t + ring_len n h t) mod n = h"
  by (auto simp: ring_len_cases)

section \<open>The list of a ring\<close>

lemma length_ring_list [simp]: "length (ring_list n q h t) = ring_len n h t"
  by (simp add: ring_list_def)

lemma ring_list_empty_iff: "ring_wf n q h t \<Longrightarrow> ring_list n q h t = [] \<longleftrightarrow> h = t"
  by (simp add: ring_list_def ring_wf_def ring_len_zero)

lemma ring_list_same [simp]: "ring_list n q h h = []"
  by (simp add: ring_list_def ring_len_def)

lemma ring_full_iff:
  "ring_wf n q h t \<Longrightarrow> Suc h mod n = t \<longleftrightarrow> length (ring_list n q h t) = n - 1"
  using ring_len_full [of h n t] by (simp add: ring_wf_def)

lemma ring_list_length_le: "ring_wf n q h t \<Longrightarrow> length (ring_list n q h t) \<le> n - 1"
  using ring_len_less [of n q h t] by (auto simp: ring_wf_def)

lemma ring_list_push:
  assumes "ring_wf n q h t" "Suc h mod n \<noteq> t"
  shows "ring_list n (q[h := x]) (Suc h mod n) t = ring_list n q h t @ [x]"
proof -
  have wf: "h < n" "t < n" "length q = n" using assms(1) by (auto simp: ring_wf_def)
  have "q[h := x] ! ((t + i) mod n) = q ! ((t + i) mod n)" if "i < ring_len n h t" for i
    using ring_slot_neq_head [OF wf(1,2) that] by simp
  then show ?thesis
    using wf assms(2) by (simp add: ring_list_def ring_len_push ring_slot_head)
qed

lemma ring_list_pop:
  assumes "ring_wf n q h t" "h \<noteq> t"
  shows "ring_list n q h t = q ! t # ring_list n q h (Suc t mod n)"
proof -
  have "ring_len n h t = Suc (ring_len n h (Suc t mod n))"
    using assms ring_len_pop [of h n t] by (simp add: ring_wf_def)
  moreover have "(t + Suc i) mod n = (Suc t mod n + i) mod n" for i
    by (simp add: mod_add_left_eq)
  ultimately show ?thesis
    using assms by (simp add: ring_list_def ring_wf_def map_upt_Suc del: upt_Suc)
qed

lemma ring_wf_push: "ring_wf n q h t \<Longrightarrow> ring_wf n (q[h := x]) (Suc h mod n) t"
  by (simp add: ring_wf_def)

lemma ring_wf_pop: "ring_wf n q h t \<Longrightarrow> ring_wf n q h (Suc t mod n)"
  by (simp add: ring_wf_def)

lemma ring_wf_zero: "0 < n \<Longrightarrow> length q = n \<Longrightarrow> ring_wf n q 0 0"
  by (simp add: ring_wf_def)

section \<open>Bounded queues\<close>

text \<open>
  What a client of a kernel queue relies on: below capacity a push appends, at capacity it
  changes nothing but the drop counter, a pop takes the oldest element.
\<close>

locale bounded_fifo =
  fixes invar :: "'s \<Rightarrow> bool"
    and contents :: "'s \<Rightarrow> 'a list"
    and cap :: nat
    and push :: "'a \<Rightarrow> 's \<Rightarrow> 's"
    and pop :: "'s \<Rightarrow> ('a \<times> 's) option"
  assumes length_le_cap: "invar s \<Longrightarrow> length (contents s) \<le> cap"
    and push_invar: "invar s \<Longrightarrow> invar (push x s)"
    and push_room: "invar s \<Longrightarrow> length (contents s) < cap \<Longrightarrow>
          contents (push x s) = contents s @ [x]"
    and push_full: "invar s \<Longrightarrow> length (contents s) = cap \<Longrightarrow> contents (push x s) = contents s"
    and pop_empty: "invar s \<Longrightarrow> contents s = [] \<Longrightarrow> pop s = None"
    and pop_front: "invar s \<Longrightarrow> contents s = x # xs \<Longrightarrow>
          \<exists>s'. pop s = Some (x, s') \<and> contents s' = xs \<and> invar s'"
begin

lemma pushes_invar: "invar s \<Longrightarrow> invar (fold push xs s)"
  by (induction xs arbitrary: s) (auto intro: push_invar)

lemma push_contents: "invar s \<Longrightarrow> contents (push x s) = take cap (contents s @ [x])"
  using length_le_cap [of s] by (cases "length (contents s) = cap") (auto simp: push_room push_full)

lemma pushes_contents: "invar s \<Longrightarrow> contents (fold push xs s) = take cap (contents s @ xs)"
proof (induction xs arbitrary: s)
  case Nil
  then show ?case by (simp add: length_le_cap)
next
  case (Cons x xs)
  have "contents (fold push (x # xs) s) = take cap (take cap (contents s @ [x]) @ xs)"
    using Cons by (simp add: push_invar push_contents)
  also have "\<dots> = take cap ((contents s @ [x]) @ xs)"
    by (simp only: take_append length_take take_take) (simp add: min_def)
  finally show ?case by simp
qed

lemma pop_cases:
  assumes "invar s"
  obtains (empty) "contents s = []" "pop s = None"
  | (front) x s' where "pop s = Some (x, s')" "contents s = x # contents s'" "invar s'"
  using assms pop_empty pop_front by (cases "contents s") force+

text \<open>
  Any interleaving of the producer and the consumer delivers in order: what was read, followed by
  what is still queued, is the initial content followed by a subsequence of what was pushed, and
  by all of it when the pushes fit.
\<close>

lemma fifo_run_order:
  "invar s \<Longrightarrow> fifo_run push pop ops s = (out, s') \<Longrightarrow>
     invar s' \<and> (\<exists>acc. subseq acc (pushed ops) \<and> out @ contents s' = contents s @ acc)"
proof (induction ops arbitrary: s out)
  case Nil
  then show ?case by (auto simp: pushed_def List.map_filter_def)
next
  case (Cons op ops)
  show ?case
  proof (cases op)
    case (Some x)
    from Cons.prems Some have "fifo_run push pop ops (push x s) = (out, s')" by simp
    with Cons.IH [OF push_invar [OF Cons.prems(1)]] obtain acc
      where acc: "invar s'" "subseq acc (pushed ops)" "out @ contents s' = contents (push x s) @ acc"
      by blast
    show ?thesis
    proof (cases "length (contents s) < cap")
      case True
      then have "out @ contents s' = contents s @ (x # acc)"
        using acc(3) Cons.prems(1) by (simp add: push_room)
      moreover have "subseq (x # acc) (pushed (op # ops))"
        using acc(2) Some by (simp add: pushed_def List.map_filter_def)
      ultimately show ?thesis using acc(1) by blast
    next
      case False
      then have "out @ contents s' = contents s @ acc"
        using acc(3) Cons.prems(1) length_le_cap [of s] by (simp add: push_full)
      moreover have "subseq acc (pushed (op # ops))"
        using list_emb_Cons [OF acc(2)] Some by (simp add: pushed_def List.map_filter_def)
      ultimately show ?thesis using acc(1) by blast
    qed
  next
    case None
    have p: "pushed (op # ops) = pushed ops" using None by (simp add: pushed_def List.map_filter_def)
    from Cons.prems(1) show ?thesis
    proof (cases rule: pop_cases)
      case empty
      with Cons.prems None p Cons.IH [OF Cons.prems(1)] show ?thesis by simp
    next
      case (front x t)
      then obtain o' where "fifo_run push pop ops t = (o', s')" "out = x # o'"
        using Cons.prems(2) None by (auto split: prod.splits)
      with Cons.IH [OF front(3)] front(2) p show ?thesis by fastforce
    qed
  qed
qed

lemma fifo_run_lossless:
  "invar s \<Longrightarrow> length (contents s) + length (pushed ops) \<le> cap \<Longrightarrow>
     fifo_run push pop ops s = (out, s') \<Longrightarrow>
     invar s' \<and> out @ contents s' = contents s @ pushed ops"
proof (induction ops arbitrary: s out)
  case Nil
  then show ?case by (auto simp: pushed_def List.map_filter_def)
next
  case (Cons op ops)
  show ?case
  proof (cases op)
    case (Some x)
    then have p: "pushed (op # ops) = x # pushed ops" by (simp add: pushed_def List.map_filter_def)
    have room: "contents (push x s) = contents s @ [x]"
      using Cons.prems(1,2) p by (intro push_room) auto
    have "length (contents (push x s)) + length (pushed ops) \<le> cap"
      using Cons.prems(2) p room by simp
    from Cons.IH [OF push_invar [OF Cons.prems(1)] this] Cons.prems(3) Some p room
    show ?thesis by simp
  next
    case None
    have p: "pushed (op # ops) = pushed ops" using None by (simp add: pushed_def List.map_filter_def)
    from Cons.prems(1) show ?thesis
    proof (cases rule: pop_cases)
      case empty
      with Cons None p show ?thesis by simp
    next
      case (front x t)
      then obtain o' where o: "fifo_run push pop ops t = (o', s')" "out = x # o'"
        using Cons.prems(3) None by (auto split: prod.splits)
      have "length (contents t) + length (pushed ops) \<le> cap"
        using Cons.prems(2) p front(2) by simp
      from Cons.IH [OF front(3) this o(1)] o(2) front(2) p show ?thesis by simp
    qed
  qed
qed

end

text \<open>Queues that count what they drop.\<close>

locale counting_fifo = bounded_fifo +
  fixes drops :: "'a \<Rightarrow> u64"
  assumes drops_room: "invar s \<Longrightarrow> length (contents s) < cap \<Longrightarrow> drops (push x s) = drops s"
    and drops_full: "invar s \<Longrightarrow> length (contents s) = cap \<Longrightarrow> drops (push x s) = drops s + 1"
begin

lemma pushes_drops:
  "invar s \<Longrightarrow> drops (fold push xs s) =
     drops s + of_nat (length xs - (cap - length (contents s)))"
proof (induction xs arbitrary: s)
  case Nil
  then show ?case by simp
next
  case (Cons x xs)
  show ?case
  proof (cases "length (contents s) = cap")
    case True
    then show ?thesis using Cons by (simp add: push_invar push_full drops_full)
  next
    case False
    then have "length (contents s) < cap" using length_le_cap [of s] Cons.prems by simp
    then show ?thesis using Cons by (simp add: push_invar push_room drops_room)
  qed
qed

end

end
