(* ===== verification/Pty.thy ===== *)
theory Pty
  imports Ring
begin

text \<open>
  The pseudo-terminal channels of \<^verbatim>\<open>kernel/src/core/pty.c\<close>: eight slots, each with a ring from
  master to slave and one back. Queue indices are \<^verbatim>\<open>size_t\<close>; the ring size divides
  \<open>2 ^ 64\<close>, so \<open>(head + 1) mod PTY_QUEUE_SIZE\<close> on natural numbers is the C value for every
  head. The two counters are 64-bit words and wrap. A \<^verbatim>\<open>const uint8_t *buf\<close> argument is an
  optional byte list, \<^const>\<open>None\<close> for the null pointer; a read returns the bytes it stored in
  the caller's buffer, whose number is the C result.
\<close>

section \<open>State\<close>

definition PTY_MAX :: nat where
  "PTY_MAX = 8"

definition PTY_QUEUE_SIZE :: nat where
  "PTY_QUEUE_SIZE = 2048"

record pty_slot =
  allocated :: bool
  m2s :: "u8 list"
  m2s_head :: nat
  m2s_tail :: nat
  s2m :: "u8 list"
  s2m_head :: nat
  s2m_tail :: nat

record pty_state =
  g_ptys :: "pty_slot list"
  g_pty_dropped_bytes :: u64
  g_pty_invalid_ops :: u64

section \<open>Operations\<close>

text \<open>
  The write loop over the ring \<open>(q, h, t)\<close>: the number of bytes written so far is the loop
  variable, the drop counter is threaded through. Result: bytes written, array, head, counter.
\<close>

function pty_queue_write ::
    "u8 list \<Rightarrow> nat \<Rightarrow> nat \<Rightarrow> u8 list \<Rightarrow> nat \<Rightarrow> nat \<Rightarrow> u64 \<Rightarrow> nat \<times> u8 list \<times> nat \<times> u64" where
  "pty_queue_write q h t buf len written d =
     (if written < len then
        let nxt = (h + 1) mod PTY_QUEUE_SIZE
        in if nxt = t then (written, q, h, d + of_nat (len - written))
           else pty_queue_write (q[h := buf ! written]) nxt t buf len (written + 1) d
      else (written, q, h, d))"
  by pat_completeness auto
termination
  by (relation "measure (\<lambda>(q, h, t, buf, len, written, d). len - written)") auto

text \<open>The read loop: the bytes read so far and the tail change.\<close>

function pty_queue_read ::
    "u8 list \<Rightarrow> nat \<Rightarrow> nat \<Rightarrow> nat \<Rightarrow> u8 list \<Rightarrow> u8 list \<times> nat" where
  "pty_queue_read q h t len got =
     (if length got < len \<and> t \<noteq> h then
        pty_queue_read q h ((t + 1) mod PTY_QUEUE_SIZE) len (got @ [q ! t])
      else (got, t))"
  by pat_completeness auto
termination
  by (relation "measure (\<lambda>(q, h, t, len, got). len - length got)") auto

declare pty_queue_write.simps [simp del] pty_queue_read.simps [simp del]

definition pty_slot_zero :: pty_slot where
  "pty_slot_zero = \<lparr>allocated = False,
     m2s = replicate PTY_QUEUE_SIZE 0, m2s_head = 0, m2s_tail = 0,
     s2m = replicate PTY_QUEUE_SIZE 0, s2m_head = 0, s2m_tail = 0\<rparr>"

definition pty_init :: "pty_state \<Rightarrow> pty_state" where
  "pty_init s = s\<lparr>g_ptys := replicate PTY_MAX pty_slot_zero,
     g_pty_dropped_bytes := 0, g_pty_invalid_ops := 0\<rparr>"

definition pty_is_valid :: "int \<Rightarrow> pty_state \<Rightarrow> bool" where
  "pty_is_valid pty_id s \<longleftrightarrow>
     pty_id \<ge> 0 \<and> pty_id < int PTY_MAX \<and> allocated (g_ptys s ! nat pty_id)"

definition pty_slot_open :: "pty_slot \<Rightarrow> pty_slot" where
  "pty_slot_open slot = slot\<lparr>allocated := True, m2s_head := 0, m2s_tail := 0,
     s2m_head := 0, s2m_tail := 0\<rparr>"

function pty_alloc_from :: "nat \<Rightarrow> pty_state \<Rightarrow> int \<times> pty_state" where
  "pty_alloc_from i s =
     (if i < PTY_MAX then
        (if \<not> allocated (g_ptys s ! i)
         then (int i, s\<lparr>g_ptys := (g_ptys s)[i := pty_slot_open (g_ptys s ! i)]\<rparr>)
         else pty_alloc_from (i + 1) s)
      else (-1, s))"
  by pat_completeness auto
termination
  by (relation "measure (\<lambda>(i, s). PTY_MAX - i)") auto

declare pty_alloc_from.simps [simp del]

definition pty_alloc :: "pty_state \<Rightarrow> int \<times> pty_state" where
  "pty_alloc s = pty_alloc_from 0 s"

definition pty_bad_op :: "pty_state \<Rightarrow> pty_state" where
  "pty_bad_op s = s\<lparr>g_pty_invalid_ops := g_pty_invalid_ops s + 1\<rparr>"

definition pty_master_write :: "int \<Rightarrow> u8 list option \<Rightarrow> nat \<Rightarrow> pty_state \<Rightarrow> nat \<times> pty_state" where
  "pty_master_write pty_id buf len s =
     (case buf of
        None \<Rightarrow> (0, pty_bad_op s)
      | Some b \<Rightarrow>
          if \<not> pty_is_valid pty_id s then (0, pty_bad_op s)
          else let slot = g_ptys s ! nat pty_id;
                   (n, q, h, d) = pty_queue_write (m2s slot) (m2s_head slot) (m2s_tail slot)
                                    b len 0 (g_pty_dropped_bytes s)
               in (n, s\<lparr>g_ptys := (g_ptys s)[nat pty_id := slot\<lparr>m2s := q, m2s_head := h\<rparr>],
                        g_pty_dropped_bytes := d\<rparr>))"

definition pty_master_read :: "int \<Rightarrow> bool \<Rightarrow> nat \<Rightarrow> pty_state \<Rightarrow> u8 list \<times> pty_state" where
  "pty_master_read pty_id buf_null len s =
     (if \<not> pty_is_valid pty_id s \<or> buf_null then ([], pty_bad_op s)
      else let slot = g_ptys s ! nat pty_id;
               (got, t) = pty_queue_read (s2m slot) (s2m_head slot) (s2m_tail slot) len []
           in (got, s\<lparr>g_ptys := (g_ptys s)[nat pty_id := slot\<lparr>s2m_tail := t\<rparr>]\<rparr>))"

definition pty_slave_write :: "int \<Rightarrow> u8 list option \<Rightarrow> nat \<Rightarrow> pty_state \<Rightarrow> nat \<times> pty_state" where
  "pty_slave_write pty_id buf len s =
     (case buf of
        None \<Rightarrow> (0, pty_bad_op s)
      | Some b \<Rightarrow>
          if \<not> pty_is_valid pty_id s then (0, pty_bad_op s)
          else let slot = g_ptys s ! nat pty_id;
                   (n, q, h, d) = pty_queue_write (s2m slot) (s2m_head slot) (s2m_tail slot)
                                    b len 0 (g_pty_dropped_bytes s)
               in (n, s\<lparr>g_ptys := (g_ptys s)[nat pty_id := slot\<lparr>s2m := q, s2m_head := h\<rparr>],
                        g_pty_dropped_bytes := d\<rparr>))"

definition pty_slave_read :: "int \<Rightarrow> bool \<Rightarrow> nat \<Rightarrow> pty_state \<Rightarrow> u8 list \<times> pty_state" where
  "pty_slave_read pty_id buf_null len s =
     (if \<not> pty_is_valid pty_id s \<or> buf_null then ([], pty_bad_op s)
      else let slot = g_ptys s ! nat pty_id;
               (got, t) = pty_queue_read (m2s slot) (m2s_head slot) (m2s_tail slot) len []
           in (got, s\<lparr>g_ptys := (g_ptys s)[nat pty_id := slot\<lparr>m2s_tail := t\<rparr>]\<rparr>))"

definition pty_dropped_bytes :: "pty_state \<Rightarrow> u64" where
  "pty_dropped_bytes s = g_pty_dropped_bytes s"

definition pty_invalid_ops :: "pty_state \<Rightarrow> u64" where
  "pty_invalid_ops s = g_pty_invalid_ops s"

section \<open>Specification\<close>

text \<open>
  What a slot promises: two byte queues of at most \<open>PTY_QUEUE_SIZE - 1\<close> bytes. The invariant
  is that every slot holds two well-formed rings.
\<close>

definition PTY_CAP :: nat where
  "PTY_CAP = PTY_QUEUE_SIZE - 1"

definition slot_m2s :: "pty_slot \<Rightarrow> u8 list" where
  "slot_m2s slot = ring_list PTY_QUEUE_SIZE (m2s slot) (m2s_head slot) (m2s_tail slot)"

definition slot_s2m :: "pty_slot \<Rightarrow> u8 list" where
  "slot_s2m slot = ring_list PTY_QUEUE_SIZE (s2m slot) (s2m_head slot) (s2m_tail slot)"

definition slot_inv :: "pty_slot \<Rightarrow> bool" where
  "slot_inv slot \<longleftrightarrow>
     ring_wf PTY_QUEUE_SIZE (m2s slot) (m2s_head slot) (m2s_tail slot) \<and>
     ring_wf PTY_QUEUE_SIZE (s2m slot) (s2m_head slot) (s2m_tail slot)"

definition pty_inv :: "pty_state \<Rightarrow> bool" where
  "pty_inv s \<longleftrightarrow> length (g_ptys s) = PTY_MAX \<and> (\<forall>slot \<in> set (g_ptys s). slot_inv slot)"

definition to_slave :: "int \<Rightarrow> pty_state \<Rightarrow> u8 list" where
  "to_slave pty_id s = slot_m2s (g_ptys s ! nat pty_id)"

definition to_master :: "int \<Rightarrow> pty_state \<Rightarrow> u8 list" where
  "to_master pty_id s = slot_s2m (g_ptys s ! nat pty_id)"

text \<open>Every call of the interface, for runs of operations.\<close>

datatype pty_op =
    OpAlloc
  | OpMasterWrite int "u8 list"
  | OpMasterRead int nat
  | OpSlaveWrite int "u8 list"
  | OpSlaveRead int nat

fun pty_step :: "pty_op \<Rightarrow> pty_state \<Rightarrow> pty_state" where
  "pty_step OpAlloc s = snd (pty_alloc s)"
| "pty_step (OpMasterWrite i b) s = snd (pty_master_write i (Some b) (length b) s)"
| "pty_step (OpMasterRead i n) s = snd (pty_master_read i False n s)"
| "pty_step (OpSlaveWrite i b) s = snd (pty_slave_write i (Some b) (length b) s)"
| "pty_step (OpSlaveRead i n) s = snd (pty_slave_read i False n s)"

section \<open>The two queue loops\<close>

lemma PTY_QUEUE_SIZE_pos [simp]: "0 < PTY_QUEUE_SIZE"
  by (simp add: PTY_QUEUE_SIZE_def)

lemma pty_queue_write_spec:
  assumes "ring_wf PTY_QUEUE_SIZE q h t" "written \<le> len" "len \<le> length buf"
    and "pty_queue_write q h t buf len written d = (n, q', h', d')"
  shows "ring_wf PTY_QUEUE_SIZE q' h' t \<and>
    n = written + min (len - written) (PTY_CAP - length (ring_list PTY_QUEUE_SIZE q h t)) \<and>
    ring_list PTY_QUEUE_SIZE q' h' t =
      ring_list PTY_QUEUE_SIZE q h t @ take (n - written) (drop written buf) \<and>
    d' = d + of_nat (len - n)"
  using assms
proof (induction q h t buf len written d rule: pty_queue_write.induct)
  case (1 q h t buf len written d)
  let ?c = "ring_list PTY_QUEUE_SIZE q h t"
  note eq = pty_queue_write.simps [of q h t buf len written d]
  have full: "Suc h mod PTY_QUEUE_SIZE = t \<longleftrightarrow> length ?c = PTY_CAP"
    using ring_full_iff [OF "1.prems"(1)] by (simp add: PTY_CAP_def)
  have le: "length ?c \<le> PTY_CAP"
    using ring_list_length_le [OF "1.prems"(1)] by (simp add: PTY_CAP_def)
  show ?case
  proof (cases "written < len \<and> Suc h mod PTY_QUEUE_SIZE \<noteq> t")
    case False
    then show ?thesis using "1.prems" eq full le by (auto simp: Let_def split: if_splits)
  next
    case True
    let ?q = "q[h := buf ! written]" and ?h = "Suc h mod PTY_QUEUE_SIZE"
    have push: "ring_list PTY_QUEUE_SIZE ?q ?h t = ?c @ [buf ! written]"
      using "1.prems"(1) True by (intro ring_list_push) auto
    have rest: "pty_queue_write ?q ?h t buf len (Suc written) d = (n, q', h', d')"
      using True "1.prems"(4) eq by simp
    have wf: "ring_wf PTY_QUEUE_SIZE ?q ?h t" by (rule ring_wf_push) (rule "1.prems"(1))
    have sp: "ring_wf PTY_QUEUE_SIZE q' h' t \<and>
        n = Suc written + min (len - Suc written) (PTY_CAP - Suc (length ?c)) \<and>
        ring_list PTY_QUEUE_SIZE q' h' t =
          ?c @ [buf ! written] @ take (n - Suc written) (drop (Suc written) buf) \<and>
        d' = d + of_nat (len - n)"
      using "1.IH" True wf rest push "1.prems"(3) by (simp del: length_ring_list)
    have "length ?c < PTY_CAP" using le full True by auto
    moreover have "drop written buf = buf ! written # drop (Suc written) buf"
      using True "1.prems"(3) by (intro take_drop_Suc_nth) simp
    moreover have "n - written = Suc (n - Suc written)" using sp by arith
    ultimately show ?thesis using sp True by (auto simp: min_def)
  qed
qed

lemma pty_queue_read_spec:
  assumes "ring_wf PTY_QUEUE_SIZE q h t" "length got \<le> len"
    and "pty_queue_read q h t len got = (out, t')"
  shows "ring_wf PTY_QUEUE_SIZE q h t' \<and>
    out = got @ take (len - length got) (ring_list PTY_QUEUE_SIZE q h t) \<and>
    ring_list PTY_QUEUE_SIZE q h t' = drop (len - length got) (ring_list PTY_QUEUE_SIZE q h t)"
  using assms
proof (induction q h t len got rule: pty_queue_read.induct)
  case (1 q h t len got)
  note eq = pty_queue_read.simps [of q h t len got]
  show ?case
  proof (cases "length got < len \<and> t \<noteq> h")
    case False
    then show ?thesis using "1.prems" eq by auto
  next
    case True
    let ?t = "Suc t mod PTY_QUEUE_SIZE"
    have pop: "ring_list PTY_QUEUE_SIZE q h t = q ! t # ring_list PTY_QUEUE_SIZE q h ?t"
      using True "1.prems"(1) by (intro ring_list_pop) auto
    have rest: "pty_queue_read q h ?t len (got @ [q ! t]) = (out, t')"
      using True "1.prems"(3) eq by simp
    have "ring_wf PTY_QUEUE_SIZE q h ?t" by (rule ring_wf_pop) (rule "1.prems"(1))
    from "1.IH" [OF True, simplified, OF this _ rest] True
    have sp: "ring_wf PTY_QUEUE_SIZE q h t' \<and>
        out = got @ q ! t # take (len - Suc (length got)) (ring_list PTY_QUEUE_SIZE q h ?t) \<and>
        ring_list PTY_QUEUE_SIZE q h t' =
          drop (len - Suc (length got)) (ring_list PTY_QUEUE_SIZE q h ?t)"
      by simp
    moreover have "len - length got = Suc (len - Suc (length got))" using True by arith
    ultimately show ?thesis using pop by simp
  qed
qed

section \<open>The invariant\<close>

lemma pty_inv_slot: "pty_inv s \<Longrightarrow> i < PTY_MAX \<Longrightarrow> slot_inv (g_ptys s ! i)"
  by (auto simp: pty_inv_def)

lemma pty_inv_update:
  "pty_inv s \<Longrightarrow> slot_inv slot \<Longrightarrow> g_ptys s' = (g_ptys s)[i := slot] \<Longrightarrow> pty_inv s'"
  by (auto simp: pty_inv_def dest: set_update_subset_insert [THEN subsetD])

lemma pty_inv_bad_op [simp]: "pty_inv (pty_bad_op s) \<longleftrightarrow> pty_inv s"
  by (simp add: pty_inv_def pty_bad_op_def)

lemma pty_is_valid_bad_op [simp]: "pty_is_valid i (pty_bad_op s) \<longleftrightarrow> pty_is_valid i s"
  by (simp add: pty_is_valid_def pty_bad_op_def)

lemma pty_is_valid_index: "pty_is_valid i s \<Longrightarrow> nat i < PTY_MAX"
  by (simp add: pty_is_valid_def nat_less_iff)

lemma slot_inv_zero: "slot_inv pty_slot_zero"
  by (simp add: slot_inv_def pty_slot_zero_def ring_wf_zero)

lemma slot_inv_open: "slot_inv slot \<Longrightarrow> slot_inv (pty_slot_open slot)"
  by (simp add: slot_inv_def pty_slot_open_def ring_wf_def)

lemma pty_inv_init: "pty_inv (pty_init s)"
  by (simp add: pty_inv_def pty_init_def slot_inv_zero)

text \<open>What an operation on one slot leaves alone: every other slot and all allocation flags.\<close>

definition pty_only :: "int \<Rightarrow> pty_state \<Rightarrow> pty_state \<Rightarrow> bool" where
  "pty_only i s s' \<longleftrightarrow> (\<forall>j. j \<noteq> nat i \<longrightarrow> g_ptys s' ! j = g_ptys s ! j) \<and>
     (\<forall>j. allocated (g_ptys s' ! j) = allocated (g_ptys s ! j)) \<and>
     g_pty_invalid_ops s' = g_pty_invalid_ops s"

lemma pty_only_valid: "pty_only i s s' \<Longrightarrow> pty_is_valid j s' = pty_is_valid j s"
  by (simp add: pty_only_def pty_is_valid_def)

lemma pty_valid_slot:
  assumes "pty_inv s" "pty_is_valid i s"
  shows "slot_inv (g_ptys s ! nat i)" "allocated (g_ptys s ! nat i)"
    and "nat i < length (g_ptys s)"
  using assms pty_is_valid_index [OF assms(2)] by (auto simp: pty_inv_def pty_is_valid_def)

lemma pty_update_frame:
  assumes inv: "pty_inv s" and ok: "pty_is_valid i s" and slot: "allocated slot" "slot_inv slot"
    and eq: "g_ptys s' = (g_ptys s)[nat i := slot]" "g_pty_invalid_ops s' = g_pty_invalid_ops s"
  shows "pty_only i s s' \<and> pty_inv s' \<and> g_ptys s' ! nat i = slot"
proof -
  note v = pty_valid_slot [OF inv ok]
  have "pty_inv s'" using inv slot(2) eq(1) by (rule pty_inv_update)
  then show ?thesis using v slot(1) eq by (auto simp: pty_only_def nth_list_update)
qed

section \<open>Reads and writes of a valid PTY\<close>

lemma pty_master_write_valid:
  assumes inv: "pty_inv s" and ok: "pty_is_valid i s" and len: "len \<le> length b"
    and w: "pty_master_write i (Some b) len s = (n, s')"
  shows "n = min len (PTY_CAP - length (to_slave i s)) \<and>
    to_slave i s' = to_slave i s @ take n b \<and> to_master i s' = to_master i s \<and>
    g_pty_dropped_bytes s' = g_pty_dropped_bytes s + of_nat (len - n) \<and>
    pty_only i s s' \<and> pty_inv s'"
proof -
  let ?slot = "g_ptys s ! nat i"
  obtain q h d where l: "pty_queue_write (m2s ?slot) (m2s_head ?slot) (m2s_tail ?slot)
      b len 0 (g_pty_dropped_bytes s) = (n, q, h, d)"
    and s': "s' = s\<lparr>g_ptys := (g_ptys s)[nat i := ?slot\<lparr>m2s := q, m2s_head := h\<rparr>],
                   g_pty_dropped_bytes := d\<rparr>"
    using w ok by (auto simp: pty_master_write_def Let_def split: prod.splits)
  note slot = pty_valid_slot [OF inv ok]
  have sp: "ring_wf PTY_QUEUE_SIZE q h (m2s_tail ?slot) \<and>
      n = min len (PTY_CAP - length (to_slave i s)) \<and>
      ring_list PTY_QUEUE_SIZE q h (m2s_tail ?slot) = to_slave i s @ take n b \<and>
      d = g_pty_dropped_bytes s + of_nat (len - n)"
    using pty_queue_write_spec [OF _ _ len l] slot(1) by (simp add: to_slave_def slot_m2s_def slot_inv_def)
  have "pty_only i s s' \<and> pty_inv s' \<and> g_ptys s' ! nat i = ?slot\<lparr>m2s := q, m2s_head := h\<rparr>"
    using slot sp s' by (intro pty_update_frame [OF inv ok]) (auto simp: slot_inv_def)
  then show ?thesis
    using sp s' by (simp add: to_slave_def to_master_def slot_m2s_def slot_s2m_def)
qed

lemma pty_slave_write_valid:
  assumes inv: "pty_inv s" and ok: "pty_is_valid i s" and len: "len \<le> length b"
    and w: "pty_slave_write i (Some b) len s = (n, s')"
  shows "n = min len (PTY_CAP - length (to_master i s)) \<and>
    to_master i s' = to_master i s @ take n b \<and> to_slave i s' = to_slave i s \<and>
    g_pty_dropped_bytes s' = g_pty_dropped_bytes s + of_nat (len - n) \<and>
    pty_only i s s' \<and> pty_inv s'"
proof -
  let ?slot = "g_ptys s ! nat i"
  obtain q h d where l: "pty_queue_write (s2m ?slot) (s2m_head ?slot) (s2m_tail ?slot)
      b len 0 (g_pty_dropped_bytes s) = (n, q, h, d)"
    and s': "s' = s\<lparr>g_ptys := (g_ptys s)[nat i := ?slot\<lparr>s2m := q, s2m_head := h\<rparr>],
                   g_pty_dropped_bytes := d\<rparr>"
    using w ok by (auto simp: pty_slave_write_def Let_def split: prod.splits)
  note slot = pty_valid_slot [OF inv ok]
  have sp: "ring_wf PTY_QUEUE_SIZE q h (s2m_tail ?slot) \<and>
      n = min len (PTY_CAP - length (to_master i s)) \<and>
      ring_list PTY_QUEUE_SIZE q h (s2m_tail ?slot) = to_master i s @ take n b \<and>
      d = g_pty_dropped_bytes s + of_nat (len - n)"
    using pty_queue_write_spec [OF _ _ len l] slot(1) by (simp add: to_master_def slot_s2m_def slot_inv_def)
  have "pty_only i s s' \<and> pty_inv s' \<and> g_ptys s' ! nat i = ?slot\<lparr>s2m := q, s2m_head := h\<rparr>"
    using slot sp s' by (intro pty_update_frame [OF inv ok]) (auto simp: slot_inv_def)
  then show ?thesis
    using sp s' by (simp add: to_slave_def to_master_def slot_m2s_def slot_s2m_def)
qed

lemma pty_slave_read_valid:
  assumes inv: "pty_inv s" and ok: "pty_is_valid i s"
    and r: "pty_slave_read i False len s = (out, s')"
  shows "out = take len (to_slave i s) \<and> to_slave i s' = drop len (to_slave i s) \<and>
    to_master i s' = to_master i s \<and> g_pty_dropped_bytes s' = g_pty_dropped_bytes s \<and>
    pty_only i s s' \<and> pty_inv s'"
proof -
  let ?slot = "g_ptys s ! nat i"
  obtain t where l: "pty_queue_read (m2s ?slot) (m2s_head ?slot) (m2s_tail ?slot) len [] = (out, t)"
    and s': "s' = s\<lparr>g_ptys := (g_ptys s)[nat i := ?slot\<lparr>m2s_tail := t\<rparr>]\<rparr>"
    using r ok by (auto simp: pty_slave_read_def Let_def split: prod.splits)
  note slot = pty_valid_slot [OF inv ok]
  have sp: "ring_wf PTY_QUEUE_SIZE (m2s ?slot) (m2s_head ?slot) t \<and>
      out = take len (to_slave i s) \<and>
      ring_list PTY_QUEUE_SIZE (m2s ?slot) (m2s_head ?slot) t = drop len (to_slave i s)"
    using pty_queue_read_spec [OF _ _ l] slot(1) by (simp add: to_slave_def slot_m2s_def slot_inv_def)
  have "pty_only i s s' \<and> pty_inv s' \<and> g_ptys s' ! nat i = ?slot\<lparr>m2s_tail := t\<rparr>"
    using slot sp s' by (intro pty_update_frame [OF inv ok]) (auto simp: slot_inv_def)
  then show ?thesis
    using sp s' by (simp add: to_slave_def to_master_def slot_m2s_def slot_s2m_def)
qed

lemma pty_master_read_valid:
  assumes inv: "pty_inv s" and ok: "pty_is_valid i s"
    and r: "pty_master_read i False len s = (out, s')"
  shows "out = take len (to_master i s) \<and> to_master i s' = drop len (to_master i s) \<and>
    to_slave i s' = to_slave i s \<and> g_pty_dropped_bytes s' = g_pty_dropped_bytes s \<and>
    pty_only i s s' \<and> pty_inv s'"
proof -
  let ?slot = "g_ptys s ! nat i"
  obtain t where l: "pty_queue_read (s2m ?slot) (s2m_head ?slot) (s2m_tail ?slot) len [] = (out, t)"
    and s': "s' = s\<lparr>g_ptys := (g_ptys s)[nat i := ?slot\<lparr>s2m_tail := t\<rparr>]\<rparr>"
    using r ok by (auto simp: pty_master_read_def Let_def split: prod.splits)
  note slot = pty_valid_slot [OF inv ok]
  have sp: "ring_wf PTY_QUEUE_SIZE (s2m ?slot) (s2m_head ?slot) t \<and>
      out = take len (to_master i s) \<and>
      ring_list PTY_QUEUE_SIZE (s2m ?slot) (s2m_head ?slot) t = drop len (to_master i s)"
    using pty_queue_read_spec [OF _ _ l] slot(1) by (simp add: to_master_def slot_s2m_def slot_inv_def)
  have "pty_only i s s' \<and> pty_inv s' \<and> g_ptys s' ! nat i = ?slot\<lparr>s2m_tail := t\<rparr>"
    using slot sp s' by (intro pty_update_frame [OF inv ok]) (auto simp: slot_inv_def)
  then show ?thesis
    using sp s' by (simp add: to_slave_def to_master_def slot_m2s_def slot_s2m_def)
qed

lemma to_slave_le_cap: "pty_inv s \<Longrightarrow> pty_is_valid i s \<Longrightarrow> length (to_slave i s) \<le> PTY_CAP"
  using pty_inv_slot [OF _ pty_is_valid_index, of s i s]
  by (auto simp: to_slave_def slot_m2s_def slot_inv_def PTY_CAP_def
      simp del: length_ring_list dest: ring_list_length_le)

lemma to_master_le_cap: "pty_inv s \<Longrightarrow> pty_is_valid i s \<Longrightarrow> length (to_master i s) \<le> PTY_CAP"
  using pty_inv_slot [OF _ pty_is_valid_index, of s i s]
  by (auto simp: to_master_def slot_s2m_def slot_inv_def PTY_CAP_def
      simp del: length_ring_list dest: ring_list_length_le)

section \<open>Allocation\<close>

lemma pty_alloc_from_spec:
  assumes "pty_alloc_from i s = (r, s')"
  shows "(r = -1 \<and> s' = s \<and> (\<forall>j. i \<le> j \<and> j < PTY_MAX \<longrightarrow> allocated (g_ptys s ! j))) \<or>
    (\<exists>j. i \<le> j \<and> j < PTY_MAX \<and> r = int j \<and> \<not> allocated (g_ptys s ! j) \<and>
       (\<forall>k. i \<le> k \<and> k < j \<longrightarrow> allocated (g_ptys s ! k)) \<and>
       s' = s\<lparr>g_ptys := (g_ptys s)[j := pty_slot_open (g_ptys s ! j)]\<rparr>)"
  using assms
proof (induction i s rule: pty_alloc_from.induct)
  case (1 i s)
  note eq = pty_alloc_from.simps [of i s]
  show ?case
  proof (cases "i < PTY_MAX \<and> allocated (g_ptys s ! i)")
    case False
    then show ?thesis using "1.prems" eq by (force split: if_splits)
  next
    case True
    then have rest: "pty_alloc_from (i + 1) s = (r, s')" using "1.prems" eq by simp
    have "\<not> \<not> allocated (g_ptys s ! i)" "i < PTY_MAX" using True by auto
    note ih = "1.IH" [OF this(2,1) rest]
    have here: "\<forall>k. i \<le> k \<and> k < n \<longrightarrow> allocated (g_ptys s ! k)"
      if "\<forall>k. i + 1 \<le> k \<and> k < n \<longrightarrow> allocated (g_ptys s ! k)" for n
    proof (intro allI impI)
      fix k assume "i \<le> k \<and> k < n"
      then show "allocated (g_ptys s ! k)" using that True by (cases "k = i") auto
    qed
    from ih show ?thesis
    proof (elim disjE exE conjE)
      assume "r = -1" "s' = s" "\<forall>j. i + 1 \<le> j \<and> j < PTY_MAX \<longrightarrow> allocated (g_ptys s ! j)"
      then show ?thesis by (intro disjI1 conjI here)
    next
      fix j assume "i + 1 \<le> j" "j < PTY_MAX" "r = int j" "\<not> allocated (g_ptys s ! j)"
        "\<forall>k. i + 1 \<le> k \<and> k < j \<longrightarrow> allocated (g_ptys s ! k)"
        "s' = s\<lparr>g_ptys := (g_ptys s)[j := pty_slot_open (g_ptys s ! j)]\<rparr>"
      then show ?thesis by (intro disjI2 exI [of _ j] conjI here) simp_all
    qed
  qed
qed

lemma pty_inv_alloc:
  assumes "pty_inv s" "pty_alloc s = (r, s')"
  shows "pty_inv s'"
proof -
  from pty_alloc_from_spec [OF assms(2) [unfolded pty_alloc_def]]
  consider "s' = s" | j where "j < PTY_MAX"
      "s' = s\<lparr>g_ptys := (g_ptys s)[j := pty_slot_open (g_ptys s ! j)]\<rparr>"
    by blast
  then show ?thesis
  proof cases
    case 2
    then show ?thesis
      using assms(1) slot_inv_open [OF pty_inv_slot [OF assms(1)]]
      by (intro pty_inv_update [OF assms(1)]) auto
  qed (simp add: assms(1))
qed

section \<open>Invalid operations\<close>

lemma pty_ops_invalid:
  assumes "\<not> pty_is_valid i s"
  shows "pty_master_write i buf len s = (0, pty_bad_op s)"
    and "pty_slave_write i buf len s = (0, pty_bad_op s)"
    and "pty_master_read i nul len s = ([], pty_bad_op s)"
    and "pty_slave_read i nul len s = ([], pty_bad_op s)"
  using assms
  by (simp_all add: pty_master_write_def pty_slave_write_def pty_master_read_def pty_slave_read_def
      split: option.splits)

section \<open>The PTY as a machine and as queues\<close>

lemma pty_step_inv: "pty_inv s \<Longrightarrow> pty_inv (pty_step op s)"
proof -
  assume inv: "pty_inv s"
  show ?thesis
  proof (cases op)
    case OpAlloc
    then show ?thesis using pty_inv_alloc [OF inv] by (cases "pty_alloc s") auto
  next
    case (OpMasterWrite i b)
    then show ?thesis
      using pty_master_write_valid [OF inv, of i "length b" b] inv
      by (cases "pty_is_valid i s"; cases "pty_master_write i (Some b) (length b) s")
        (auto simp: pty_ops_invalid)
  next
    case (OpMasterRead i n)
    then show ?thesis
      using pty_master_read_valid [OF inv, of i n] inv
      by (cases "pty_is_valid i s"; cases "pty_master_read i False n s") (auto simp: pty_ops_invalid)
  next
    case (OpSlaveWrite i b)
    then show ?thesis
      using pty_slave_write_valid [OF inv, of i "length b" b] inv
      by (cases "pty_is_valid i s"; cases "pty_slave_write i (Some b) (length b) s")
        (auto simp: pty_ops_invalid)
  next
    case (OpSlaveRead i n)
    then show ?thesis
      using pty_slave_read_valid [OF inv, of i n] inv
      by (cases "pty_is_valid i s"; cases "pty_slave_read i False n s") (auto simp: pty_ops_invalid)
  qed
qed

interpretation pty_machine: invariant_machine pty_step pty_inv
  by unfold_locales (rule pty_step_inv)

text \<open>One direction of an open PTY, byte by byte, is a bounded queue that counts its drops.\<close>

definition pty_ready :: "int \<Rightarrow> pty_state \<Rightarrow> bool" where
  "pty_ready i s \<longleftrightarrow> pty_inv s \<and> pty_is_valid i s"

definition m2s_push :: "int \<Rightarrow> u8 \<Rightarrow> pty_state \<Rightarrow> pty_state" where
  "m2s_push i b s = snd (pty_master_write i (Some [b]) 1 s)"

definition m2s_pop :: "int \<Rightarrow> pty_state \<Rightarrow> (u8 \<times> pty_state) option" where
  "m2s_pop i s = (case pty_slave_read i False 1 s of (out, s') \<Rightarrow>
     (case out of [] \<Rightarrow> None | b # _ \<Rightarrow> Some (b, s')))"

definition s2m_push :: "int \<Rightarrow> u8 \<Rightarrow> pty_state \<Rightarrow> pty_state" where
  "s2m_push i b s = snd (pty_slave_write i (Some [b]) 1 s)"

definition s2m_pop :: "int \<Rightarrow> pty_state \<Rightarrow> (u8 \<times> pty_state) option" where
  "s2m_pop i s = (case pty_master_read i False 1 s of (out, s') \<Rightarrow>
     (case out of [] \<Rightarrow> None | b # _ \<Rightarrow> Some (b, s')))"

lemma pty_ready_inv: "pty_ready i s \<Longrightarrow> pty_inv s" "pty_ready i s \<Longrightarrow> pty_is_valid i s"
  by (simp_all add: pty_ready_def)

lemma m2s_push_spec:
  assumes "pty_ready i s"
  shows "pty_ready i (m2s_push i b s) \<and>
    to_slave i (m2s_push i b s) = take PTY_CAP (to_slave i s @ [b]) \<and>
    g_pty_dropped_bytes (m2s_push i b s) =
      g_pty_dropped_bytes s + (if length (to_slave i s) < PTY_CAP then 0 else 1)"
proof -
  obtain n s' where w: "pty_master_write i (Some [b]) 1 s = (n, s')" by fastforce
  have inv: "pty_inv s" "pty_is_valid i s" using assms by (auto simp: pty_ready_def)
  note sp = pty_master_write_valid [OF inv _ w, simplified]
  have "length (to_slave i s) \<le> PTY_CAP" using inv by (rule to_slave_le_cap)
  with sp inv w show ?thesis
    by (cases "length (to_slave i s) = PTY_CAP") (auto simp: pty_ready_def m2s_push_def pty_only_valid)
qed

lemma s2m_push_spec:
  assumes "pty_ready i s"
  shows "pty_ready i (s2m_push i b s) \<and>
    to_master i (s2m_push i b s) = take PTY_CAP (to_master i s @ [b]) \<and>
    g_pty_dropped_bytes (s2m_push i b s) =
      g_pty_dropped_bytes s + (if length (to_master i s) < PTY_CAP then 0 else 1)"
proof -
  obtain n s' where w: "pty_slave_write i (Some [b]) 1 s = (n, s')" by fastforce
  have inv: "pty_inv s" "pty_is_valid i s" using assms by (auto simp: pty_ready_def)
  note sp = pty_slave_write_valid [OF inv _ w, simplified]
  have "length (to_master i s) \<le> PTY_CAP" using inv by (rule to_master_le_cap)
  with sp inv w show ?thesis
    by (cases "length (to_master i s) = PTY_CAP") (auto simp: pty_ready_def s2m_push_def pty_only_valid)
qed

interpretation m2s_queue: counting_fifo "pty_ready i" "to_slave i" PTY_CAP "m2s_push i" "m2s_pop i"
    g_pty_dropped_bytes for i
proof (unfold_locales, goal_cases)
  case (6 s x xs)
  then show ?case
    using pty_slave_read_valid [of s i 1] by (cases "pty_slave_read i False 1 s")
      (auto simp: pty_ready_def m2s_pop_def pty_only_valid)
next
  case (5 s)
  then show ?case
    using pty_slave_read_valid [of s i 1] by (cases "pty_slave_read i False 1 s")
      (auto simp: pty_ready_def m2s_pop_def)
qed (auto simp: m2s_push_spec to_slave_le_cap [OF pty_ready_inv(1) pty_ready_inv(2)])

interpretation s2m_queue: counting_fifo "pty_ready i" "to_master i" PTY_CAP "s2m_push i" "s2m_pop i"
    g_pty_dropped_bytes for i
proof (unfold_locales, goal_cases)
  case (6 s x xs)
  then show ?case
    using pty_master_read_valid [of s i 1] by (cases "pty_master_read i False 1 s")
      (auto simp: pty_ready_def s2m_pop_def pty_only_valid)
next
  case (5 s)
  then show ?case
    using pty_master_read_valid [of s i 1] by (cases "pty_master_read i False 1 s")
      (auto simp: pty_ready_def s2m_pop_def)
qed (auto simp: s2m_push_spec to_master_le_cap [OF pty_ready_inv(1) pty_ready_inv(2)])

lemma pty_step_keeps_valid:
  assumes inv: "pty_inv s" and ok: "pty_is_valid j s"
  shows "pty_is_valid j (pty_step op s)"
proof (cases op)
  case OpAlloc
  have "nat j < length (g_ptys s)" "allocated (g_ptys s ! nat j)"
    using pty_valid_slot [OF inv ok] by auto
  then show ?thesis
    using ok OpAlloc pty_alloc_from_spec [of 0 s] inv
    by (cases "pty_alloc s", cases "fst (pty_alloc s) = j")
      (auto simp: pty_alloc_def pty_is_valid_def nth_list_update pty_slot_open_def)
next
  case (OpMasterWrite i b)
  then show ?thesis
    using pty_master_write_valid [OF inv, of i "length b" b] ok
    by (cases "pty_is_valid i s"; cases "pty_master_write i (Some b) (length b) s")
      (auto simp: pty_ops_invalid pty_only_valid)
next
  case (OpMasterRead i n)
  then show ?thesis
    using pty_master_read_valid [OF inv, of i n] ok
    by (cases "pty_is_valid i s"; cases "pty_master_read i False n s")
      (auto simp: pty_ops_invalid pty_only_valid)
next
  case (OpSlaveWrite i b)
  then show ?thesis
    using pty_slave_write_valid [OF inv, of i "length b" b] ok
    by (cases "pty_is_valid i s"; cases "pty_slave_write i (Some b) (length b) s")
      (auto simp: pty_ops_invalid pty_only_valid)
next
  case (OpSlaveRead i n)
  then show ?thesis
    using pty_slave_read_valid [OF inv, of i n] ok
    by (cases "pty_is_valid i s"; cases "pty_slave_read i False n s")
      (auto simp: pty_ops_invalid pty_only_valid)
qed

section \<open>Properties\<close>

text \<open>A state to exercise the channels: the first PTY opened after initialisation.\<close>

definition pty_open0 :: pty_state where
  "pty_open0 = snd (pty_alloc (pty_init \<lparr>g_ptys = [], g_pty_dropped_bytes = 0, g_pty_invalid_ops = 0\<rparr>))"

lemma pty_open0_eq: "pty_open0 = \<lparr>g_ptys = pty_slot_open pty_slot_zero # replicate 7 pty_slot_zero,
    g_pty_dropped_bytes = 0, g_pty_invalid_ops = 0\<rparr>"
  by (simp add: pty_open0_def pty_alloc_def pty_alloc_from.simps PTY_MAX_def pty_init_def
      numeral_eq_Suc pty_slot_zero_def)

lemma pty_open0_ready: "pty_inv pty_open0" "pty_is_valid 0 pty_open0" "to_slave 0 pty_open0 = []"
    "to_master 0 pty_open0 = []"
  using slot_inv_open [OF slot_inv_zero] slot_inv_zero
  by (auto simp: pty_open0_eq pty_inv_def PTY_MAX_def pty_is_valid_def
      to_slave_def to_master_def slot_m2s_def slot_s2m_def pty_slot_open_def)

text \<open>
  C10: The master-to-slave channel of an open PTY is a bounded byte queue. Writing a buffer
  appends the part that fits, in order, reports its length and adds the rest to the drop counter;
  a read afterwards returns the oldest bytes and removes exactly those. The other direction and
  every other PTY are untouched.
\<close>

theorem pty_channel_fifo:
  assumes "pty_inv s" "pty_is_valid i s"
    and "pty_master_write i (Some b) (length b) s = (n, s1)"
    and "pty_slave_read i False len s1 = (out, s2)"
  shows "n = min (length b) (PTY_CAP - length (to_slave i s)) \<and>
    out = take len (to_slave i s @ take n b) \<and>
    to_slave i s2 = drop len (to_slave i s @ take n b) \<and>
    to_master i s2 = to_master i s \<and>
    g_pty_dropped_bytes s2 = g_pty_dropped_bytes s + of_nat (length b - n) \<and>
    (\<forall>j. j \<noteq> nat i \<longrightarrow> g_ptys s2 ! j = g_ptys s ! j) \<and> pty_inv s2"
proof -
  note w = pty_master_write_valid [OF assms(1,2) order.refl assms(3)]
  then have "pty_inv s1" "pty_is_valid i s1" using assms(2) by (auto simp: pty_only_valid)
  from pty_slave_read_valid [OF this assms(4)] w show ?thesis by (simp add: pty_only_def)
qed

theorem pty_channel_fifo_witness:
  "(case pty_master_write 0 (Some [104, 105]) 2 pty_open0 of (n, s1) \<Rightarrow>
      n = 2 \<and> fst (pty_slave_read 0 False 10 s1) = [104, 105])"
proof -
  obtain n s1 where w: "pty_master_write 0 (Some [104, 105]) 2 pty_open0 = (n, s1)" by fastforce
  obtain out s2 where r: "pty_slave_read 0 False 10 s1 = (out, s2)" by fastforce
  have "pty_master_write 0 (Some [104, 105]) (length [104, 105 :: u8]) pty_open0 = (n, s1)"
    using w by (simp add: numeral_2_eq_2)
  from pty_channel_fifo [OF pty_open0_ready(1,2) this r]
  show ?thesis using w r by (simp add: pty_open0_ready PTY_CAP_def PTY_QUEUE_SIZE_def)
qed

text \<open>
  C20: However writes by the slave and reads by the master of one PTY are interleaved, the bytes
  read so far followed by the bytes still queued are the initial queue followed by the written
  bytes that were accepted, in order; and when they fit in the ring, every written byte is
  accepted.
\<close>

theorem pty_reply_channel_order:
  assumes "pty_ready i s" "fifo_run (s2m_push i) (s2m_pop i) ops s = (out, s')"
  shows "(\<exists>acc. subseq acc (pushed ops) \<and> out @ to_master i s' = to_master i s @ acc) \<and>
    (length (to_master i s) + length (pushed ops) \<le> PTY_CAP \<longrightarrow>
       out @ to_master i s' = to_master i s @ pushed ops)"
  using s2m_queue.fifo_run_order [OF assms] s2m_queue.fifo_run_lossless [OF assms(1) _ assms(2)]
  by blast

theorem pty_reply_channel_order_witness:
  "\<exists>out s'. fifo_run (s2m_push 0) (s2m_pop 0) [Some 1, None, Some 2] pty_open0 = (out, s') \<and>
     out @ to_master 0 s' = [1, 2]"
proof -
  obtain out s' where r: "fifo_run (s2m_push 0) (s2m_pop 0) [Some 1, None, Some 2] pty_open0 = (out, s')"
    by fastforce
  have "pty_ready 0 pty_open0" by (simp add: pty_ready_def pty_open0_ready)
  from pty_reply_channel_order [OF this r] r show ?thesis
    by (simp add: pty_open0_ready pushed_def List.map_filter_def PTY_CAP_def PTY_QUEUE_SIZE_def)
qed

text \<open>
  Allocation hands out the lowest free slot with both queues empty and leaves the others
  alone; it returns -1, changing nothing, exactly when all eight are taken.
\<close>

theorem pty_alloc_lowest:
  assumes "pty_inv s" "pty_alloc s = (r, s')"
  shows "if \<forall>j < PTY_MAX. allocated (g_ptys s ! j) then r = -1 \<and> s' = s
    else 0 \<le> r \<and> nat r < PTY_MAX \<and> \<not> allocated (g_ptys s ! nat r) \<and>
      (\<forall>j < nat r. allocated (g_ptys s ! j)) \<and> pty_ready r s' \<and>
      to_slave r s' = [] \<and> to_master r s' = [] \<and>
      (\<forall>j. j \<noteq> nat r \<longrightarrow> g_ptys s' ! j = g_ptys s ! j)"
proof -
  have inv: "pty_inv s'" by (rule pty_inv_alloc [OF assms])
  from pty_alloc_from_spec [OF assms(2) [unfolded pty_alloc_def]] assms(1) inv show ?thesis
    by (auto simp: pty_ready_def pty_is_valid_def to_slave_def to_master_def slot_m2s_def
        slot_s2m_def pty_slot_open_def pty_inv_def)
qed

theorem pty_alloc_lowest_witness:
  "\<exists>s'. pty_alloc pty_open0 = (1, s') \<and> pty_ready 1 s' \<and> to_slave 1 s' = []"
proof -
  obtain r s' where a: "pty_alloc pty_open0 = (r, s')" by fastforce
  have al: "allocated (g_ptys pty_open0 ! j) = (j = 0)" if "j < 8" for j
    using that by (auto simp: pty_open0_eq nth_Cons pty_slot_open_def pty_slot_zero_def
        split: nat.splits)
  have nall: "\<not> (\<forall>j < PTY_MAX. allocated (g_ptys pty_open0 ! j))"
    using al [of 1] by (auto simp: PTY_MAX_def intro!: exI [of _ 1])
  note p = pty_alloc_lowest [OF pty_open0_ready(1) a, unfolded if_not_P [OF nall]]
  have "nat r = 1"
  proof (rule ccontr)
    assume "nat r \<noteq> 1"
    moreover have "nat r \<noteq> 0" using p al [of 0] by auto
    ultimately have "1 < nat r" by simp
    with p al [of 1] show False by auto
  qed
  then have "r = 1" by simp
  then show ?thesis using p a by simp
qed

text \<open>
  From initialisation on, whatever sequence of calls the kernel makes (allocations, reads
  and writes on any identifier, valid or not), both ring buffers of all eight slots stay well
  formed: arrays of the declared length, indices inside them, at most \<open>PTY_QUEUE_SIZE - 1\<close> bytes
  queued.
\<close>

theorem pty_run_safe: "pty_inv (fold pty_step ops (pty_init s))"
  by (rule pty_machine.run_inv) (rule pty_inv_init)

end
