(* ===== verification/Session.thy ===== *)
theory Session
  imports Pty
begin

text \<open>
  The session table of \<^verbatim>\<open>kernel/src/core/session.c\<close>: sixteen entries, an active session and an
  invalid-operation counter. A \<^verbatim>\<open>session_entry_t *\<close> is the index of the entry, \<^const>\<open>None\<close> for the
  null pointer. The controlling PTY of a session is an identifier checked by \<open>pty_is_valid\<close>.
\<close>

section \<open>State\<close>

definition SESSION_MAX :: nat where
  "SESSION_MAX = 16"

record session_entry =
  in_use :: bool
  session_id :: int
  leader_pid :: u32
  controlling_pty :: int

record session_state =
  g_sessions :: "session_entry list"
  g_active_session_id :: int
  g_session_invalid_ops :: u64

section \<open>Operations\<close>

definition session_find :: "int \<Rightarrow> session_state \<Rightarrow> nat option" where
  "session_find sid s =
     find (\<lambda>i. in_use (g_sessions s ! i) \<and> session_id (g_sessions s ! i) = sid) [0..<SESSION_MAX]"

definition session_init :: "session_state \<Rightarrow> session_state" where
  "session_init s = s\<lparr>g_sessions := replicate SESSION_MAX
       \<lparr>in_use = False, session_id = 0, leader_pid = 0, controlling_pty = 0\<rparr>,
     g_active_session_id := -1, g_session_invalid_ops := 0\<rparr>"

definition session_bad_op :: "session_state \<Rightarrow> session_state" where
  "session_bad_op s = s\<lparr>g_session_invalid_ops := g_session_invalid_ops s + 1\<rparr>"

definition session_create :: "u32 \<Rightarrow> session_state \<Rightarrow> int \<times> session_state" where
  "session_create pid s =
     (case find (\<lambda>i. \<not> in_use (g_sessions s ! i)) [0..<SESSION_MAX] of
        Some i \<Rightarrow> (int i + 1, s\<lparr>g_sessions := (g_sessions s)[i := (g_sessions s ! i)
                    \<lparr>in_use := True, session_id := int i + 1, leader_pid := pid,
                     controlling_pty := -1\<rparr>]\<rparr>)
      | None \<Rightarrow> (-1, session_bad_op s))"

definition session_set_controlling_pty ::
    "int \<Rightarrow> int \<Rightarrow> pty_state \<Rightarrow> session_state \<Rightarrow> bool \<times> session_state" where
  "session_set_controlling_pty sid pty_id p s =
     (case session_find sid s of
        None \<Rightarrow> (False, session_bad_op s)
      | Some i \<Rightarrow>
          if \<not> pty_is_valid pty_id p then (False, session_bad_op s)
          else (True, s\<lparr>g_sessions := (g_sessions s)[i := (g_sessions s ! i)
                  \<lparr>controlling_pty := pty_id\<rparr>]\<rparr>))"

definition session_set_active :: "int \<Rightarrow> session_state \<Rightarrow> bool \<times> session_state" where
  "session_set_active sid s =
     (if session_find sid s = None then (False, session_bad_op s)
      else (True, s\<lparr>g_active_session_id := sid\<rparr>))"

definition session_active_id :: "session_state \<Rightarrow> int" where
  "session_active_id s = g_active_session_id s"

definition session_active_pty :: "session_state \<Rightarrow> int" where
  "session_active_pty s =
     (case session_find (g_active_session_id s) s of
        None \<Rightarrow> -1
      | Some i \<Rightarrow> controlling_pty (g_sessions s ! i))"

definition session_invalid_ops :: "session_state \<Rightarrow> u64" where
  "session_invalid_ops s = g_session_invalid_ops s"

section \<open>Specification\<close>

text \<open>
  An entry in use sits at the index its identifier names, and its controlling PTY is unset or
  open; the active session, when there is one, exists.
\<close>

definition session_inv :: "pty_state \<Rightarrow> session_state \<Rightarrow> bool" where
  "session_inv p s \<longleftrightarrow> length (g_sessions s) = SESSION_MAX \<and>
     (\<forall>i < SESSION_MAX. in_use (g_sessions s ! i) \<longrightarrow>
        session_id (g_sessions s ! i) = int i + 1 \<and>
        (controlling_pty (g_sessions s ! i) = -1 \<or>
         pty_is_valid (controlling_pty (g_sessions s ! i)) p)) \<and>
     (g_active_session_id s = -1 \<or> session_find (g_active_session_id s) s \<noteq> None)"

datatype session_op =
    SesCreate u32
  | SesSetPty int int
  | SesSetActive int
  | SesPty pty_op

fun session_step :: "session_op \<Rightarrow> pty_state \<times> session_state \<Rightarrow> pty_state \<times> session_state" where
  "session_step (SesCreate pid) (p, s) = (p, snd (session_create pid s))"
| "session_step (SesSetPty sid pty_id) (p, s) = (p, snd (session_set_controlling_pty sid pty_id p s))"
| "session_step (SesSetActive sid) (p, s) = (p, snd (session_set_active sid s))"
| "session_step (SesPty op) (p, s) = (pty_step op p, s)"

section \<open>Finding a session\<close>

lemma session_find_iff:
  assumes "session_inv p s"
  shows "session_find sid s = Some i \<longleftrightarrow>
    i < SESSION_MAX \<and> in_use (g_sessions s ! i) \<and> sid = int i + 1"
  using assms by (auto simp: session_find_def find_upt_Some session_inv_def)

lemma session_find_None:
  assumes "session_inv p s"
  shows "session_find sid s = None \<longleftrightarrow>
    (\<forall>i < SESSION_MAX. in_use (g_sessions s ! i) \<longrightarrow> sid \<noteq> int i + 1)"
  using assms by (auto simp: session_find_def find_upt_None session_inv_def)

lemma session_inv_entry:
  assumes "session_inv p s" "session_find sid s = Some i"
  shows "controlling_pty (g_sessions s ! i) = -1 \<or> pty_is_valid (controlling_pty (g_sessions s ! i)) p"
proof -
  have "i < SESSION_MAX" "in_use (g_sessions s ! i)"
    using assms(2) session_find_iff [OF assms(1)] by auto
  then show ?thesis using assms(1) by (auto simp: session_inv_def)
qed

section \<open>The invariant\<close>

lemma session_inv_init: "session_inv p (session_init s)"
  by (simp add: session_inv_def session_init_def)

lemma session_inv_bad_op [simp]: "session_inv p (session_bad_op s) \<longleftrightarrow> session_inv p s"
  by (simp add: session_inv_def session_bad_op_def session_find_def)

lemma session_find_mono:
  assumes "length (g_sessions s) = SESSION_MAX" "length (g_sessions s') = SESSION_MAX"
    and "\<And>i. i < SESSION_MAX \<Longrightarrow> in_use (g_sessions s ! i) \<Longrightarrow>
      in_use (g_sessions s' ! i) \<and> session_id (g_sessions s' ! i) = session_id (g_sessions s ! i)"
    and "session_find sid s \<noteq> None"
  shows "session_find sid s' \<noteq> None"
  using assms(3,4) by (auto simp: session_find_def find_upt_None)

lemma session_inv_create:
  assumes inv: "session_inv p s"
  shows "session_inv p (snd (session_create pid s))"
proof (cases "find (\<lambda>i. \<not> in_use (g_sessions s ! i)) [0..<SESSION_MAX]")
  case None
  then show ?thesis using inv by (simp add: session_create_def)
next
  case (Some i)
  let ?s = "snd (session_create pid s)"
  have i: "i < SESSION_MAX" "\<not> in_use (g_sessions s ! i)" using Some by (auto simp: find_upt_Some)
  have eq: "g_sessions ?s = (g_sessions s)[i := (g_sessions s ! i)
      \<lparr>in_use := True, session_id := int i + 1, leader_pid := pid, controlling_pty := -1\<rparr>]"
    "g_active_session_id ?s = g_active_session_id s"
    using Some by (simp_all add: session_create_def)
  have "session_find (g_active_session_id s) ?s \<noteq> None"
    if "session_find (g_active_session_id s) s \<noteq> None"
    using that i inv eq(1) by (intro session_find_mono [of s ?s])
      (auto simp: session_inv_def nth_list_update)
  then show ?thesis using inv i eq by (auto simp: session_inv_def nth_list_update)
qed

lemma session_inv_set_pty:
  assumes inv: "session_inv p s"
  shows "session_inv p (snd (session_set_controlling_pty sid pty_id p s))"
proof (cases "session_find sid s = None \<or> \<not> pty_is_valid pty_id p")
  case True
  then show ?thesis using inv by (auto simp: session_set_controlling_pty_def split: option.splits)
next
  case False
  then obtain i where i: "session_find sid s = Some i" and ok: "pty_is_valid pty_id p" by auto
  let ?s = "snd (session_set_controlling_pty sid pty_id p s)"
  have il: "i < SESSION_MAX" using i inv by (simp add: session_find_iff)
  have eq: "g_sessions ?s = (g_sessions s)[i := (g_sessions s ! i)\<lparr>controlling_pty := pty_id\<rparr>]"
    "g_active_session_id ?s = g_active_session_id s"
    using i ok by (simp_all add: session_set_controlling_pty_def)
  have "session_find (g_active_session_id s) ?s \<noteq> None"
    if "session_find (g_active_session_id s) s \<noteq> None"
    using that il inv eq(1) by (intro session_find_mono [of s ?s])
      (auto simp: session_inv_def nth_list_update)
  then show ?thesis using inv il ok eq by (auto simp: session_inv_def nth_list_update)
qed

lemma session_inv_set_active:
  "session_inv p s \<Longrightarrow> session_inv p (snd (session_set_active sid s))"
  by (auto simp: session_set_active_def session_inv_def session_find_def session_bad_op_def)

lemma session_inv_pty_step:
  "pty_inv p \<Longrightarrow> session_inv p s \<Longrightarrow> session_inv (pty_step op p) s"
  using pty_step_keeps_valid by (fastforce simp: session_inv_def)

interpretation session_machine:
  invariant_machine session_step "\<lambda>(p, s). pty_inv p \<and> session_inv p s"
proof unfold_locales
  fix ps :: "pty_state \<times> session_state" and op
  assume "case ps of (p, s) \<Rightarrow> pty_inv p \<and> session_inv p s"
  then show "case session_step op ps of (p, s) \<Rightarrow> pty_inv p \<and> session_inv p s"
    by (cases ps; cases op)
      (auto simp: session_inv_create session_inv_set_pty session_inv_set_active
        session_inv_pty_step pty_step_inv)
qed

lemma session_active_open:
  "session_inv p s \<Longrightarrow> session_active_pty s = -1 \<or> pty_is_valid (session_active_pty s) p"
  by (auto simp: session_active_pty_def split: option.splits dest: session_inv_entry)

section \<open>Properties\<close>

text \<open>
  C17: In every state the kernel can reach through session and PTY calls, the PTY of the active
  session is -1 (no session, or none attached) or an open PTY. Readers of the active PTY
  therefore never run on a stale identifier.
\<close>

theorem session_active_pty_valid:
  assumes "fold session_step ops (pty_init p0, session_init s0) = (p, s)"
  shows "session_active_pty s = -1 \<or> pty_is_valid (session_active_pty s) p"
proof -
  have "case fold session_step ops (pty_init p0, session_init s0) of
      (p, s) \<Rightarrow> pty_inv p \<and> session_inv p s"
    by (rule session_machine.run_inv) (simp add: pty_inv_init session_inv_init)
  with assms have "session_inv p s" by simp
  then show ?thesis by (rule session_active_open)
qed

definition pty_state0 :: pty_state where
  "pty_state0 = \<lparr>g_ptys = [], g_pty_dropped_bytes = 0, g_pty_invalid_ops = 0\<rparr>"

definition session_state0 :: session_state where
  "session_state0 = \<lparr>g_sessions = [], g_active_session_id = 0, g_session_invalid_ops = 0\<rparr>"

theorem session_active_pty_valid_witness:
  "\<exists>p s. fold session_step [SesPty OpAlloc, SesCreate 1, SesSetPty 1 0, SesSetActive 1]
      (pty_init pty_state0, session_init session_state0) = (p, s) \<and>
    (session_active_pty s = -1 \<or> pty_is_valid (session_active_pty s) p)"
  using session_active_pty_valid
    [of "[SesPty OpAlloc, SesCreate 1, SesSetPty 1 0, SesSetActive 1]" pty_state0 session_state0]
  by (metis prod.exhaust_sel)

text \<open>
  A session handed out by \<^verbatim>\<open>session_create\<close> is new: its identifier was not in use, it is
  found afterwards with the given leader and no controlling PTY, all existing sessions keep
  their entries, and failure (-1, counted) happens only with sixteen sessions in use.
\<close>

theorem session_create_fresh:
  assumes "session_inv p s" "session_create pid s = (sid, s')"
  shows "if \<forall>i < SESSION_MAX. in_use (g_sessions s ! i)
    then sid = -1 \<and> s' = session_bad_op s
    else session_find sid s = None \<and> 1 \<le> sid \<and> sid \<le> int SESSION_MAX \<and>
      (\<exists>i. session_find sid s' = Some i \<and> leader_pid (g_sessions s' ! i) = pid \<and>
         controlling_pty (g_sessions s' ! i) = -1 \<and>
         (\<forall>j. j \<noteq> i \<longrightarrow> g_sessions s' ! j = g_sessions s ! j)) \<and> session_inv p s'"
proof (cases "find (\<lambda>i. \<not> in_use (g_sessions s ! i)) [0..<SESSION_MAX]")
  case None
  then show ?thesis using assms(2) None by (simp add: session_create_def) (simp add: find_upt_None)
next
  case (Some i)
  have i: "i < SESSION_MAX" "\<not> in_use (g_sessions s ! i)" using Some by (auto simp: find_upt_Some)
  have inv: "session_inv p s'"
    using session_inv_create [OF assms(1), of pid] assms(2) by simp
  have sid: "sid = int i + 1" and s': "s' = s\<lparr>g_sessions := (g_sessions s)[i := (g_sessions s ! i)
      \<lparr>in_use := True, session_id := int i + 1, leader_pid := pid, controlling_pty := -1\<rparr>]\<rparr>"
    using Some assms(2) by (auto simp: session_create_def)
  have len: "length (g_sessions s) = SESSION_MAX" using assms(1) by (simp add: session_inv_def)
  have "session_find sid s' = Some i" using inv i sid s' len by (simp add: session_find_iff)
  moreover have "session_find sid s = None"
    using assms(1) i sid by (auto simp: session_find_None)
  ultimately show ?thesis using i sid s' len inv by (auto intro!: exI [of _ i])
qed

theorem session_create_fresh_witness:
  "\<exists>sid s'. session_create 7 (session_init session_state0) = (sid, s') \<and>
     (\<exists>i. session_find sid s' = Some i \<and> leader_pid (g_sessions s' ! i) = 7)"
proof -
  obtain sid s' where c: "session_create 7 (session_init session_state0) = (sid, s')" by fastforce
  have "\<not> (\<forall>i < SESSION_MAX. in_use (g_sessions (session_init session_state0) ! i))"
    by (auto simp: session_init_def SESSION_MAX_def intro: exI [of _ 0])
  with session_create_fresh [OF session_inv_init [of pty_state0 session_state0] c] c
  show ?thesis by auto
qed

end
