(* ===== verification/Keymap.thy ===== *)
theory Keymap
  imports Prelude
begin

unbundle bit_operations_syntax

text \<open>
  The static part of \<^verbatim>\<open>kernel/src/core/keyboard.c\<close> and \<^verbatim>\<open>kernel/include/kernel/keyboard.h\<close>: the
  key codes (a C enum, hence small integers that also index an array), the two scancode tables,
  the US layout with its modifiers, and the escape sequences of the special keys.
\<close>

section \<open>Key codes\<close>

type_synonym keycode_t = nat

abbreviation (input) KEY_NONE :: keycode_t where "KEY_NONE \<equiv> 0"
abbreviation (input) KEY_ESC :: keycode_t where "KEY_ESC \<equiv> 1"
abbreviation (input) KEY_1 :: keycode_t where "KEY_1 \<equiv> 2"
abbreviation (input) KEY_2 :: keycode_t where "KEY_2 \<equiv> 3"
abbreviation (input) KEY_3 :: keycode_t where "KEY_3 \<equiv> 4"
abbreviation (input) KEY_4 :: keycode_t where "KEY_4 \<equiv> 5"
abbreviation (input) KEY_5 :: keycode_t where "KEY_5 \<equiv> 6"
abbreviation (input) KEY_6 :: keycode_t where "KEY_6 \<equiv> 7"
abbreviation (input) KEY_7 :: keycode_t where "KEY_7 \<equiv> 8"
abbreviation (input) KEY_8 :: keycode_t where "KEY_8 \<equiv> 9"
abbreviation (input) KEY_9 :: keycode_t where "KEY_9 \<equiv> 10"
abbreviation (input) KEY_0 :: keycode_t where "KEY_0 \<equiv> 11"
abbreviation (input) KEY_MINUS :: keycode_t where "KEY_MINUS \<equiv> 12"
abbreviation (input) KEY_EQUAL :: keycode_t where "KEY_EQUAL \<equiv> 13"
abbreviation (input) KEY_BACKSPACE :: keycode_t where "KEY_BACKSPACE \<equiv> 14"
abbreviation (input) KEY_TAB :: keycode_t where "KEY_TAB \<equiv> 15"
abbreviation (input) KEY_Q :: keycode_t where "KEY_Q \<equiv> 16"
abbreviation (input) KEY_W :: keycode_t where "KEY_W \<equiv> 17"
abbreviation (input) KEY_E :: keycode_t where "KEY_E \<equiv> 18"
abbreviation (input) KEY_R :: keycode_t where "KEY_R \<equiv> 19"
abbreviation (input) KEY_T :: keycode_t where "KEY_T \<equiv> 20"
abbreviation (input) KEY_Y :: keycode_t where "KEY_Y \<equiv> 21"
abbreviation (input) KEY_U :: keycode_t where "KEY_U \<equiv> 22"
abbreviation (input) KEY_I :: keycode_t where "KEY_I \<equiv> 23"
abbreviation (input) KEY_O :: keycode_t where "KEY_O \<equiv> 24"
abbreviation (input) KEY_P :: keycode_t where "KEY_P \<equiv> 25"
abbreviation (input) KEY_LEFTBRACE :: keycode_t where "KEY_LEFTBRACE \<equiv> 26"
abbreviation (input) KEY_RIGHTBRACE :: keycode_t where "KEY_RIGHTBRACE \<equiv> 27"
abbreviation (input) KEY_ENTER :: keycode_t where "KEY_ENTER \<equiv> 28"
abbreviation (input) KEY_LEFTCTRL :: keycode_t where "KEY_LEFTCTRL \<equiv> 29"
abbreviation (input) KEY_A :: keycode_t where "KEY_A \<equiv> 30"
abbreviation (input) KEY_S :: keycode_t where "KEY_S \<equiv> 31"
abbreviation (input) KEY_D :: keycode_t where "KEY_D \<equiv> 32"
abbreviation (input) KEY_F :: keycode_t where "KEY_F \<equiv> 33"
abbreviation (input) KEY_G :: keycode_t where "KEY_G \<equiv> 34"
abbreviation (input) KEY_H :: keycode_t where "KEY_H \<equiv> 35"
abbreviation (input) KEY_J :: keycode_t where "KEY_J \<equiv> 36"
abbreviation (input) KEY_K :: keycode_t where "KEY_K \<equiv> 37"
abbreviation (input) KEY_L :: keycode_t where "KEY_L \<equiv> 38"
abbreviation (input) KEY_SEMICOLON :: keycode_t where "KEY_SEMICOLON \<equiv> 39"
abbreviation (input) KEY_APOSTROPHE :: keycode_t where "KEY_APOSTROPHE \<equiv> 40"
abbreviation (input) KEY_GRAVE :: keycode_t where "KEY_GRAVE \<equiv> 41"
abbreviation (input) KEY_LEFTSHIFT :: keycode_t where "KEY_LEFTSHIFT \<equiv> 42"
abbreviation (input) KEY_BACKSLASH :: keycode_t where "KEY_BACKSLASH \<equiv> 43"
abbreviation (input) KEY_Z :: keycode_t where "KEY_Z \<equiv> 44"
abbreviation (input) KEY_X :: keycode_t where "KEY_X \<equiv> 45"
abbreviation (input) KEY_C :: keycode_t where "KEY_C \<equiv> 46"
abbreviation (input) KEY_V :: keycode_t where "KEY_V \<equiv> 47"
abbreviation (input) KEY_B :: keycode_t where "KEY_B \<equiv> 48"
abbreviation (input) KEY_N :: keycode_t where "KEY_N \<equiv> 49"
abbreviation (input) KEY_M :: keycode_t where "KEY_M \<equiv> 50"
abbreviation (input) KEY_COMMA :: keycode_t where "KEY_COMMA \<equiv> 51"
abbreviation (input) KEY_DOT :: keycode_t where "KEY_DOT \<equiv> 52"
abbreviation (input) KEY_SLASH :: keycode_t where "KEY_SLASH \<equiv> 53"
abbreviation (input) KEY_RIGHTSHIFT :: keycode_t where "KEY_RIGHTSHIFT \<equiv> 54"
abbreviation (input) KEY_KPASTERISK :: keycode_t where "KEY_KPASTERISK \<equiv> 55"
abbreviation (input) KEY_LEFTALT :: keycode_t where "KEY_LEFTALT \<equiv> 56"
abbreviation (input) KEY_SPACE :: keycode_t where "KEY_SPACE \<equiv> 57"
abbreviation (input) KEY_CAPSLOCK :: keycode_t where "KEY_CAPSLOCK \<equiv> 58"
abbreviation (input) KEY_F1 :: keycode_t where "KEY_F1 \<equiv> 59"
abbreviation (input) KEY_F2 :: keycode_t where "KEY_F2 \<equiv> 60"
abbreviation (input) KEY_F3 :: keycode_t where "KEY_F3 \<equiv> 61"
abbreviation (input) KEY_F4 :: keycode_t where "KEY_F4 \<equiv> 62"
abbreviation (input) KEY_F5 :: keycode_t where "KEY_F5 \<equiv> 63"
abbreviation (input) KEY_F6 :: keycode_t where "KEY_F6 \<equiv> 64"
abbreviation (input) KEY_F7 :: keycode_t where "KEY_F7 \<equiv> 65"
abbreviation (input) KEY_F8 :: keycode_t where "KEY_F8 \<equiv> 66"
abbreviation (input) KEY_F9 :: keycode_t where "KEY_F9 \<equiv> 67"
abbreviation (input) KEY_F10 :: keycode_t where "KEY_F10 \<equiv> 68"
abbreviation (input) KEY_NUMLOCK :: keycode_t where "KEY_NUMLOCK \<equiv> 69"
abbreviation (input) KEY_SCROLLLOCK :: keycode_t where "KEY_SCROLLLOCK \<equiv> 70"
abbreviation (input) KEY_KP7 :: keycode_t where "KEY_KP7 \<equiv> 71"
abbreviation (input) KEY_KP8 :: keycode_t where "KEY_KP8 \<equiv> 72"
abbreviation (input) KEY_KP9 :: keycode_t where "KEY_KP9 \<equiv> 73"
abbreviation (input) KEY_KPMINUS :: keycode_t where "KEY_KPMINUS \<equiv> 74"
abbreviation (input) KEY_KP4 :: keycode_t where "KEY_KP4 \<equiv> 75"
abbreviation (input) KEY_KP5 :: keycode_t where "KEY_KP5 \<equiv> 76"
abbreviation (input) KEY_KP6 :: keycode_t where "KEY_KP6 \<equiv> 77"
abbreviation (input) KEY_KPPLUS :: keycode_t where "KEY_KPPLUS \<equiv> 78"
abbreviation (input) KEY_KP1 :: keycode_t where "KEY_KP1 \<equiv> 79"
abbreviation (input) KEY_KP2 :: keycode_t where "KEY_KP2 \<equiv> 80"
abbreviation (input) KEY_KP3 :: keycode_t where "KEY_KP3 \<equiv> 81"
abbreviation (input) KEY_KP0 :: keycode_t where "KEY_KP0 \<equiv> 82"
abbreviation (input) KEY_KPDOT :: keycode_t where "KEY_KPDOT \<equiv> 83"
abbreviation (input) KEY_F11 :: keycode_t where "KEY_F11 \<equiv> 84"
abbreviation (input) KEY_F12 :: keycode_t where "KEY_F12 \<equiv> 85"
abbreviation (input) KEY_RIGHTCTRL :: keycode_t where "KEY_RIGHTCTRL \<equiv> 86"
abbreviation (input) KEY_RIGHTALT :: keycode_t where "KEY_RIGHTALT \<equiv> 87"
abbreviation (input) KEY_HOME :: keycode_t where "KEY_HOME \<equiv> 88"
abbreviation (input) KEY_UP :: keycode_t where "KEY_UP \<equiv> 89"
abbreviation (input) KEY_PAGEUP :: keycode_t where "KEY_PAGEUP \<equiv> 90"
abbreviation (input) KEY_LEFT :: keycode_t where "KEY_LEFT \<equiv> 91"
abbreviation (input) KEY_RIGHT :: keycode_t where "KEY_RIGHT \<equiv> 92"
abbreviation (input) KEY_END :: keycode_t where "KEY_END \<equiv> 93"
abbreviation (input) KEY_DOWN :: keycode_t where "KEY_DOWN \<equiv> 94"
abbreviation (input) KEY_PAGEDOWN :: keycode_t where "KEY_PAGEDOWN \<equiv> 95"
abbreviation (input) KEY_INSERT :: keycode_t where "KEY_INSERT \<equiv> 96"
abbreviation (input) KEY_DELETE :: keycode_t where "KEY_DELETE \<equiv> 97"
abbreviation (input) KEY_LEFTMETA :: keycode_t where "KEY_LEFTMETA \<equiv> 98"
abbreviation (input) KEY_RIGHTMETA :: keycode_t where "KEY_RIGHTMETA \<equiv> 99"
abbreviation (input) KEY_KPENTER :: keycode_t where "KEY_KPENTER \<equiv> 100"
abbreviation (input) KEY_KPSLASH :: keycode_t where "KEY_KPSLASH \<equiv> 101"
abbreviation (input) KEY_MAX :: keycode_t where "KEY_MAX \<equiv> 102"

abbreviation (input) KBD_MOD_SHIFT :: u8 where "KBD_MOD_SHIFT \<equiv> 1"
abbreviation (input) KBD_MOD_CTRL :: u8 where "KBD_MOD_CTRL \<equiv> 2"
abbreviation (input) KBD_MOD_ALT :: u8 where "KBD_MOD_ALT \<equiv> 4"
abbreviation (input) KBD_MOD_ALTGR :: u8 where "KBD_MOD_ALTGR \<equiv> 8"
abbreviation (input) KBD_MOD_META :: u8 where "KBD_MOD_META \<equiv> 16"
abbreviation (input) KBD_LOCK_CAPS :: u8 where "KBD_LOCK_CAPS \<equiv> 1"
abbreviation (input) KBD_LOCK_NUM :: u8 where "KBD_LOCK_NUM \<equiv> 2"
abbreviation (input) KBD_LOCK_SCROLL :: u8 where "KBD_LOCK_SCROLL \<equiv> 4"

abbreviation (input) ch :: "char \<Rightarrow> u32" where "ch c \<equiv> of_char c"

section \<open>Scancode tables\<close>

definition scancode_to_key :: "keycode_t list" where
  "scancode_to_key = [
      KEY_NONE, KEY_ESC, KEY_1, KEY_2, KEY_3, KEY_4, KEY_5, KEY_6,
      KEY_7, KEY_8, KEY_9, KEY_0, KEY_MINUS, KEY_EQUAL, KEY_BACKSPACE, KEY_TAB,
      KEY_Q, KEY_W, KEY_E, KEY_R, KEY_T, KEY_Y, KEY_U, KEY_I,
      KEY_O, KEY_P, KEY_LEFTBRACE, KEY_RIGHTBRACE, KEY_ENTER, KEY_LEFTCTRL, KEY_A, KEY_S,
      KEY_D, KEY_F, KEY_G, KEY_H, KEY_J, KEY_K, KEY_L, KEY_SEMICOLON,
      KEY_APOSTROPHE, KEY_GRAVE, KEY_LEFTSHIFT, KEY_BACKSLASH, KEY_Z, KEY_X, KEY_C, KEY_V,
      KEY_B, KEY_N, KEY_M, KEY_COMMA, KEY_DOT, KEY_SLASH, KEY_RIGHTSHIFT, KEY_KPASTERISK,
      KEY_LEFTALT, KEY_SPACE, KEY_CAPSLOCK, KEY_F1, KEY_F2, KEY_F3, KEY_F4, KEY_F5,
      KEY_F6, KEY_F7, KEY_F8, KEY_F9, KEY_F10, KEY_NUMLOCK, KEY_SCROLLLOCK, KEY_KP7,
      KEY_KP8, KEY_KP9, KEY_KPMINUS, KEY_KP4, KEY_KP5, KEY_KP6, KEY_KPPLUS, KEY_KP1,
      KEY_KP2, KEY_KP3, KEY_KP0, KEY_KPDOT, KEY_NONE, KEY_NONE, KEY_NONE, KEY_F11,
      KEY_F12, KEY_NONE, KEY_NONE, KEY_NONE, KEY_NONE, KEY_NONE, KEY_NONE, KEY_NONE,
      KEY_NONE, KEY_NONE, KEY_NONE, KEY_NONE, KEY_NONE, KEY_NONE, KEY_NONE, KEY_NONE,
      KEY_NONE, KEY_NONE, KEY_NONE, KEY_NONE, KEY_NONE, KEY_NONE, KEY_NONE, KEY_NONE,
      KEY_NONE, KEY_NONE, KEY_NONE, KEY_NONE, KEY_NONE, KEY_NONE, KEY_NONE, KEY_NONE,
      KEY_NONE, KEY_NONE, KEY_NONE, KEY_NONE, KEY_NONE, KEY_NONE, KEY_NONE, KEY_NONE]"

definition scancode_to_key_e0 :: "keycode_t list" where
  "scancode_to_key_e0 = [
      KEY_NONE, KEY_NONE, KEY_NONE, KEY_NONE, KEY_NONE, KEY_NONE, KEY_NONE, KEY_NONE,
      KEY_NONE, KEY_NONE, KEY_NONE, KEY_NONE, KEY_NONE, KEY_NONE, KEY_NONE, KEY_NONE,
      KEY_NONE, KEY_NONE, KEY_NONE, KEY_NONE, KEY_NONE, KEY_NONE, KEY_NONE, KEY_NONE,
      KEY_NONE, KEY_NONE, KEY_NONE, KEY_NONE, KEY_KPENTER, KEY_RIGHTCTRL, KEY_NONE, KEY_NONE,
      KEY_NONE, KEY_NONE, KEY_NONE, KEY_NONE, KEY_NONE, KEY_NONE, KEY_NONE, KEY_NONE,
      KEY_NONE, KEY_NONE, KEY_NONE, KEY_NONE, KEY_NONE, KEY_NONE, KEY_NONE, KEY_NONE,
      KEY_NONE, KEY_NONE, KEY_NONE, KEY_NONE, KEY_NONE, KEY_KPSLASH, KEY_NONE, KEY_NONE,
      KEY_RIGHTALT, KEY_NONE, KEY_NONE, KEY_NONE, KEY_NONE, KEY_NONE, KEY_NONE, KEY_NONE,
      KEY_NONE, KEY_NONE, KEY_NONE, KEY_NONE, KEY_NONE, KEY_NONE, KEY_NONE, KEY_HOME,
      KEY_UP, KEY_PAGEUP, KEY_NONE, KEY_LEFT, KEY_NONE, KEY_RIGHT, KEY_NONE, KEY_END,
      KEY_DOWN, KEY_PAGEDOWN, KEY_INSERT, KEY_DELETE, KEY_NONE, KEY_NONE, KEY_NONE, KEY_NONE,
      KEY_NONE, KEY_NONE, KEY_NONE, KEY_LEFTMETA, KEY_RIGHTMETA, KEY_NONE, KEY_NONE, KEY_NONE,
      KEY_NONE, KEY_NONE, KEY_NONE, KEY_NONE, KEY_NONE, KEY_NONE, KEY_NONE, KEY_NONE,
      KEY_NONE, KEY_NONE, KEY_NONE, KEY_NONE, KEY_NONE, KEY_NONE, KEY_NONE, KEY_NONE,
      KEY_NONE, KEY_NONE, KEY_NONE, KEY_NONE, KEY_NONE, KEY_NONE, KEY_NONE, KEY_NONE,
      KEY_NONE, KEY_NONE, KEY_NONE, KEY_NONE, KEY_NONE, KEY_NONE, KEY_NONE, KEY_NONE]"

section \<open>Layout\<close>

definition kbd_apply_alpha :: "u32 \<Rightarrow> u8 \<Rightarrow> u8 \<Rightarrow> u32" where
  "kbd_apply_alpha lower mods locks =
     (let shift = (mods AND KBD_MOD_SHIFT \<noteq> 0);
          caps = (locks AND KBD_LOCK_CAPS \<noteq> 0);
          c = (if shift \<noteq> caps then lower - (ch CHR ''a'' - ch CHR ''A'') else lower)
      in if mods AND KBD_MOD_CTRL \<noteq> 0 then c AND 0x1F else c)"

definition kbd_keycode_to_unicode :: "keycode_t \<Rightarrow> u8 \<Rightarrow> u8 \<Rightarrow> u32" where
  "kbd_keycode_to_unicode k mods locks =
     (let shift = (mods AND KBD_MOD_SHIFT \<noteq> 0);
          ctrl = (mods AND KBD_MOD_CTRL \<noteq> 0);
          numlock = (locks AND KBD_LOCK_NUM \<noteq> 0)
      in
      if k = KEY_A then kbd_apply_alpha (ch CHR ''a'') mods locks
      else if k = KEY_B then kbd_apply_alpha (ch CHR ''b'') mods locks
      else if k = KEY_C then kbd_apply_alpha (ch CHR ''c'') mods locks
      else if k = KEY_D then kbd_apply_alpha (ch CHR ''d'') mods locks
      else if k = KEY_E then kbd_apply_alpha (ch CHR ''e'') mods locks
      else if k = KEY_F then kbd_apply_alpha (ch CHR ''f'') mods locks
      else if k = KEY_G then kbd_apply_alpha (ch CHR ''g'') mods locks
      else if k = KEY_H then kbd_apply_alpha (ch CHR ''h'') mods locks
      else if k = KEY_I then kbd_apply_alpha (ch CHR ''i'') mods locks
      else if k = KEY_J then kbd_apply_alpha (ch CHR ''j'') mods locks
      else if k = KEY_K then kbd_apply_alpha (ch CHR ''k'') mods locks
      else if k = KEY_L then kbd_apply_alpha (ch CHR ''l'') mods locks
      else if k = KEY_M then kbd_apply_alpha (ch CHR ''m'') mods locks
      else if k = KEY_N then kbd_apply_alpha (ch CHR ''n'') mods locks
      else if k = KEY_O then kbd_apply_alpha (ch CHR ''o'') mods locks
      else if k = KEY_P then kbd_apply_alpha (ch CHR ''p'') mods locks
      else if k = KEY_Q then kbd_apply_alpha (ch CHR ''q'') mods locks
      else if k = KEY_R then kbd_apply_alpha (ch CHR ''r'') mods locks
      else if k = KEY_S then kbd_apply_alpha (ch CHR ''s'') mods locks
      else if k = KEY_T then kbd_apply_alpha (ch CHR ''t'') mods locks
      else if k = KEY_U then kbd_apply_alpha (ch CHR ''u'') mods locks
      else if k = KEY_V then kbd_apply_alpha (ch CHR ''v'') mods locks
      else if k = KEY_W then kbd_apply_alpha (ch CHR ''w'') mods locks
      else if k = KEY_X then kbd_apply_alpha (ch CHR ''x'') mods locks
      else if k = KEY_Y then kbd_apply_alpha (ch CHR ''y'') mods locks
      else if k = KEY_Z then kbd_apply_alpha (ch CHR ''z'') mods locks
      else if k = KEY_1 then (if shift then ch CHR ''!'' else ch CHR ''1'')
      else if k = KEY_2 then (if ctrl then 0 else (if shift then ch CHR ''@'' else ch CHR ''2''))
      else if k = KEY_3 then (if shift then ch CHR ''#'' else ch CHR ''3'')
      else if k = KEY_4 then (if shift then ch CHR ''$'' else ch CHR ''4'')
      else if k = KEY_5 then (if shift then ch CHR ''%'' else ch CHR ''5'')
      else if k = KEY_6 then (if ctrl then 0x1E else (if shift then ch CHR ''^'' else ch CHR ''6''))
      else if k = KEY_7 then (if shift then ch CHR ''&'' else ch CHR ''7'')
      else if k = KEY_8 then (if shift then ch CHR ''*'' else ch CHR ''8'')
      else if k = KEY_9 then (if shift then ch CHR ''('' else ch CHR ''9'')
      else if k = KEY_0 then (if shift then ch CHR '')'' else ch CHR ''0'')
      else if k = KEY_MINUS then (if ctrl then 0x1F else (if shift then ch CHR ''_'' else ch CHR ''-''))
      else if k = KEY_EQUAL then (if shift then ch CHR ''+'' else ch CHR ''='')
      else if k = KEY_LEFTBRACE then (if ctrl then 0x1B else (if shift then ch CHR ''{'' else ch CHR ''[''))
      else if k = KEY_RIGHTBRACE then (if ctrl then 0x1D else (if shift then ch CHR ''}'' else ch CHR '']''))
      else if k = KEY_BACKSLASH then (if ctrl then 0x1C else (if shift then ch CHR ''|'' else 0x5C))
      else if k = KEY_SEMICOLON then (if shift then ch CHR '':'' else ch CHR '';'')
      else if k = KEY_APOSTROPHE then (if shift then 0x22 else 0x27)
      else if k = KEY_GRAVE then (if shift then ch CHR ''~'' else 0x60)
      else if k = KEY_COMMA then (if shift then ch CHR ''<'' else ch CHR '','')
      else if k = KEY_DOT then (if shift then ch CHR ''>'' else ch CHR ''.'')
      else if k = KEY_SLASH then (if shift then ch CHR ''?'' else ch CHR ''/'')
      else if k = KEY_SPACE then ch CHR '' ''
      else if k = KEY_TAB then 0x09
      else if k = KEY_ENTER \<or> k = KEY_KPENTER then 0x0A
      else if k = KEY_BACKSPACE then 0x08
      else if k = KEY_ESC then 0x1B
      else if k = KEY_KP0 then (if numlock then ch CHR ''0'' else 0)
      else if k = KEY_KP1 then (if numlock then ch CHR ''1'' else 0)
      else if k = KEY_KP2 then (if numlock then ch CHR ''2'' else 0)
      else if k = KEY_KP3 then (if numlock then ch CHR ''3'' else 0)
      else if k = KEY_KP4 then (if numlock then ch CHR ''4'' else 0)
      else if k = KEY_KP5 then (if numlock then ch CHR ''5'' else 0)
      else if k = KEY_KP6 then (if numlock then ch CHR ''6'' else 0)
      else if k = KEY_KP7 then (if numlock then ch CHR ''7'' else 0)
      else if k = KEY_KP8 then (if numlock then ch CHR ''8'' else 0)
      else if k = KEY_KP9 then (if numlock then ch CHR ''9'' else 0)
      else if k = KEY_KPDOT then (if numlock then ch CHR ''.'' else 0)
      else if k = KEY_KPMINUS then ch CHR ''-''
      else if k = KEY_KPPLUS then ch CHR ''+''
      else if k = KEY_KPASTERISK then ch CHR ''*''
      else if k = KEY_KPSLASH then ch CHR ''/''
      else 0)"

definition kbd_special_sequence :: "keycode_t \<Rightarrow> u8 list" where
  "kbd_special_sequence k =
     (if k = KEY_UP then 0x1B # bytes ''[A''
      else if k = KEY_DOWN then 0x1B # bytes ''[B''
      else if k = KEY_RIGHT then 0x1B # bytes ''[C''
      else if k = KEY_LEFT then 0x1B # bytes ''[D''
      else if k = KEY_HOME then 0x1B # bytes ''[H''
      else if k = KEY_END then 0x1B # bytes ''[F''
      else if k = KEY_INSERT then 0x1B # bytes ''[2~''
      else if k = KEY_DELETE then 0x1B # bytes ''[3~''
      else if k = KEY_PAGEUP then 0x1B # bytes ''[5~''
      else if k = KEY_PAGEDOWN then 0x1B # bytes ''[6~''
      else if k = KEY_F1 then 0x1B # bytes ''OP''
      else if k = KEY_F2 then 0x1B # bytes ''OQ''
      else if k = KEY_F3 then 0x1B # bytes ''OR''
      else if k = KEY_F4 then 0x1B # bytes ''OS''
      else if k = KEY_F5 then 0x1B # bytes ''[15~''
      else if k = KEY_F6 then 0x1B # bytes ''[17~''
      else if k = KEY_F7 then 0x1B # bytes ''[18~''
      else if k = KEY_F8 then 0x1B # bytes ''[19~''
      else if k = KEY_F9 then 0x1B # bytes ''[20~''
      else if k = KEY_F10 then 0x1B # bytes ''[21~''
      else if k = KEY_F11 then 0x1B # bytes ''[23~''
      else if k = KEY_F12 then 0x1B # bytes ''[24~''
      else [])"

section \<open>Facts about the tables\<close>

lemma scancode_tables_length: "length scancode_to_key = 128" "length scancode_to_key_e0 = 128"
  by (simp_all add: scancode_to_key_def scancode_to_key_e0_def)

lemma scancode_tables_bound:
  "\<forall>k \<in> set scancode_to_key. k < KEY_MAX" "\<forall>k \<in> set scancode_to_key_e0. k < KEY_MAX"
  by (simp_all add: scancode_to_key_def scancode_to_key_e0_def)

text \<open>Every byte a layout entry produces is ASCII, and no special sequence holds a NUL.\<close>

lemma unicode_ascii_letter:
  assumes "lower \<in> ch ` set ''abcdefghijklmnopqrstuvwxyz''"
  shows "kbd_apply_alpha lower mods locks < 0x80"
  using assms by (auto simp: kbd_apply_alpha_def Let_def)

lemma kbd_special_sequence_no_nul: "0 \<notin> set (kbd_special_sequence k)"
  by (simp add: kbd_special_sequence_def bytes_def)

end
