(* ===== verification/Keyboard.thy ===== *)
theory Keyboard
  imports Keymap Ring
begin

unbundle bit_operations_syntax

text \<open>
  The interrupt half of \<^verbatim>\<open>kernel/src/core/keyboard.c\<close>: scancode decoding with the \<^verbatim>\<open>0xE0\<close> and
  \<^verbatim>\<open>0xE1\<close> prefixes, modifier and lock tracking, the event queue and the byte queue. The byte read
  from port \<^verbatim>\<open>0x60\<close> is the argument of the interrupt handler. The queue indices are
  \<^verbatim>\<open>unsigned int\<close>; both ring sizes divide \<open>2 ^ 32\<close>, so their successors on natural numbers are the
  C values.
\<close>

section \<open>State\<close>

definition KBD_BYTE_QUEUE_SIZE :: nat where
  "KBD_BYTE_QUEUE_SIZE = 1024"

definition KBD_EVENT_QUEUE_SIZE :: nat where
  "KBD_EVENT_QUEUE_SIZE = 256"

record key_event =
  ev_keycode :: keycode_t
  ev_unicode :: u32
  ev_modifiers :: u8
  ev_locks :: u8
  ev_pressed :: bool
  ev_repeat :: bool

record keyboard_state =
  kbd_byte_queue :: "u8 list"
  kbd_byte_head :: nat
  kbd_byte_tail :: nat
  kbd_event_queue :: "key_event list"
  kbd_event_head :: nat
  kbd_event_tail :: nat
  kbd_extended :: bool
  kbd_e1_skip :: nat
  kbd_modifiers :: u8
  kbd_locks :: u8
  kbd_key_down :: "bool list"
  kbd_rx_scancode_count :: u64
  kbd_drop_byte_count :: u64
  kbd_drop_event_count :: u64

section \<open>Operations\<close>

definition kbd_push_byte :: "u8 \<Rightarrow> keyboard_state \<Rightarrow> keyboard_state" where
  "kbd_push_byte b s =
     (let nxt = (kbd_byte_head s + 1) mod KBD_BYTE_QUEUE_SIZE
      in if nxt = kbd_byte_tail s
         then s\<lparr>kbd_drop_byte_count := kbd_drop_byte_count s + 1\<rparr>
         else s\<lparr>kbd_byte_queue := (kbd_byte_queue s)[kbd_byte_head s := b], kbd_byte_head := nxt\<rparr>)"

definition kbd_push_event :: "key_event \<Rightarrow> keyboard_state \<Rightarrow> keyboard_state" where
  "kbd_push_event e s =
     (let nxt = (kbd_event_head s + 1) mod KBD_EVENT_QUEUE_SIZE
      in if nxt = kbd_event_tail s
         then s\<lparr>kbd_drop_event_count := kbd_drop_event_count s + 1\<rparr>
         else s\<lparr>kbd_event_queue := (kbd_event_queue s)[kbd_event_head s := e],
                kbd_event_head := nxt\<rparr>)"

definition kbd_emit_utf8 :: "u32 \<Rightarrow> keyboard_state \<Rightarrow> keyboard_state" where
  "kbd_emit_utf8 cp s =
     (if cp \<le> 0x7F then kbd_push_byte (ucast cp) s
      else if cp \<le> 0x7FF then
        kbd_push_byte (ucast (0x80 OR (cp AND 0x3F)))
          (kbd_push_byte (ucast (0xC0 OR drop_bit 6 cp)) s)
      else if cp \<le> 0xFFFF then
        if cp \<ge> 0xD800 \<and> cp \<le> 0xDFFF then s
        else
          kbd_push_byte (ucast (0x80 OR (cp AND 0x3F)))
            (kbd_push_byte (ucast (0x80 OR (drop_bit 6 cp AND 0x3F)))
              (kbd_push_byte (ucast (0xE0 OR drop_bit 12 cp)) s))
      else if cp \<le> 0x10FFFF then
        kbd_push_byte (ucast (0x80 OR (cp AND 0x3F)))
          (kbd_push_byte (ucast (0x80 OR (drop_bit 6 cp AND 0x3F)))
            (kbd_push_byte (ucast (0x80 OR (drop_bit 12 cp AND 0x3F)))
              (kbd_push_byte (ucast (0xF0 OR drop_bit 18 cp)) s)))
      else s)"

definition kbd_emit_sequence :: "u8 list \<Rightarrow> keyboard_state \<Rightarrow> keyboard_state" where
  "kbd_emit_sequence str s = fold kbd_push_byte (c_str str) s"

definition kbd_set_modifier_bit :: "u8 \<Rightarrow> bool \<Rightarrow> keyboard_state \<Rightarrow> keyboard_state" where
  "kbd_set_modifier_bit b pressed s =
     s\<lparr>kbd_modifiers := (if pressed then kbd_modifiers s OR b else kbd_modifiers s AND NOT b)\<rparr>"

definition kbd_update_state :: "keycode_t \<Rightarrow> bool \<Rightarrow> keyboard_state \<Rightarrow> keyboard_state" where
  "kbd_update_state k pressed s =
     (if k = KEY_LEFTSHIFT \<or> k = KEY_RIGHTSHIFT then kbd_set_modifier_bit KBD_MOD_SHIFT pressed s
      else if k = KEY_LEFTCTRL \<or> k = KEY_RIGHTCTRL then kbd_set_modifier_bit KBD_MOD_CTRL pressed s
      else if k = KEY_LEFTALT then kbd_set_modifier_bit KBD_MOD_ALT pressed s
      else if k = KEY_RIGHTALT then kbd_set_modifier_bit KBD_MOD_ALTGR pressed s
      else if k = KEY_LEFTMETA \<or> k = KEY_RIGHTMETA then kbd_set_modifier_bit KBD_MOD_META pressed s
      else if k = KEY_CAPSLOCK then
        (if pressed then s\<lparr>kbd_locks := kbd_locks s XOR KBD_LOCK_CAPS\<rparr> else s)
      else if k = KEY_NUMLOCK then
        (if pressed then s\<lparr>kbd_locks := kbd_locks s XOR KBD_LOCK_NUM\<rparr> else s)
      else if k = KEY_SCROLLLOCK then
        (if pressed then s\<lparr>kbd_locks := kbd_locks s XOR KBD_LOCK_SCROLL\<rparr> else s)
      else s)"

definition kbd_emit_special_sequence :: "keycode_t \<Rightarrow> keyboard_state \<Rightarrow> keyboard_state" where
  "kbd_emit_special_sequence k s = kbd_emit_sequence (kbd_special_sequence k) s"

definition kbd_emit_input_bytes :: "key_event \<Rightarrow> keyboard_state \<Rightarrow> keyboard_state" where
  "kbd_emit_input_bytes e s =
     (if \<not> ev_pressed e then s
      else if ev_unicode e \<noteq> 0 then
        kbd_emit_utf8 (ev_unicode e)
          (if ev_modifiers e AND (KBD_MOD_ALT OR KBD_MOD_ALTGR) \<noteq> 0 then kbd_push_byte 0x1B s else s)
      else kbd_emit_special_sequence (ev_keycode e) s)"

definition keyboard_init :: "keyboard_state \<Rightarrow> keyboard_state" where
  "keyboard_init s = s\<lparr>kbd_byte_head := 0, kbd_byte_tail := 0, kbd_event_head := 0,
     kbd_event_tail := 0, kbd_extended := False, kbd_e1_skip := 0, kbd_modifiers := 0,
     kbd_locks := 0, kbd_rx_scancode_count := 0, kbd_drop_byte_count := 0,
     kbd_drop_event_count := 0, kbd_key_down := replicate KEY_MAX False\<rparr>"

text \<open>
  The decoded half of the interrupt handler: a key code that is in range and not \<open>KEY_NONE\<close>,
  with the release flag of the scancode.
\<close>

definition keyboard_key :: "keycode_t \<Rightarrow> bool \<Rightarrow> keyboard_state \<Rightarrow> keyboard_state" where
  "keyboard_key k released s =
     (let rep = (if \<not> released then kbd_key_down s ! k else False);
          s1 = s\<lparr>kbd_key_down := (kbd_key_down s)[k := \<not> released]\<rparr>;
          s2 = kbd_update_state k (\<not> released) s1;
          e = \<lparr>ev_keycode = k,
               ev_unicode = (if \<not> released
                 then kbd_keycode_to_unicode k (kbd_modifiers s2) (kbd_locks s2) else 0),
               ev_modifiers = kbd_modifiers s2, ev_locks = kbd_locks s2,
               ev_pressed = (\<not> released), ev_repeat = rep\<rparr>
      in kbd_emit_input_bytes e (kbd_push_event e s2))"

definition keyboard_on_irq :: "u8 \<Rightarrow> keyboard_state \<Rightarrow> keyboard_state" where
  "keyboard_on_irq scancode s0 =
     (let s = s0\<lparr>kbd_rx_scancode_count := kbd_rx_scancode_count s0 + 1\<rparr>
      in if scancode = 0xE0 then s\<lparr>kbd_extended := True\<rparr>
         else if scancode = 0xE1 then s\<lparr>kbd_e1_skip := 5\<rparr>
         else if kbd_e1_skip s > 0 then s\<lparr>kbd_e1_skip := kbd_e1_skip s - 1\<rparr>
         else
           let released = (scancode AND 0x80 \<noteq> 0);
               code = scancode AND 0x7F;
               keycode = (if kbd_extended s then scancode_to_key_e0 ! unat code
                          else scancode_to_key ! unat code);
               s1 = s\<lparr>kbd_extended := False\<rparr>
           in if keycode = KEY_NONE \<or> keycode \<ge> KEY_MAX then s1
              else keyboard_key keycode released s1)"

definition keyboard_pop_char :: "keyboard_state \<Rightarrow> (u8 \<times> keyboard_state) option" where
  "keyboard_pop_char s =
     (if kbd_byte_tail s = kbd_byte_head s then None
      else Some (kbd_byte_queue s ! kbd_byte_tail s,
                 s\<lparr>kbd_byte_tail := (kbd_byte_tail s + 1) mod KBD_BYTE_QUEUE_SIZE\<rparr>))"

definition keyboard_pop_event :: "keyboard_state \<Rightarrow> (key_event \<times> keyboard_state) option" where
  "keyboard_pop_event s =
     (if kbd_event_tail s = kbd_event_head s then None
      else Some (kbd_event_queue s ! kbd_event_tail s,
                 s\<lparr>kbd_event_tail := (kbd_event_tail s + 1) mod KBD_EVENT_QUEUE_SIZE\<rparr>))"

definition keyboard_modifiers :: "keyboard_state \<Rightarrow> u8" where
  "keyboard_modifiers s = kbd_modifiers s"

definition keyboard_locks :: "keyboard_state \<Rightarrow> u8" where
  "keyboard_locks s = kbd_locks s"

definition keyboard_rx_scancodes :: "keyboard_state \<Rightarrow> u64" where
  "keyboard_rx_scancodes s = kbd_rx_scancode_count s"

definition keyboard_dropped_bytes :: "keyboard_state \<Rightarrow> u64" where
  "keyboard_dropped_bytes s = kbd_drop_byte_count s"

definition keyboard_dropped_events :: "keyboard_state \<Rightarrow> u64" where
  "keyboard_dropped_events s = kbd_drop_event_count s"

section \<open>Specification\<close>

definition kbd_bytes :: "keyboard_state \<Rightarrow> u8 list" where
  "kbd_bytes s = ring_list KBD_BYTE_QUEUE_SIZE (kbd_byte_queue s) (kbd_byte_head s) (kbd_byte_tail s)"

definition kbd_events :: "keyboard_state \<Rightarrow> key_event list" where
  "kbd_events s =
     ring_list KBD_EVENT_QUEUE_SIZE (kbd_event_queue s) (kbd_event_head s) (kbd_event_tail s)"

definition KBD_BYTE_CAP :: nat where
  "KBD_BYTE_CAP = KBD_BYTE_QUEUE_SIZE - 1"

definition KBD_EVENT_CAP :: nat where
  "KBD_EVENT_CAP = KBD_EVENT_QUEUE_SIZE - 1"

definition kbd_inv :: "keyboard_state \<Rightarrow> bool" where
  "kbd_inv s \<longleftrightarrow>
     ring_wf KBD_BYTE_QUEUE_SIZE (kbd_byte_queue s) (kbd_byte_head s) (kbd_byte_tail s) \<and>
     ring_wf KBD_EVENT_QUEUE_SIZE (kbd_event_queue s) (kbd_event_head s) (kbd_event_tail s) \<and>
     length (kbd_key_down s) = KEY_MAX \<and> kbd_e1_skip s \<le> 5 \<and>
     kbd_modifiers s < 32 \<and> kbd_locks s < 8"

text \<open>The UTF-8 encoding of a scalar value, the reference for \<^verbatim>\<open>kbd_emit_utf8\<close>.\<close>

definition utf8_encode :: "u32 \<Rightarrow> u8 list" where
  "utf8_encode cp =
     (if cp \<le> 0x7F then [ucast cp]
      else if cp \<le> 0x7FF then [ucast (0xC0 OR drop_bit 6 cp), ucast (0x80 OR (cp AND 0x3F))]
      else if cp \<le> 0xFFFF then
        if cp \<ge> 0xD800 \<and> cp \<le> 0xDFFF then []
        else [ucast (0xE0 OR drop_bit 12 cp), ucast (0x80 OR (drop_bit 6 cp AND 0x3F)),
              ucast (0x80 OR (cp AND 0x3F))]
      else if cp \<le> 0x10FFFF then
        [ucast (0xF0 OR drop_bit 18 cp), ucast (0x80 OR (drop_bit 12 cp AND 0x3F)),
         ucast (0x80 OR (drop_bit 6 cp AND 0x3F)), ucast (0x80 OR (cp AND 0x3F))]
      else [])"

text \<open>The bytes a key event puts on the byte queue.\<close>

definition event_bytes :: "key_event \<Rightarrow> u8 list" where
  "event_bytes e =
     (if \<not> ev_pressed e then []
      else if ev_unicode e \<noteq> 0 then
        (if ev_modifiers e AND (KBD_MOD_ALT OR KBD_MOD_ALTGR) \<noteq> 0 then [0x1B] else []) @
        utf8_encode (ev_unicode e)
      else kbd_special_sequence (ev_keycode e))"

text \<open>The state after a key's own effect on the tables, and the event it then reports.\<close>

definition kbd_after :: "keycode_t \<Rightarrow> bool \<Rightarrow> keyboard_state \<Rightarrow> keyboard_state" where
  "kbd_after k released s =
     kbd_update_state k (\<not> released) (s\<lparr>kbd_key_down := (kbd_key_down s)[k := \<not> released]\<rparr>)"

definition key_event_of :: "keycode_t \<Rightarrow> bool \<Rightarrow> keyboard_state \<Rightarrow> key_event" where
  "key_event_of k released s = \<lparr>ev_keycode = k,
     ev_unicode = (if released then 0
       else kbd_keycode_to_unicode k (kbd_modifiers (kbd_after k released s)) (kbd_locks (kbd_after k released s))),
     ev_modifiers = kbd_modifiers (kbd_after k released s),
     ev_locks = kbd_locks (kbd_after k released s),
     ev_pressed = (\<not> released), ev_repeat = (\<not> released \<and> kbd_key_down s ! k)\<rparr>"

datatype keyboard_op = KbdIrq u8 | KbdPopChar | KbdPopEvent

fun keyboard_step :: "keyboard_op \<Rightarrow> keyboard_state \<Rightarrow> keyboard_state" where
  "keyboard_step (KbdIrq sc) s = keyboard_on_irq sc s"
| "keyboard_step KbdPopChar s = (case keyboard_pop_char s of None \<Rightarrow> s | Some (_, s') \<Rightarrow> s')"
| "keyboard_step KbdPopEvent s = (case keyboard_pop_event s of None \<Rightarrow> s | Some (_, s') \<Rightarrow> s')"

section \<open>The queues\<close>

lemma kbd_queue_sizes [simp]: "0 < KBD_BYTE_QUEUE_SIZE" "0 < KBD_EVENT_QUEUE_SIZE"
  by (simp_all add: KBD_BYTE_QUEUE_SIZE_def KBD_EVENT_QUEUE_SIZE_def)

lemma kbd_push_byte_spec:
  assumes "kbd_inv s"
  shows "kbd_inv (kbd_push_byte b s) \<and>
    kbd_bytes (kbd_push_byte b s) = take KBD_BYTE_CAP (kbd_bytes s @ [b]) \<and>
    kbd_drop_byte_count (kbd_push_byte b s) =
      kbd_drop_byte_count s + (if length (kbd_bytes s) < KBD_BYTE_CAP then 0 else 1)"
proof -
  have wf: "ring_wf KBD_BYTE_QUEUE_SIZE (kbd_byte_queue s) (kbd_byte_head s) (kbd_byte_tail s)"
    using assms by (simp add: kbd_inv_def)
  have le: "length (kbd_bytes s) \<le> KBD_BYTE_CAP"
    using ring_list_length_le [OF wf] by (simp add: kbd_bytes_def KBD_BYTE_CAP_def)
  have full: "Suc (kbd_byte_head s) mod KBD_BYTE_QUEUE_SIZE = kbd_byte_tail s \<longleftrightarrow>
      length (kbd_bytes s) = KBD_BYTE_CAP"
    using ring_full_iff [OF wf] by (simp add: kbd_bytes_def KBD_BYTE_CAP_def)
  show ?thesis
  proof (cases "length (kbd_bytes s) = KBD_BYTE_CAP")
    case True
    then show ?thesis using assms full by (simp add: kbd_push_byte_def kbd_inv_def kbd_bytes_def)
  next
    case False
    then have ne: "Suc (kbd_byte_head s) mod KBD_BYTE_QUEUE_SIZE \<noteq> kbd_byte_tail s"
      using full by simp
    have "kbd_bytes (kbd_push_byte b s) = kbd_bytes s @ [b]"
      using ring_list_push [OF wf ne, of b] ne by (simp add: kbd_push_byte_def kbd_bytes_def)
    moreover have "kbd_inv (kbd_push_byte b s)"
      using ring_wf_push [OF wf, of b] ne assms by (simp add: kbd_push_byte_def kbd_inv_def)
    ultimately show ?thesis using False le ne by (simp add: kbd_push_byte_def)
  qed
qed

lemma kbd_push_event_spec:
  assumes "kbd_inv s"
  shows "kbd_inv (kbd_push_event e s) \<and>
    kbd_events (kbd_push_event e s) = take KBD_EVENT_CAP (kbd_events s @ [e]) \<and>
    kbd_drop_event_count (kbd_push_event e s) =
      kbd_drop_event_count s + (if length (kbd_events s) < KBD_EVENT_CAP then 0 else 1)"
proof -
  have wf: "ring_wf KBD_EVENT_QUEUE_SIZE (kbd_event_queue s) (kbd_event_head s) (kbd_event_tail s)"
    using assms by (simp add: kbd_inv_def)
  have le: "length (kbd_events s) \<le> KBD_EVENT_CAP"
    using ring_list_length_le [OF wf] by (simp add: kbd_events_def KBD_EVENT_CAP_def)
  have full: "Suc (kbd_event_head s) mod KBD_EVENT_QUEUE_SIZE = kbd_event_tail s \<longleftrightarrow>
      length (kbd_events s) = KBD_EVENT_CAP"
    using ring_full_iff [OF wf] by (simp add: kbd_events_def KBD_EVENT_CAP_def)
  show ?thesis
  proof (cases "length (kbd_events s) = KBD_EVENT_CAP")
    case True
    then show ?thesis using assms full by (simp add: kbd_push_event_def kbd_inv_def kbd_events_def)
  next
    case False
    then have ne: "Suc (kbd_event_head s) mod KBD_EVENT_QUEUE_SIZE \<noteq> kbd_event_tail s"
      using full by simp
    have "kbd_events (kbd_push_event e s) = kbd_events s @ [e]"
      using ring_list_push [OF wf ne, of e] ne by (simp add: kbd_push_event_def kbd_events_def)
    moreover have "kbd_inv (kbd_push_event e s)"
      using ring_wf_push [OF wf, of e] ne assms by (simp add: kbd_push_event_def kbd_inv_def)
    ultimately show ?thesis using False le ne by (simp add: kbd_push_event_def)
  qed
qed

lemma kbd_bytes_le_cap: "kbd_inv s \<Longrightarrow> length (kbd_bytes s) \<le> KBD_BYTE_CAP"
  using ring_list_length_le
  by (fastforce simp: kbd_inv_def kbd_bytes_def KBD_BYTE_CAP_def simp del: length_ring_list)

lemma kbd_events_le_cap: "kbd_inv s \<Longrightarrow> length (kbd_events s) \<le> KBD_EVENT_CAP"
  using ring_list_length_le
  by (fastforce simp: kbd_inv_def kbd_events_def KBD_EVENT_CAP_def simp del: length_ring_list)

lemma keyboard_pop_char_spec:
  assumes "kbd_inv s"
  shows "keyboard_pop_char s = None \<longleftrightarrow> kbd_bytes s = []"
    and "keyboard_pop_char s = Some (b, s') \<Longrightarrow> kbd_bytes s = b # kbd_bytes s' \<and> kbd_inv s'"
  using assms ring_list_empty_iff
    [of KBD_BYTE_QUEUE_SIZE "kbd_byte_queue s" "kbd_byte_head s" "kbd_byte_tail s"]
    ring_list_pop [of KBD_BYTE_QUEUE_SIZE "kbd_byte_queue s" "kbd_byte_head s" "kbd_byte_tail s"]
  by (auto simp: keyboard_pop_char_def kbd_inv_def kbd_bytes_def ring_wf_pop split: if_splits)

lemma keyboard_pop_event_spec:
  assumes "kbd_inv s"
  shows "keyboard_pop_event s = None \<longleftrightarrow> kbd_events s = []"
    and "keyboard_pop_event s = Some (e, s') \<Longrightarrow> kbd_events s = e # kbd_events s' \<and> kbd_inv s'"
  using assms ring_list_empty_iff
    [of KBD_EVENT_QUEUE_SIZE "kbd_event_queue s" "kbd_event_head s" "kbd_event_tail s"]
    ring_list_pop [of KBD_EVENT_QUEUE_SIZE "kbd_event_queue s" "kbd_event_head s" "kbd_event_tail s"]
  by (auto simp: keyboard_pop_event_def kbd_inv_def kbd_events_def ring_wf_pop split: if_splits)

interpretation kbd_byte_fifo: counting_fifo kbd_inv kbd_bytes KBD_BYTE_CAP kbd_push_byte
    keyboard_pop_char kbd_drop_byte_count
proof (unfold_locales, goal_cases)
  case (6 s x xs)
  then show ?case
    using keyboard_pop_char_spec [OF 6(1)] by (cases "keyboard_pop_char s") auto
qed (auto simp: kbd_push_byte_spec kbd_bytes_le_cap keyboard_pop_char_spec)

interpretation kbd_event_fifo: counting_fifo kbd_inv kbd_events KBD_EVENT_CAP kbd_push_event
    keyboard_pop_event kbd_drop_event_count
proof (unfold_locales, goal_cases)
  case (6 s x xs)
  then show ?case
    using keyboard_pop_event_spec [OF 6(1)] by (cases "keyboard_pop_event s") auto
qed (auto simp: kbd_push_event_spec kbd_events_le_cap keyboard_pop_event_spec)

section \<open>Emission is a sequence of pushes\<close>

lemma kbd_push_byte_frame [simp]:
  "kbd_events (kbd_push_byte b s) = kbd_events s"
  "kbd_extended (kbd_push_byte b s) = kbd_extended s"
  "kbd_e1_skip (kbd_push_byte b s) = kbd_e1_skip s"
  "kbd_modifiers (kbd_push_byte b s) = kbd_modifiers s"
  "kbd_locks (kbd_push_byte b s) = kbd_locks s"
  "kbd_key_down (kbd_push_byte b s) = kbd_key_down s"
  "kbd_rx_scancode_count (kbd_push_byte b s) = kbd_rx_scancode_count s"
  "kbd_drop_event_count (kbd_push_byte b s) = kbd_drop_event_count s"
  by (simp_all add: kbd_push_byte_def kbd_events_def Let_def)

lemma kbd_push_bytes_frame [simp]:
  "kbd_events (fold kbd_push_byte bs s) = kbd_events s"
  "kbd_extended (fold kbd_push_byte bs s) = kbd_extended s"
  "kbd_e1_skip (fold kbd_push_byte bs s) = kbd_e1_skip s"
  "kbd_modifiers (fold kbd_push_byte bs s) = kbd_modifiers s"
  "kbd_locks (fold kbd_push_byte bs s) = kbd_locks s"
  "kbd_key_down (fold kbd_push_byte bs s) = kbd_key_down s"
  "kbd_rx_scancode_count (fold kbd_push_byte bs s) = kbd_rx_scancode_count s"
  "kbd_drop_event_count (fold kbd_push_byte bs s) = kbd_drop_event_count s"
  by (induction bs arbitrary: s) simp_all

lemma kbd_push_event_frame [simp]:
  "kbd_bytes (kbd_push_event e s) = kbd_bytes s"
  "kbd_extended (kbd_push_event e s) = kbd_extended s"
  "kbd_e1_skip (kbd_push_event e s) = kbd_e1_skip s"
  "kbd_modifiers (kbd_push_event e s) = kbd_modifiers s"
  "kbd_locks (kbd_push_event e s) = kbd_locks s"
  "kbd_key_down (kbd_push_event e s) = kbd_key_down s"
  "kbd_rx_scancode_count (kbd_push_event e s) = kbd_rx_scancode_count s"
  by (simp_all add: kbd_push_event_def kbd_bytes_def Let_def)

lemma kbd_emit_utf8_pushes: "kbd_emit_utf8 cp s = fold kbd_push_byte (utf8_encode cp) s"
  by (simp add: kbd_emit_utf8_def utf8_encode_def)

lemma kbd_emit_input_bytes_pushes:
  "kbd_emit_input_bytes e s = fold kbd_push_byte (event_bytes e) s"
  by (simp add: kbd_emit_input_bytes_def event_bytes_def kbd_emit_utf8_pushes
      kbd_emit_special_sequence_def kbd_emit_sequence_def c_str_no_nul kbd_special_sequence_no_nul)

section \<open>Modifier and lock state\<close>

lemma kbd_update_state_frame [simp]:
  "kbd_bytes (kbd_update_state k p s) = kbd_bytes s"
  "kbd_events (kbd_update_state k p s) = kbd_events s"
  "kbd_extended (kbd_update_state k p s) = kbd_extended s"
  "kbd_e1_skip (kbd_update_state k p s) = kbd_e1_skip s"
  "kbd_key_down (kbd_update_state k p s) = kbd_key_down s"
  "kbd_rx_scancode_count (kbd_update_state k p s) = kbd_rx_scancode_count s"
  by (simp_all add: kbd_update_state_def kbd_set_modifier_bit_def kbd_bytes_def kbd_events_def)

lemma kbd_modifier_or_bound:
  "(m :: u8) < 32 \<Longrightarrow> b < 32 \<Longrightarrow> m OR b < 32"
  using word_or_less_2p [of 5 m b] by simp

lemma kbd_lock_xor_bound:
  "(m :: u8) < 8 \<Longrightarrow> b < 8 \<Longrightarrow> m XOR b < 8"
  using word_xor_less_2p [of 3 m b] by simp

lemma kbd_update_state_inv: "kbd_inv s \<Longrightarrow> kbd_inv (kbd_update_state k p s)"
  by (auto simp: kbd_inv_def kbd_update_state_def kbd_set_modifier_bit_def
      intro: kbd_modifier_or_bound kbd_lock_xor_bound word_and_less)

section \<open>The interrupt handler\<close>

lemma keyboard_key_eq:
  "keyboard_key k released s =
     fold kbd_push_byte (event_bytes (key_event_of k released s))
       (kbd_push_event (key_event_of k released s) (kbd_after k released s))"
  by (simp add: keyboard_key_def Let_def kbd_after_def key_event_of_def kbd_emit_input_bytes_pushes)

lemma key_event_of_fields:
  "ev_keycode (key_event_of k released s) = k"
  "ev_unicode (key_event_of k released s) = (if released then 0
     else kbd_keycode_to_unicode k (kbd_modifiers (kbd_after k released s)) (kbd_locks (kbd_after k released s)))"
  "ev_modifiers (key_event_of k released s) = kbd_modifiers (kbd_after k released s)"
  "ev_locks (key_event_of k released s) = kbd_locks (kbd_after k released s)"
  "ev_pressed (key_event_of k released s) = (\<not> released)"
  "ev_repeat (key_event_of k released s) = (\<not> released \<and> kbd_key_down s ! k)"
  by (simp_all add: key_event_of_def)

lemma kbd_after_frame:
  "kbd_bytes (kbd_after k released s) = kbd_bytes s"
  "kbd_events (kbd_after k released s) = kbd_events s"
  "kbd_key_down (kbd_after k released s) = (kbd_key_down s)[k := \<not> released]"
  "kbd_e1_skip (kbd_after k released s) = kbd_e1_skip s"
  "kbd_extended (kbd_after k released s) = kbd_extended s"
  by (simp_all add: kbd_after_def) (simp_all add: kbd_bytes_def kbd_events_def)

lemma kbd_after_inv: "kbd_inv s \<Longrightarrow> kbd_inv (kbd_after k released s)"
  unfolding kbd_after_def by (rule kbd_update_state_inv) (simp add: kbd_inv_def)

lemma keyboard_key_spec:
  assumes "kbd_inv s"
  shows "kbd_inv (keyboard_key k released s) \<and>
    kbd_events (keyboard_key k released s) =
      take KBD_EVENT_CAP (kbd_events s @ [key_event_of k released s]) \<and>
    kbd_bytes (keyboard_key k released s) =
      take KBD_BYTE_CAP (kbd_bytes s @ event_bytes (key_event_of k released s)) \<and>
    kbd_modifiers (keyboard_key k released s) = kbd_modifiers (kbd_after k released s) \<and>
    kbd_locks (keyboard_key k released s) = kbd_locks (kbd_after k released s) \<and>
    kbd_key_down (keyboard_key k released s) = (kbd_key_down s)[k := \<not> released] \<and>
    kbd_e1_skip (keyboard_key k released s) = kbd_e1_skip s \<and>
    kbd_extended (keyboard_key k released s) = kbd_extended s"
proof -
  note inv = kbd_after_inv [OF assms, of k released]
  note invE = conjunct1 [OF kbd_push_event_spec [OF inv, of "key_event_of k released s"]]
  show ?thesis
    using inv kbd_byte_fifo.pushes_invar [OF invE] kbd_byte_fifo.pushes_contents [OF invE]
    by (simp add: keyboard_key_eq kbd_after_frame kbd_push_event_spec)
qed

lemma scancode_index: "unat (sc AND 0x7F :: u8) < 128"
proof -
  have "sc AND 0x7F \<le> (0x7F :: u8)" by (rule word_and_le1)
  then show ?thesis by (simp add: word_le_nat_alt)
qed

lemma kbd_inv_fields [simp]:
  "kbd_inv (s\<lparr>kbd_rx_scancode_count := n\<rparr>) = kbd_inv s"
  "kbd_inv (s\<lparr>kbd_extended := b\<rparr>) = kbd_inv s"
  by (simp_all add: kbd_inv_def)

lemma kbd_inv_skip: "kbd_inv s \<Longrightarrow> n \<le> 5 \<Longrightarrow> kbd_inv (s\<lparr>kbd_e1_skip := n\<rparr>)"
  by (simp add: kbd_inv_def)

lemma kbd_inv_skip_le: "kbd_inv s \<Longrightarrow> kbd_e1_skip s \<le> 5"
  by (simp add: kbd_inv_def)

lemma keyboard_on_irq_inv:
  assumes "kbd_inv s"
  shows "kbd_inv (keyboard_on_irq sc s)"
  using assms kbd_inv_skip_le [OF assms]
  by (simp add: keyboard_on_irq_def Let_def kbd_inv_skip keyboard_key_spec)

lemma kbd_after_fields:
  "kbd_modifiers (kbd_after k r (s\<lparr>kbd_rx_scancode_count := n, kbd_extended := b\<rparr>)) =
     kbd_modifiers (kbd_after k r s)"
  "kbd_locks (kbd_after k r (s\<lparr>kbd_rx_scancode_count := n, kbd_extended := b\<rparr>)) =
     kbd_locks (kbd_after k r s)"
  by (simp_all add: kbd_after_def kbd_update_state_def kbd_set_modifier_bit_def)

lemma irq_plain:
  assumes "kbd_inv s" "kbd_e1_skip s = 0" "\<not> kbd_extended s"
    and "sc \<noteq> 0xE0" "sc \<noteq> 0xE1"
    and "k = scancode_to_key ! unat (sc AND 0x7F)" "0 < k" "k < KEY_MAX"
  shows "kbd_inv (keyboard_on_irq sc s) \<and> kbd_e1_skip (keyboard_on_irq sc s) = 0 \<and>
    \<not> kbd_extended (keyboard_on_irq sc s) \<and>
    kbd_key_down (keyboard_on_irq sc s) = (kbd_key_down s)[k := (sc AND 0x80 = 0)] \<and>
    kbd_modifiers (keyboard_on_irq sc s) = kbd_modifiers (kbd_after k (sc AND 0x80 \<noteq> 0) s)"
proof -
  let ?s = "s\<lparr>kbd_rx_scancode_count := kbd_rx_scancode_count s + 1, kbd_extended := False\<rparr>"
  define rel where "rel \<longleftrightarrow> sc AND 0x80 \<noteq> 0"
  have pressed: "(sc AND 0x80 = 0) \<longleftrightarrow> \<not> rel" by (simp add: rel_def)
  have eq: "keyboard_on_irq sc s = keyboard_key k rel ?s"
    unfolding rel_def using assms by (simp add: keyboard_on_irq_def Let_def)
  have "kbd_inv ?s" using assms(1) by simp
  from keyboard_key_spec [OF this, of k rel] assms(2) show ?thesis
    unfolding eq pressed by (simp add: kbd_after_fields)
qed

interpretation keyboard_machine: invariant_machine keyboard_step kbd_inv
proof unfold_locales
  fix s op assume "kbd_inv s"
  then show "kbd_inv (keyboard_step op s)"
    by (cases op)
      (auto simp: keyboard_on_irq_inv split: option.splits
        dest: keyboard_pop_char_spec(2) keyboard_pop_event_spec(2))
qed

lemma keyboard_init_inv:
  assumes "length (kbd_byte_queue s) = KBD_BYTE_QUEUE_SIZE"
    and "length (kbd_event_queue s) = KBD_EVENT_QUEUE_SIZE"
  shows "kbd_inv (keyboard_init s) \<and> kbd_bytes (keyboard_init s) = [] \<and> kbd_events (keyboard_init s) = []"
  using assms by (simp add: kbd_inv_def keyboard_init_def ring_wf_zero kbd_bytes_def kbd_events_def)

text \<open>The state after \<^verbatim>\<open>keyboard_init\<close> on zeroed static storage, used to exercise the handler.\<close>

definition key_event_zero :: key_event where
  "key_event_zero = \<lparr>ev_keycode = 0, ev_unicode = 0, ev_modifiers = 0, ev_locks = 0,
     ev_pressed = False, ev_repeat = False\<rparr>"

definition keyboard_zero :: keyboard_state where
  "keyboard_zero = keyboard_init
     \<lparr>kbd_byte_queue = replicate KBD_BYTE_QUEUE_SIZE 0, kbd_byte_head = 0, kbd_byte_tail = 0,
      kbd_event_queue = replicate KBD_EVENT_QUEUE_SIZE key_event_zero, kbd_event_head = 0,
      kbd_event_tail = 0, kbd_extended = False, kbd_e1_skip = 0, kbd_modifiers = 0, kbd_locks = 0,
      kbd_key_down = [], kbd_rx_scancode_count = 0, kbd_drop_byte_count = 0,
      kbd_drop_event_count = 0\<rparr>"

lemma keyboard_zero_facts:
  "kbd_inv keyboard_zero" "kbd_bytes keyboard_zero = []" "kbd_events keyboard_zero = []"
  "kbd_e1_skip keyboard_zero = 0" "kbd_extended keyboard_zero = False"
  "kbd_modifiers keyboard_zero = 0" "kbd_locks keyboard_zero = 0"
  "kbd_key_down keyboard_zero = replicate KEY_MAX False"
  by (simp_all add: keyboard_zero_def keyboard_init_inv) (simp_all add: keyboard_init_def)

section \<open>Properties\<close>

text \<open>
  C23: Whatever scancodes arrive and however the interrupt handler is interleaved with readers of
  the byte and the event queue, the keyboard state stays well formed: both rings are in bounds,
  the key table keeps its size, the pause skip counter stays at most 5, and only defined modifier
  and lock bits are ever set.
\<close>

theorem keyboard_run_safe:
  assumes "length (kbd_byte_queue s) = KBD_BYTE_QUEUE_SIZE"
    and "length (kbd_event_queue s) = KBD_EVENT_QUEUE_SIZE"
  shows "kbd_inv (fold keyboard_step ops (keyboard_init s))"
  using keyboard_init_inv [OF assms] by (intro keyboard_machine.run_inv) simp

theorem keyboard_run_safe_witness:
  "kbd_inv (fold keyboard_step [KbdIrq 0x1E, KbdIrq 0x9E, KbdPopChar] (keyboard_init keyboard_zero))"
  by (rule keyboard_run_safe) (simp_all add: keyboard_zero_def keyboard_init_def)

text \<open>
  C16: One interrupt for a mapped key, outside a prefix sequence. Exactly one event is queued (or
  dropped when the queue is full): it carries the key code, whether the key went down, whether it
  was already down (repeat), and the modifiers and locks after this key's own effect; the byte
  queue receives exactly the bytes of that event, and the key table records the new position.
\<close>

theorem keyboard_irq_delivers:
  assumes inv: "kbd_inv s" and st: "kbd_e1_skip s = 0" "sc \<noteq> 0xE0" "sc \<noteq> 0xE1"
    and k: "k = (if kbd_extended s then scancode_to_key_e0 else scancode_to_key) ! unat (sc AND 0x7F)"
      "k \<noteq> KEY_NONE"
    and s': "s' = keyboard_on_irq sc s"
  shows "\<exists>e. kbd_events s' = take KBD_EVENT_CAP (kbd_events s @ [e]) \<and>
    kbd_bytes s' = take KBD_BYTE_CAP (kbd_bytes s @ event_bytes e) \<and>
    ev_keycode e = k \<and> ev_pressed e = (sc AND 0x80 = 0) \<and>
    ev_repeat e = (sc AND 0x80 = 0 \<and> kbd_key_down s ! k) \<and>
    ev_modifiers e = kbd_modifiers s' \<and> ev_locks e = kbd_locks s' \<and>
    ev_unicode e = (if sc AND 0x80 = 0
      then kbd_keycode_to_unicode k (kbd_modifiers s') (kbd_locks s') else 0) \<and>
    kbd_key_down s' = (kbd_key_down s)[k := (sc AND 0x80 = 0)] \<and> \<not> kbd_extended s'"
proof -
  let ?s = "s\<lparr>kbd_rx_scancode_count := kbd_rx_scancode_count s + 1, kbd_extended := False\<rparr>"
  have kb: "k < KEY_MAX"
    using k(1) scancode_tables_bound scancode_tables_length scancode_index [of sc]
    by (auto split: if_splits)
  have inv': "kbd_inv ?s" using inv by (simp add: kbd_inv_def)
  define rel where "rel \<longleftrightarrow> sc AND 0x80 \<noteq> 0"
  have pressed: "(sc AND 0x80 = 0) \<longleftrightarrow> \<not> rel" by (simp add: rel_def)
  have eq: "s' = keyboard_key k rel ?s"
    unfolding rel_def using st k kb s' by (cases "kbd_extended s") (simp_all add: keyboard_on_irq_def Let_def)
  have q: "kbd_events ?s = kbd_events s" "kbd_bytes ?s = kbd_bytes s"
    by (simp_all add: kbd_events_def kbd_bytes_def)
  from keyboard_key_spec [OF inv', of k rel] show ?thesis
    unfolding pressed by (intro exI [of _ "key_event_of k rel ?s"])
      (cases rel; simp add: eq q key_event_of_fields)
qed

theorem keyboard_irq_delivers_witness:
  "\<exists>e. kbd_events (keyboard_on_irq 0x1E keyboard_zero) = [e] \<and> ev_keycode e = KEY_A \<and>
     ev_unicode e = 0x61 \<and> kbd_bytes (keyboard_on_irq 0x1E keyboard_zero) = [0x61]"
proof -
  let ?s = "keyboard_on_irq 0x1E keyboard_zero"
  have eq: "?s = keyboard_key KEY_A False (keyboard_zero\<lparr>kbd_rx_scancode_count :=
      kbd_rx_scancode_count keyboard_zero + 1, kbd_extended := False\<rparr>)"
    by (simp add: keyboard_on_irq_def keyboard_zero_facts scancode_to_key_def)
  have m: "kbd_modifiers ?s = 0" "kbd_locks ?s = 0"
    using keyboard_key_spec [of "keyboard_zero\<lparr>kbd_rx_scancode_count :=
      kbd_rx_scancode_count keyboard_zero + 1, kbd_extended := False\<rparr>" KEY_A False]
    by (simp_all add: eq keyboard_zero_facts kbd_after_def kbd_update_state_def)
  have k: "KEY_A = (if kbd_extended keyboard_zero then scancode_to_key_e0 else scancode_to_key) !
      unat (0x1E AND 0x7F :: u8)"
    by (simp add: keyboard_zero_facts scancode_to_key_def)
  from keyboard_irq_delivers [OF keyboard_zero_facts(1,4) _ _ k _ refl] m show ?thesis
    by (auto simp: keyboard_zero_facts kbd_keycode_to_unicode_def kbd_apply_alpha_def
        KBD_EVENT_CAP_def KBD_EVENT_QUEUE_SIZE_def KBD_BYTE_CAP_def KBD_BYTE_QUEUE_SIZE_def
        event_bytes_def utf8_encode_def)
qed

definition letter_keys :: "keycode_t list" where
  "letter_keys = [KEY_A, KEY_B, KEY_C, KEY_D, KEY_E, KEY_F, KEY_G, KEY_H, KEY_I, KEY_J, KEY_K, KEY_L,
     KEY_M, KEY_N, KEY_O, KEY_P, KEY_Q, KEY_R, KEY_S, KEY_T, KEY_U, KEY_V, KEY_W, KEY_X, KEY_Y, KEY_Z]"

lemma less_26_cases:
  "(i :: nat) < 26 \<Longrightarrow> i \<in> set [0, 1, 2, 3, 4, 5, 6, 7, 8, 9, 10, 11, 12, 13, 14, 15, 16, 17, 18, 19, 20, 21, 22, 23, 24, 25]"
  by (simp add: numeral_eq_Suc less_Suc_eq)

lemma letter_key_alpha:
  "i < 26 \<Longrightarrow> kbd_keycode_to_unicode (letter_keys ! i) mods locks = kbd_apply_alpha (of_nat (i + 97)) mods locks"
  by (drule less_26_cases) (auto simp: letter_keys_def kbd_keycode_to_unicode_def)

lemma letter_control_code: "i < 26 \<Longrightarrow> (of_nat (i + 97) AND 0x1F :: u32) = of_nat (i + 1)"
  "i < 26 \<Longrightarrow> (of_nat (i + 65) AND 0x1F :: u32) = of_nat (i + 1)"
  by (drule less_26_cases, auto)+

text \<open>
  The letter keys follow the US layout: without Ctrl they give the lower-case letter, or the
  upper-case one when exactly one of Shift and Caps Lock is on; with Ctrl they give the control
  code 1 to 26, whatever Shift and Caps Lock say.
\<close>

theorem letter_layout:
  "\<forall>i < 26. kbd_keycode_to_unicode (letter_keys ! i) mods locks =
     (if mods AND KBD_MOD_CTRL \<noteq> 0 then of_nat (i + 1)
      else if (mods AND KBD_MOD_SHIFT \<noteq> 0) \<noteq> (locks AND KBD_LOCK_CAPS \<noteq> 0)
      then of_nat (i + 65) else of_nat (i + 97))"
proof (intro allI impI)
  fix i :: nat assume i: "i < 26"
  have up: "(of_nat (i + 97) :: u32) - (ch CHR ''a'' - ch CHR ''A'') = of_nat (i + 65)" by simp
  show "kbd_keycode_to_unicode (letter_keys ! i) mods locks =
     (if mods AND KBD_MOD_CTRL \<noteq> 0 then of_nat (i + 1)
      else if (mods AND KBD_MOD_SHIFT \<noteq> 0) \<noteq> (locks AND KBD_LOCK_CAPS \<noteq> 0)
      then of_nat (i + 65) else of_nat (i + 97))"
    unfolding letter_key_alpha [OF i] kbd_apply_alpha_def Let_def up
    using letter_control_code [OF i] by (simp only: if_True if_False split: if_split) blast
qed

lemma letter_layout_witness: "kbd_keycode_to_unicode KEY_A 1 0 = 65 \<and> kbd_keycode_to_unicode KEY_Z 0 0 = 122"
  using spec [OF letter_layout [of 1 0], of 0] spec [OF letter_layout [of 0 0], of 25]
  by (simp add: letter_keys_def)

text \<open>
  The Pause key's sequence is not skipped as intended. Its second \<^verbatim>\<open>0xE1\<close> restarts the skip
  counter, so after the whole sequence three more scancodes are swallowed: the next key press
  produces neither an event nor a byte.
\<close>

theorem pause_swallows_next_key:
  assumes "kbd_e1_skip s = 0"
    and "p = fold keyboard_on_irq [0xE1, 0x1D, 0x45, 0xE1, 0x9D, 0xC5] s"
  shows "kbd_e1_skip p = 3 \<and>
    (sc \<noteq> 0xE0 \<and> sc \<noteq> 0xE1 \<longrightarrow> kbd_events (keyboard_on_irq sc p) = kbd_events s \<and>
       kbd_bytes (keyboard_on_irq sc p) = kbd_bytes s \<and> kbd_e1_skip (keyboard_on_irq sc p) = 2)"
  using assms
  by (simp add: keyboard_on_irq_def kbd_events_def kbd_bytes_def Let_def)

theorem pause_swallows_next_key_witness:
  "kbd_bytes (keyboard_on_irq 0x1E
     (fold keyboard_on_irq [0xE1, 0x1D, 0x45, 0xE1, 0x9D, 0xC5] keyboard_zero)) = []"
  using pause_swallows_next_key [where s = keyboard_zero and sc = "0x1E", OF keyboard_zero_facts(4) refl]
  by (simp add: keyboard_zero_facts del: fold_simps)

text \<open>
  Left and right Shift share one modifier bit that the release of either clears. With both
  held, releasing the left one reports Shift as up although the right key is still down.
\<close>

theorem shift_release_forgets_other_key:
  assumes "kbd_inv s" "kbd_e1_skip s = 0" "\<not> kbd_extended s"
    and "t = fold keyboard_on_irq [0x2A, 0x36, 0xAA] s"
  shows "kbd_key_down t ! KEY_RIGHTSHIFT \<and> \<not> kbd_key_down t ! KEY_LEFTSHIFT \<and>
    keyboard_modifiers t AND KBD_MOD_SHIFT = 0"
proof -
  let ?a = "keyboard_on_irq 0x2A s"
  let ?b = "keyboard_on_irq 0x36 ?a"
  have t: "t = keyboard_on_irq 0xAA ?b" using assms(4) by simp
  have a: "kbd_inv ?a \<and> kbd_e1_skip ?a = 0 \<and> \<not> kbd_extended ?a \<and>
      kbd_key_down ?a = (kbd_key_down s)[KEY_LEFTSHIFT := True]"
    using irq_plain [OF assms(1-3), of "0x2A"] by (simp add: scancode_to_key_def)
  then have b: "kbd_inv ?b \<and> kbd_e1_skip ?b = 0 \<and> \<not> kbd_extended ?b \<and>
      kbd_key_down ?b = (kbd_key_down ?a)[KEY_RIGHTSHIFT := True]"
    using irq_plain [of ?a "0x36"] by (simp add: scancode_to_key_def)
  have c: "kbd_key_down t = (kbd_key_down ?b)[KEY_LEFTSHIFT := False] \<and>
      kbd_modifiers t = kbd_modifiers (kbd_after KEY_LEFTSHIFT True ?b)"
    using b irq_plain [of ?b "0xAA"] by (simp add: scancode_to_key_def t)
  have "length (kbd_key_down s) = KEY_MAX" using assms(1) by (simp add: kbd_inv_def)
  then have kd: "kbd_key_down t ! KEY_RIGHTSHIFT \<and> \<not> kbd_key_down t ! KEY_LEFTSHIFT"
    using a b c by simp
  have "kbd_modifiers t AND KBD_MOD_SHIFT = 0"
    using c by (simp add: kbd_after_def kbd_update_state_def kbd_set_modifier_bit_def and.assoc)
  then show ?thesis using kd by (simp add: keyboard_modifiers_def)
qed

theorem shift_release_forgets_other_key_witness:
  "kbd_key_down (fold keyboard_on_irq [0x2A, 0x36, 0xAA] keyboard_zero) ! KEY_RIGHTSHIFT"
  using shift_release_forgets_other_key [OF keyboard_zero_facts(1,4) _ refl] keyboard_zero_facts(5) by simp

end
