(* ===== verification/Preempt.thy ===== *)
theory Preempt
  imports Keyboard
begin

text \<open>
  Keyboard interrupts in the middle of \<^verbatim>\<open>keyboard_pop_char\<close> (\<^verbatim>\<open>kernel/src/core/keyboard.c\<close>), which runs
  with interrupts on. Its three accesses to the byte queue, the check, the read of the byte and the
  store of the new tail, are separate steps here, and any number of scancodes may be handled between
  two of them. The result is that nothing can be observed of this: every such schedule is one in which
  each call is a single step, which is how the other theories use it.
\<close>

section \<open>The three accesses\<close>

definition pop_empty :: "keyboard_state \<Rightarrow> bool" where
  "pop_empty s \<longleftrightarrow> kbd_byte_tail s = kbd_byte_head s"

definition pop_read :: "keyboard_state \<Rightarrow> u8" where
  "pop_read s = kbd_byte_queue s ! kbd_byte_tail s"

definition pop_store :: "keyboard_state \<Rightarrow> keyboard_state" where
  "pop_store s = s\<lparr>kbd_byte_tail := (kbd_byte_tail s + 1) mod KBD_BYTE_QUEUE_SIZE\<rparr>"

definition irqs :: "u8 list \<Rightarrow> keyboard_state \<Rightarrow> keyboard_state" where
  "irqs scancodes s = fold keyboard_on_irq scancodes s"

text \<open>A call with the scancodes \<open>a\<close> handled after the check and \<open>b\<close> after the read.\<close>

definition preempted_pop :: "u8 list \<Rightarrow> u8 list \<Rightarrow> keyboard_state \<Rightarrow> u8 option \<times> keyboard_state" where
  "preempted_pop a b s =
     (if pop_empty s then (None, irqs b (irqs a s))
      else let s1 = irqs a s; c = pop_read s1; s2 = irqs b s1 in (Some c, pop_store s2))"

text \<open>
  A schedule, and the same events with calls as single steps; both collect the bytes that the calls
  return.
\<close>

datatype sched = Interrupt u8 | Pop "u8 list" "u8 list"

fun sched_step :: "sched \<Rightarrow> u8 list \<times> keyboard_state \<Rightarrow> u8 list \<times> keyboard_state" where
  "sched_step (Interrupt sc) (got, s) = (got, keyboard_on_irq sc s)"
| "sched_step (Pop a b) (got, s) =
     (case preempted_pop a b s of (None, s') \<Rightarrow> (got, s') | (Some c, s') \<Rightarrow> (got @ [c], s'))"

fun atomic_step :: "keyboard_op \<Rightarrow> u8 list \<times> keyboard_state \<Rightarrow> u8 list \<times> keyboard_state" where
  "atomic_step (KbdIrq sc) (got, s) = (got, keyboard_on_irq sc s)"
| "atomic_step KbdPopChar (got, s) =
     (case keyboard_pop_char s of None \<Rightarrow> (got, s) | Some (c, s') \<Rightarrow> (got @ [c], s'))"
| "atomic_step KbdPopEvent (got, s) =
     (case keyboard_pop_event s of None \<Rightarrow> (got, s) | Some (_, s') \<Rightarrow> (got, s'))"

fun sched_codes :: "sched \<Rightarrow> u8 list" where
  "sched_codes (Interrupt sc) = [sc]"
| "sched_codes (Pop a b) = a @ b"

fun op_codes :: "keyboard_op \<Rightarrow> u8 list" where
  "op_codes (KbdIrq sc) = [sc]"
| "op_codes _ = []"

definition is_pop :: "sched \<Rightarrow> bool" where
  "is_pop e = (case e of Interrupt _ \<Rightarrow> False | Pop _ _ \<Rightarrow> True)"

section \<open>Interrupts only append\<close>

lemma keyboard_on_irq_appends:
  assumes "kbd_inv s"
  shows "\<exists>bs. kbd_bytes (keyboard_on_irq sc s) = kbd_bytes s @ bs"
proof -
  have le: "length (kbd_bytes s) \<le> KBD_BYTE_CAP" using kbd_bytes_le_cap [OF assms] .
  have f: "kbd_bytes (s\<lparr>kbd_rx_scancode_count := n\<rparr>) = kbd_bytes s" "kbd_bytes (t\<lparr>kbd_extended := e\<rparr>) = kbd_bytes t"
    "kbd_bytes (t\<lparr>kbd_e1_skip := k\<rparr>) = kbd_bytes t" for n e k t
    by (simp_all add: kbd_bytes_def)
  have "\<exists>bs. kbd_bytes (keyboard_key k rel (s\<lparr>kbd_rx_scancode_count := n, kbd_extended := e\<rparr>)) = kbd_bytes s @ bs" for k rel n e
    using keyboard_key_spec [of "s\<lparr>kbd_rx_scancode_count := n, kbd_extended := e\<rparr>" k rel] assms le
    by (simp add: f)
  then show ?thesis by (auto simp: keyboard_on_irq_def Let_def f)
qed

lemma irqs_spec:
  assumes "kbd_inv s"
  shows "kbd_inv (irqs scs s) \<and> (\<exists>bs. kbd_bytes (irqs scs s) = kbd_bytes s @ bs)"
  using assms unfolding irqs_def
proof (induction scs arbitrary: s)
  case (Cons sc scs)
  obtain bs where "kbd_bytes (keyboard_on_irq sc s) = kbd_bytes s @ bs"
    using keyboard_on_irq_appends [OF Cons.prems] by blast
  then show ?case using Cons.IH [OF keyboard_on_irq_inv [OF Cons.prems, of sc]] by auto
qed simp

lemma irqs_append: "irqs b (irqs a s) = irqs (a @ b) s"
  by (simp add: irqs_def)

lemma pop_accesses:
  assumes "kbd_inv s"
  shows "pop_empty s \<longleftrightarrow> kbd_bytes s = []" "\<not> pop_empty s \<Longrightarrow> pop_read s = hd (kbd_bytes s)"
    "keyboard_pop_char s = (if pop_empty s then None else Some (pop_read s, pop_store s))"
proof -
  have wf: "ring_wf KBD_BYTE_QUEUE_SIZE (kbd_byte_queue s) (kbd_byte_head s) (kbd_byte_tail s)"
    using assms by (simp add: kbd_inv_def)
  show "pop_empty s \<longleftrightarrow> kbd_bytes s = []" using ring_list_empty_iff [OF wf] by (auto simp: pop_empty_def kbd_bytes_def)
  show "\<not> pop_empty s \<Longrightarrow> pop_read s = hd (kbd_bytes s)"
    using ring_list_pop [OF wf] by (auto simp: pop_empty_def pop_read_def kbd_bytes_def)
  show "keyboard_pop_char s = (if pop_empty s then None else Some (pop_read s, pop_store s))"
    by (simp add: keyboard_pop_char_def pop_empty_def pop_read_def pop_store_def)
qed

text \<open>A call that finds a byte acts as if all interrupts had come before it.\<close>

lemma preempted_pop_some:
  assumes "kbd_inv s" "\<not> pop_empty s"
  shows "\<exists>c s'. preempted_pop a b s = (Some c, s') \<and> keyboard_pop_char (irqs (a @ b) s) = Some (c, s')"
proof -
  obtain x xs where x: "kbd_bytes s = x # xs" using pop_accesses(1) [OF assms(1)] assms(2) by (cases "kbd_bytes s") auto
  note i = irqs_spec [OF assms(1)]
  have r: "\<not> pop_empty (irqs scs s) \<and> pop_read (irqs scs s) = x" for scs
    using i [of scs] x pop_accesses(1,2) [of "irqs scs s"] by auto
  have "preempted_pop a b s = (Some x, pop_store (irqs (a @ b) s))"
    using assms(2) r [of a] by (simp add: preempted_pop_def irqs_append Let_def)
  moreover have "keyboard_pop_char (irqs (a @ b) s) = Some (x, pop_store (irqs (a @ b) s))"
    using pop_accesses(3) [of "irqs (a @ b) s"] i [of "a @ b"] r [of "a @ b"] by auto
  ultimately show ?thesis by blast
qed

lemma atomic_irqs: "fold atomic_step (map KbdIrq scs) (got, s) = (got, irqs scs s)"
  by (induction scs arbitrary: s) (simp_all add: irqs_def)

lemma codes_irqs: "concat (map op_codes (map KbdIrq scs)) = scs"
  by (induction scs) simp_all

lemma codes_pop: "concat (map op_codes (map KbdIrq scs @ [KbdPopChar])) = scs"
  using codes_irqs [of scs] by simp

text \<open>One event of a schedule as single steps.\<close>

lemma sched_step_atomic:
  assumes "kbd_inv s"
  shows "\<exists>ops. sched_step e (got, s) = fold atomic_step ops (got, s) \<and> concat (map op_codes ops) = sched_codes e \<and>
    count_list ops KbdPopChar = (if is_pop e then 1 else 0)"
proof (cases e)
  case (Interrupt sc)
  then show ?thesis by (intro exI [of _ "[KbdIrq sc]"]) (simp add: is_pop_def)
next
  case (Pop a b)
  have n: "count_list (map KbdIrq scs) KbdPopChar = 0" for scs by (induction scs) simp_all
  show ?thesis
  proof (cases "pop_empty s")
    case True
    then have "sched_step e (got, s) = fold atomic_step (KbdPopChar # map KbdIrq (a @ b)) (got, s)"
      using pop_accesses(3) [OF assms] atomic_irqs [of "a @ b" got s]
      by (simp add: Pop preempted_pop_def irqs_append del: map_append)
    then show ?thesis using Pop n [of "a @ b"] codes_irqs [of "a @ b"]
      by (intro exI [of _ "KbdPopChar # map KbdIrq (a @ b)"]) (simp add: is_pop_def del: map_append)
  next
    case False
    obtain c s' where "preempted_pop a b s = (Some c, s')" "keyboard_pop_char (irqs (a @ b) s) = Some (c, s')"
      using preempted_pop_some [OF assms False, of a b] by blast
    then have "sched_step e (got, s) = fold atomic_step (map KbdIrq (a @ b) @ [KbdPopChar]) (got, s)"
      using atomic_irqs [of "a @ b" got s] by (simp add: Pop del: map_append)
    then show ?thesis using Pop n [of "a @ b"] codes_pop [of "a @ b"]
      by (intro exI [of _ "map KbdIrq (a @ b) @ [KbdPopChar]"]) (simp add: is_pop_def del: map_append)
  qed
qed

lemma sched_step_inv: "kbd_inv s \<Longrightarrow> sched_step e (got, s) = (got', s') \<Longrightarrow> kbd_inv s'"
proof (cases e)
  case (Pop a b)
  assume i: "kbd_inv s" and r: "sched_step e (got, s) = (got', s')"
  show ?thesis
  proof (cases "pop_empty s")
    case True
    then have "s' = irqs (a @ b) s" using r by (simp add: Pop preempted_pop_def irqs_append)
    then show ?thesis using irqs_spec [OF i] by simp
  next
    case False
    obtain c where c: "keyboard_pop_char (irqs (a @ b) s) = Some (c, s')"
      using preempted_pop_some [OF i False, of a b] r Pop by auto
    then show ?thesis using keyboard_pop_char_spec(2) irqs_spec [OF i] by blast
  qed
qed (auto simp: keyboard_on_irq_inv)

section \<open>Property\<close>

text \<open>
  C7: Interrupts cannot be noticed inside \<^verbatim>\<open>keyboard_pop_char\<close>: for every schedule of interrupts and
  calls with interrupts at any point inside them there is one of uninterrupted calls that handles the
  same scancodes in the same order, makes as many calls, and returns the same bytes and leaves the
  same state.
\<close>

theorem preemption_invisible:
  assumes "kbd_inv s"
  shows "\<exists>ops. fold sched_step es (got, s) = fold atomic_step ops (got, s) \<and>
    concat (map op_codes ops) = concat (map sched_codes es) \<and>
    count_list ops KbdPopChar = length (filter is_pop es)"
  using assms
proof (induction es arbitrary: got s)
  case Nil
  show ?case by (rule exI [of _ "[]"]) simp
next
  case (Cons e es)
  obtain got' s' where r: "sched_step e (got, s) = (got', s')" by fastforce
  obtain o1 where o1: "(got', s') = fold atomic_step o1 (got, s)" "concat (map op_codes o1) = sched_codes e"
    "count_list o1 KbdPopChar = (if is_pop e then 1 else 0)"
    using sched_step_atomic [OF Cons.prems, of e got] r by auto
  obtain o2 where "fold sched_step es (got', s') = fold atomic_step o2 (got', s')"
    "concat (map op_codes o2) = concat (map sched_codes es)" "count_list o2 KbdPopChar = length (filter is_pop es)"
    using Cons.IH [OF sched_step_inv [OF Cons.prems r]] by blast
  then show ?case using o1 r by (intro exI [of _ "o1 @ o2"]) simp
qed

theorem preemption_invisible_witness:
  "\<exists>ops. fold sched_step [Interrupt 0x26, Pop [0xA6] [0x1C], Pop [] []] ([], keyboard_zero) =
      fold atomic_step ops ([], keyboard_zero) \<and> concat (map op_codes ops) = [0x26, 0xA6, 0x1C]"
  using preemption_invisible [OF keyboard_zero_facts(1), of "[Interrupt 0x26, Pop [0xA6] [0x1C], Pop [] []]" "[]"] by auto

end
