(* ===== verification/Console_Draw.thy ===== *)
theory Console_Draw
  imports Console
begin

unbundle bit_operations_syntax

text \<open>
  What the backends of the console draw (\<^verbatim>\<open>kernel/src/core/console.c\<close>): every write stays inside the
  visible screen, and on a framebuffer the pixels of each cell are those of its character in its
  colours, a state that every backend operation keeps and that a redraw establishes.
\<close>

section \<open>Specification\<close>

text \<open>
  \<open>control\<close> is the state without the four memories. \<open>screen_confined s s'\<close>: between the two states
  the geometry is the same and only memory of the visible screen was written: VGA text memory
  below \<^verbatim>\<open>rows * cols\<close>, cells of the two cell arrays inside the screen, and framebuffer words that
  belong to a pixel of the framebuffer.
\<close>

definition control :: "console_state \<Rightarrow> console_state" where
  "control s = s\<lparr>fb_pixels := \<lambda>_. 0, fb_cells := \<lambda>_ _. 0, fb_cell_colors := \<lambda>_ _. 0, vga_memory := \<lambda>_. 0\<rparr>"

definition same_geometry :: "console_state \<Rightarrow> console_state \<Rightarrow> bool" where
  "same_geometry s s' \<longleftrightarrow> g_backend s' = g_backend s \<and> term_rows s' = term_rows s \<and>
     term_cols s' = term_cols s \<and> fb_memory s' = fb_memory s \<and> fb_width s' = fb_width s \<and>
     fb_height s' = fb_height s \<and> fb_pitch_pixels s' = fb_pitch_pixels s"

definition screen_confined :: "console_state \<Rightarrow> console_state \<Rightarrow> bool" where
  "screen_confined s s' \<longleftrightarrow> same_geometry s s' \<and>
     (\<forall>i. vga_memory s' i \<noteq> vga_memory s i \<longrightarrow>
        g_backend s = CONSOLE_BACKEND_VGA \<and> i < term_rows s * term_cols s) \<and>
     (\<forall>r x. fb_cells s' r x \<noteq> fb_cells s r x \<or> fb_cell_colors s' r x \<noteq> fb_cell_colors s r x \<longrightarrow>
        g_backend s = CONSOLE_BACKEND_FB \<and> r < term_rows s \<and> x < term_cols s) \<and>
     (\<forall>p. fb_pixels s' p \<noteq> fb_pixels s p \<longrightarrow>
        g_backend s = CONSOLE_BACKEND_FB \<and> fb_memory s \<noteq> 0 \<and>
        (\<exists>x y. x < fb_width s \<and> y < fb_height s \<and> p = unat (y * fb_pitch_pixels s + x)))"

definition console_inv :: "console_state \<Rightarrow> bool" where
  "console_inv s \<longleftrightarrow> 0 < term_rows s \<and> 0 < term_cols s \<and>
     (g_backend s = CONSOLE_BACKEND_VGA \<longrightarrow> term_rows s = VGA_HEIGHT \<and> term_cols s = VGA_WIDTH) \<and>
     term_rows s \<le> FB_MAX_ROWS \<and> term_cols s \<le> FB_MAX_COLS \<and>
     cursor_row s < term_rows s \<and> cursor_col s < term_cols s \<and>
     length (ansi_params s) = ANSI_MAX_PARAMS \<and> ansi_param_count s \<le> ANSI_MAX_PARAMS \<and>
     utf8_needed s \<le> utf8_total s \<and> utf8_total s \<le> 3 \<and> ansi_fg s < 16 \<and> ansi_bg s < 16"

text \<open>
  What is on the screen, whatever the backend: one character and one attribute byte per cell, row
  by row. \<open>display\<close> is everything a later output byte can depend on, the memories of the two
  backends replaced by the screen contents.
\<close>

definition cell :: "console_state \<Rightarrow> nat \<Rightarrow> nat \<Rightarrow> u8 \<times> u8" where
  "cell s r x =
     (case g_backend s of
        CONSOLE_BACKEND_VGA \<Rightarrow>
          (ucast (vga_memory s (r * term_cols s + x)), ucast (drop_bit 8 (vga_memory s (r * term_cols s + x))))
      | CONSOLE_BACKEND_FB \<Rightarrow> (fb_cells s r x, fb_cell_colors s r x))"

definition screen_cells :: "console_state \<Rightarrow> (u8 \<times> u8) list list" where
  "screen_cells s = map (\<lambda>r. map (cell s r) [0..<term_cols s]) [0..<term_rows s]"

section \<open>Every write stays on the screen\<close>


lemma control_same:
  assumes "control s' = control s"
  shows "g_backend s' = g_backend s" "term_rows s' = term_rows s" "term_cols s' = term_cols s"
    "cursor_row s' = cursor_row s" "cursor_col s' = cursor_col s" "ansi_fg s' = ansi_fg s"
    "ansi_bg s' = ansi_bg s" "ansi_params s' = ansi_params s" "ansi_param_count s' = ansi_param_count s"
    "utf8_needed s' = utf8_needed s" "utf8_total s' = utf8_total s" "utf8_codepoint s' = utf8_codepoint s"
    "fb_memory s' = fb_memory s" "fb_width s' = fb_width s" "fb_height s' = fb_height s"
    "fb_pitch_pixels s' = fb_pitch_pixels s" "port_log s' = port_log s"
    "serial_initialized s' = serial_initialized s"
    "ansi_parser_state s' = ansi_parser_state s" "ansi_param_current s' = ansi_param_current s"
    "ansi_param_active s' = ansi_param_active s" "saved_cursor_row s' = saved_cursor_row s"
    "saved_cursor_col s' = saved_cursor_col s"
    "current_vga_color s' = current_vga_color s"
  using assms by (cases s; cases s'; simp add: control_def current_vga_color_def)+

lemma screen_confined_refl [simp]: "screen_confined s s"
  by (simp add: screen_confined_def same_geometry_def)

lemma screen_confined_trans:
  "screen_confined s s' \<Longrightarrow> screen_confined s' s'' \<Longrightarrow> screen_confined s s''"
  unfolding screen_confined_def same_geometry_def by (elim conjE, intro conjI allI) (simp, metis)+

text \<open>A backend operation: it changes no control state and stays on the screen.\<close>

definition draws :: "console_state \<Rightarrow> console_state \<Rightarrow> bool" where
  "draws s s' \<longleftrightarrow> control s' = control s \<and> screen_confined s s'"

lemma draws_refl [simp]: "draws s s"
  by (simp add: draws_def)

lemma draws_trans: "draws s s' \<Longrightarrow> draws s' s'' \<Longrightarrow> draws s s''"
  unfolding draws_def by (metis screen_confined_trans)

lemma draws_for_range:
  assumes "\<And>i s'. lo \<le> i \<Longrightarrow> i < hi \<Longrightarrow> draws s s' \<Longrightarrow> draws s' (body i s')"
  shows "draws s (for_range lo hi body s)"
  by (rule for_range_inv) (auto intro: draws_trans assms)

lemma fb_plot_draws: "g_backend s = CONSOLE_BACKEND_FB \<Longrightarrow> draws s (fb_plot x y rgb s)"
  unfolding draws_def control_def screen_confined_def same_geometry_def fb_plot_def
  by (auto simp: not_le)

lemma draws_control: "draws s s' \<Longrightarrow> control s' = control s"
  by (simp add: draws_def)

lemmas draws_same = control_same [OF draws_control]

lemma fb_draw_cell_draws:
  assumes "g_backend s = CONSOLE_BACKEND_FB"
  shows "draws s (fb_draw_cell row col c color s)"
proof -
  have "draws s (for_range 0 n (\<lambda>gy. for_range 0 (m gy) (\<lambda>gx. fb_plot (x gx) (y gy) (rgb gx gy))) s)"
    for n :: nat and m x y rgb
    using assms by (intro draws_for_range) (auto intro!: fb_plot_draws simp: draws_same(1))
  then show ?thesis by (simp add: fb_draw_cell_def Let_def del: for_range_Suc)
qed

lemma fb_redraw_full_draws:
  assumes "g_backend s = CONSOLE_BACKEND_FB"
  shows "draws s (fb_redraw_full s)"
  unfolding fb_redraw_full_def
  using assms by (intro draws_for_range) (auto intro!: fb_draw_cell_draws simp: draws_same(1))

lemma fb_set_cell_draws:
  "g_backend s = CONSOLE_BACKEND_FB \<Longrightarrow> row < term_rows s \<Longrightarrow> col < term_cols s \<Longrightarrow>
    draws s (fb_set_cell row col c color s)"
  by (auto simp: draws_def control_def screen_confined_def same_geometry_def fb_set_cell_def)

lemma vga_put_draws:
  "g_backend s = CONSOLE_BACKEND_VGA \<Longrightarrow> i < term_rows s * term_cols s \<Longrightarrow> draws s (vga_put i e s)"
  by (auto simp: draws_def control_def screen_confined_def same_geometry_def vga_put_def)

lemma grid_index: "row < rows \<Longrightarrow> col < cols \<Longrightarrow> row * cols + col < rows * (cols :: nat)"
proof -
  assume a: "row < rows" "col < cols"
  then have "row * cols + col < Suc row * cols" by simp
  also have "\<dots> \<le> rows * cols" using a by (intro mult_le_mono1) simp
  finally show ?thesis .
qed

lemma backend_put_cell_draws: "draws s (backend_put_cell row col c color s)"
proof (cases "row < term_rows s \<and> col < term_cols s")
  case True
  show ?thesis
  proof (cases "g_backend s")
    case CONSOLE_BACKEND_VGA
    then show ?thesis
      using True by (simp add: backend_put_cell_def vga_put_draws grid_index)
  next
    case CONSOLE_BACKEND_FB
    then have "draws s (fb_set_cell row col c color s)" using True by (intro fb_set_cell_draws) auto
    then have "draws s (fb_draw_cell row col c color (fb_set_cell row col c color s))"
      by (rule draws_trans) (rule fb_draw_cell_draws, simp add: CONSOLE_BACKEND_FB fb_set_cell_def)
    then show ?thesis using True CONSOLE_BACKEND_FB by (simp add: backend_put_cell_def)
  qed
next
  case False
  then show ?thesis by (auto simp: backend_put_cell_def)
qed

lemma backend_clear_all_draws: "draws s (backend_clear_all color s)"
proof (cases "g_backend s")
  case CONSOLE_BACKEND_VGA
  then show ?thesis
    unfolding backend_clear_all_def
    by (auto intro!: draws_for_range vga_put_draws grid_index simp: draws_same(1-3))
next
  case CONSOLE_BACKEND_FB
  let ?s1 = "for_range 0 (term_rows s) (\<lambda>y. for_range 0 (term_cols s) (\<lambda>x s.
    fb_set_cell y x (of_char CHR '' '') color s)) s"
  have "draws s ?s1"
    using CONSOLE_BACKEND_FB
    by (intro draws_for_range fb_set_cell_draws) (simp_all add: draws_same(1-3))
  moreover from this have "draws ?s1 (fb_redraw_full ?s1)"
    by (intro fb_redraw_full_draws) (simp add: draws_same(1) CONSOLE_BACKEND_FB)
  ultimately show ?thesis
    using CONSOLE_BACKEND_FB by (simp add: backend_clear_all_def draws_trans)
qed

lemma fb_shift_row_draws:
  "g_backend s = CONSOLE_BACKEND_FB \<Longrightarrow> 1 \<le> y \<Longrightarrow> y < term_rows s \<Longrightarrow> draws s (fb_shift_row y s)"
  by (auto simp: draws_def control_def screen_confined_def same_geometry_def fb_shift_row_def
      row_memcpy_def split: if_splits)

lemma vga_shift_rows_draws: "g_backend s = CONSOLE_BACKEND_VGA \<Longrightarrow> draws s (vga_shift_rows s)"
  unfolding vga_shift_rows_def
  by (intro draws_for_range vga_put_draws) (simp_all add: draws_same(1-3) grid_index)

lemma fb_shift_rows_draws:
  "g_backend s = CONSOLE_BACKEND_FB \<Longrightarrow> draws s (fb_shift_rows s)"
  unfolding fb_shift_rows_def
  by (intro draws_for_range fb_shift_row_draws) (simp_all add: draws_same(1-3))

lemma fb_blank_row_draws:
  "g_backend s = CONSOLE_BACKEND_FB \<Longrightarrow> row < term_rows s \<Longrightarrow> draws s (fb_blank_row row color s)"
  unfolding fb_blank_row_def
  by (intro draws_for_range fb_set_cell_draws) (simp_all add: draws_same(1-3))

lemma vga_blank_row_draws:
  "g_backend s = CONSOLE_BACKEND_VGA \<Longrightarrow> row < term_rows s \<Longrightarrow> draws s (vga_blank_row row color s)"
  unfolding vga_blank_row_def
  by (intro draws_for_range vga_put_draws) (simp_all add: draws_same(1-3) grid_index)

lemma backend_scroll_up_draws:
  assumes "0 < term_rows s" "term_rows s < 2 ^ 64"
  shows "draws s (backend_scroll_up color s)"
proof (cases "g_backend s")
  case CONSOLE_BACKEND_VGA
  note d = vga_shift_rows_draws [OF this]
  have "draws (vga_shift_rows s) (vga_blank_row (term_rows s - 1) color (vga_shift_rows s))"
    using assms by (intro vga_blank_row_draws) (simp_all add: draws_same(1-3) [OF d] CONSOLE_BACKEND_VGA)
  with d show ?thesis
    using assms CONSOLE_BACKEND_VGA by (simp add: backend_scroll_up_def) (rule draws_trans)
next
  case CONSOLE_BACKEND_FB
  note d = fb_shift_rows_draws [OF this]
  let ?s1 = "fb_shift_rows s"
  let ?s2 = "fb_blank_row (term_rows s - 1) color ?s1"
  have "draws ?s1 ?s2"
    using assms by (intro fb_blank_row_draws) (simp_all add: draws_same(1-3) [OF d] CONSOLE_BACKEND_FB)
  with d have d2: "draws s ?s2" by (rule draws_trans)
  have "draws ?s2 (fb_redraw_full ?s2)"
    by (rule fb_redraw_full_draws) (simp only: draws_same(1) [OF d2] CONSOLE_BACKEND_FB)
  with d2 have "draws s (fb_redraw_full ?s2)" by (rule draws_trans)
  then show ?thesis using assms CONSOLE_BACKEND_FB by (simp add: backend_scroll_up_def)
qed

lemma clear_line_range_draws: "draws s (clear_line_range row a b s)"
  unfolding clear_line_range_def Let_def
  by (auto intro!: draws_for_range backend_put_cell_draws simp del: for_range_Suc)

section \<open>The pixels of the cells\<close>

lemma fb_plot_cells [simp]:
  "fb_cells (fb_plot x y rgb s) = fb_cells s" "fb_cell_colors (fb_plot x y rgb s) = fb_cell_colors s"
  by (simp_all add: fb_plot_def)

lemma for_range_keeps: "(\<And>i s. f (body i s) = f s) \<Longrightarrow> f (for_range lo hi body s) = f s"
  by (rule for_range_inv [where P = "\<lambda>s'. f s' = f s"]) auto

lemma fb_draw_cell_cells [simp]:
  "fb_cells (fb_draw_cell row col c color s) = fb_cells s"
  "fb_cell_colors (fb_draw_cell row col c color s) = fb_cell_colors s"
  by (auto simp: fb_draw_cell_def Let_def intro!: for_range_keeps simp del: for_range_Suc)

lemma fb_redraw_full_cells [simp]:
  "fb_cells (fb_redraw_full s) = fb_cells s" "fb_cell_colors (fb_redraw_full s) = fb_cell_colors s"
  unfolding fb_redraw_full_def by (rule for_range_keeps, rule for_range_keeps, simp)+

lemma grid_index_inj:
  assumes "x < m" "x' < (m::nat)"
  shows "r * m + x = r' * m + x' \<longleftrightarrow> r = r' \<and> x = x'"
proof
  assume e: "r * m + x = r' * m + x'"
  have "(r * m + x) div m = r" "(r' * m + x') div m = r'" using assms by auto
  with e show "r = r' \<and> x = x'" by simp
qed simp

text \<open>
  The framebuffer is large enough: its words hold \<open>fb_height\<close> scan lines of \<open>fb_pitch_pixels\<close> words, and the
  cells of the screen, 8 by 16 pixels each, fit in it.
\<close>

definition fb_geometry :: "console_state \<Rightarrow> bool" where
  "fb_geometry s \<longleftrightarrow> fb_memory s \<noteq> 0 \<and> fb_width s \<le> fb_pitch_pixels s \<and>
     unat (fb_height s) * unat (fb_pitch_pixels s) < 2 ^ 32 \<and>
     term_cols s * 8 \<le> unat (fb_width s) \<and> term_rows s * 16 \<le> unat (fb_height s)"

definition pixel_at :: "console_state \<Rightarrow> nat \<Rightarrow> nat \<Rightarrow> nat \<Rightarrow> nat \<Rightarrow> nat" where
  "pixel_at s r x gx gy = (r * 16 + gy) * unat (fb_pitch_pixels s) + (x * 8 + gx)"

text \<open>
  The colour of pixel \<open>(gx, gy)\<close> of a cell: each line of the character's 8 by 8 glyph is shown on two
  scan lines, its lowest bit leftmost, set bits in the foreground colour; a character without a glyph is
  shown as a question mark.
\<close>

definition glyph_pixel :: "u8 \<times> u8 \<Rightarrow> nat \<Rightarrow> nat \<Rightarrow> u32" where
  "glyph_pixel ch gx gy = (case ch of (c, color) \<Rightarrow>
     vga_palette_rgb ! (if bit (font8x8_basic ! (if c < 128 then unat c else 63) ! (gy div 2)) gx
       then unat (color AND 0x0F) else unat (drop_bit 4 color AND 0x0F)))"

definition drawn :: "console_state \<Rightarrow> bool" where
  "drawn s \<longleftrightarrow> (g_backend s = CONSOLE_BACKEND_FB \<and> fb_geometry s \<longrightarrow>
     (\<forall>r < term_rows s. \<forall>x < term_cols s. \<forall>gx < 8. \<forall>gy < 16.
        fb_pixels s (pixel_at s r x gx gy) = glyph_pixel (cell s r x) gx gy))"

lemma fb_geometry_draws: "draws s s' \<Longrightarrow> fb_geometry s' = fb_geometry s \<and> pixel_at s' = pixel_at s"
  by (simp add: fb_geometry_def pixel_at_def fun_eq_iff draws_same)

text \<open>A pixel of a cell has its own word.\<close>

lemma cell_column:
  assumes "fb_geometry s" "x < term_cols s" "gx < 8"
  shows "x * 8 + gx < unat (fb_width s)" "x * 8 + gx < unat (fb_pitch_pixels s)"
proof -
  have "x * 8 + gx < term_cols s * 8" using assms(2,3) by (rule grid_index)
  then show "x * 8 + gx < unat (fb_width s)" "x * 8 + gx < unat (fb_pitch_pixels s)"
    using assms(1) by (auto simp: fb_geometry_def word_le_nat_alt)
qed

lemma cell_line:
  assumes "fb_geometry s" "r < term_rows s" "gy < 16"
  shows "r * 16 + gy < unat (fb_height s)"
  using grid_index [OF assms(2,3)] assms(1) by (simp add: fb_geometry_def)

lemma pixel_at_inj:
  assumes "fb_geometry s" "x < term_cols s" "x' < term_cols s" "gx < 8" "gx' < 8" "gy < 16" "gy' < 16"
  shows "pixel_at s r x gx gy = pixel_at s r' x' gx' gy' \<longleftrightarrow> r = r' \<and> x = x' \<and> gx = gx' \<and> gy = gy'"
proof -
  have "pixel_at s r x gx gy = pixel_at s r' x' gx' gy' \<longleftrightarrow> r * 16 + gy = r' * 16 + gy' \<and> x * 8 + gx = x' * 8 + gx'"
    unfolding pixel_at_def by (rule grid_index_inj) (use assms cell_column(2) in auto)
  then show ?thesis using grid_index_inj [OF assms(6,7)] grid_index_inj [OF assms(4,5)] by auto
qed

lemma unat_of_nat_add: "a + b < 2 ^ 32 \<Longrightarrow> unat (of_nat a + of_nat b :: u32) = a + b"
  by (simp only: of_nat_add [symmetric] unat_of_nat) simp

lemma fb_plot_pixel:
  assumes "fb_geometry s" "r < term_rows s" "x < term_cols s" "gx < 8" "gy < 16"
  shows "fb_pixels (fb_plot (of_nat (x * 8) + of_nat gx) (of_nat (r * 16) + of_nat gy) rgb s) =
    (fb_pixels s)(pixel_at s r x gx gy := rgb)"
proof -
  note b = cell_column [OF assms(1,3,4)] cell_line [OF assms(1,2,5)]
  define w h :: u32 where "w = of_nat (x * 8) + of_nat gx" and "h = of_nat (r * 16) + of_nat gy"
  have u: "unat w = x * 8 + gx" "unat h = r * 16 + gy"
    using b unsigned_less [of "fb_width s", where ?'a = nat] unsigned_less [of "fb_height s", where ?'a = nat]
      unat_of_nat_add [of "x * 8" gx] unat_of_nat_add [of "r * 16" gy] by (simp_all add: w_def h_def)
  have "pixel_at s r x gx gy < unat (fb_height s) * unat (fb_pitch_pixels s)"
    unfolding pixel_at_def using b(3,2) by (rule grid_index)
  also have "\<dots> < 2 ^ 32" using assms(1) by (simp add: fb_geometry_def)
  finally have i: "pixel_at s r x gx gy < 2 ^ 32" .
  have "unat (h * fb_pitch_pixels s + w) = (unat h * unat (fb_pitch_pixels s) + unat w) mod 2 ^ 32"
    by (simp add: unat_word_ariths mod_simps)
  then have "unat (h * fb_pitch_pixels s + w) = pixel_at s r x gx gy"
    using i by (simp add: u pixel_at_def)
  moreover have "\<not> fb_width s \<le> w" "\<not> fb_height s \<le> h" using b u by (simp_all add: word_le_nat_alt)
  ultimately show ?thesis
    using assms(1) unfolding w_def [symmetric] h_def [symmetric] by (simp add: fb_plot_def fb_geometry_def)
qed

lemma mask_bit: "(a :: u8) AND push_bit i 1 \<noteq> 0 \<longleftrightarrow> bit a i"
  by (simp add: push_bit_of_1 and_exp_eq_0_iff_not_bit)

text \<open>Drawing a cell sets exactly its own pixels among those of the screen's cells.\<close>

lemma fb_plot_line:
  assumes "g_backend s = CONSOLE_BACKEND_FB" "fb_geometry s" "row < term_rows s" "col < term_cols s" "line < 16" "k \<le> 8"
    and "x < term_cols s" "gx < 8" "gy < 16"
    and "t = for_range 0 k (\<lambda>i. fb_plot (of_nat (col * 8) + of_nat i) (of_nat (row * 16) + of_nat line) (rgb i)) s"
  shows "draws s t" "fb_pixels t (pixel_at s r x gx gy) =
    (if r = row \<and> x = col \<and> gy = line \<and> gx < k then rgb gx else fb_pixels s (pixel_at s r x gx gy))"
proof -
  have "draws s t \<and> fb_pixels t (pixel_at s r x gx gy) =
    (if r = row \<and> x = col \<and> gy = line \<and> gx < k then rgb gx else fb_pixels s (pixel_at s r x gx gy))"
    using assms(6) unfolding assms(10)
  proof (induction k)
    case (Suc k)
    let ?t = "for_range 0 k (\<lambda>i. fb_plot (of_nat (col * 8) + of_nat i) (of_nat (row * 16) + of_nat line) (rgb i)) s"
    have d: "draws s ?t" using Suc by simp
    then have "draws s (fb_plot (of_nat (col * 8) + of_nat k) (of_nat (row * 16) + of_nat line) (rgb k) ?t)"
      by (rule draws_trans) (rule fb_plot_draws, simp only: draws_same(1) [OF d] assms(1))
    moreover have "fb_pixels (fb_plot (of_nat (col * 8) + of_nat k) (of_nat (row * 16) + of_nat line) (rgb k) ?t) =
        (fb_pixels ?t)(pixel_at s row col k line := rgb k)"
      using fb_plot_pixel [of ?t row col k line] fb_geometry_draws [OF d] draws_same(2,3) [OF d] assms(2-5) Suc.prems by simp
    moreover have "pixel_at s r x gx gy = pixel_at s row col k line \<longleftrightarrow> r = row \<and> x = col \<and> gx = k \<and> gy = line"
      using assms Suc.prems by (intro pixel_at_inj) auto
    ultimately show ?case using Suc by (auto simp: less_Suc_eq)
  qed simp
  then show "draws s t" "fb_pixels t (pixel_at s r x gx gy) =
    (if r = row \<and> x = col \<and> gy = line \<and> gx < k then rgb gx else fb_pixels s (pixel_at s r x gx gy))" by auto
qed

lemma fb_plot_lines:
  assumes "g_backend s = CONSOLE_BACKEND_FB" "fb_geometry s" "row < term_rows s" "col < term_cols s" "n \<le> 16"
    and "x < term_cols s" "gx < 8" "gy < 16"
    and "t = for_range 0 n (\<lambda>l. for_range 0 8 (\<lambda>i. fb_plot (of_nat (col * 8) + of_nat i) (of_nat (row * 16) + of_nat l) (rgb l i))) s"
  shows "fb_pixels t (pixel_at s r x gx gy) =
    (if r = row \<and> x = col \<and> gy < n then rgb gy gx else fb_pixels s (pixel_at s r x gx gy))"
proof -
  let ?line = "\<lambda>l. for_range 0 8 (\<lambda>i. fb_plot (of_nat (col * 8) + of_nat i) (of_nat (row * 16) + of_nat l) (rgb l i))"
  have "draws s (for_range 0 n ?line s) \<and> fb_pixels (for_range 0 n ?line s) (pixel_at s r x gx gy) =
    (if r = row \<and> x = col \<and> gy < n then rgb gy gx else fb_pixels s (pixel_at s r x gx gy))"
    using assms(5)
  proof (induction n)
    case (Suc n)
    let ?t = "for_range 0 n ?line s"
    have d: "draws s ?t" using Suc by simp
    note e = draws_same(1-3) [OF d] fb_geometry_draws [OF d]
    have "draws ?t (?line n ?t)" "fb_pixels (?line n ?t) (pixel_at ?t r x gx gy) =
        (if r = row \<and> x = col \<and> gy = n \<and> gx < 8 then rgb n gx else fb_pixels ?t (pixel_at ?t r x gx gy))"
      using fb_plot_line(1) [of ?t row col n 8 x gx gy "?line n ?t" "rgb n"]
        fb_plot_line(2) [of ?t row col n 8 x gx gy "?line n ?t" "rgb n" r] e assms Suc.prems by auto
    then show ?case using Suc e draws_trans [OF d] assms(7) by (auto simp: less_Suc_eq)
  qed simp
  then show ?thesis using assms(9) by simp
qed

lemma fb_draw_cell_pixel:
  assumes "g_backend s = CONSOLE_BACKEND_FB" "fb_geometry s" "row < term_rows s" "col < term_cols s"
    and "x < term_cols s" "gx < 8" "gy < 16"
  shows "fb_pixels (fb_draw_cell row col c color s) (pixel_at s r x gx gy) =
    (if r = row \<and> x = col then glyph_pixel (c, color) gx gy else fb_pixels s (pixel_at s r x gx gy))"
proof -
  have b: "col * 8 + 8 \<le> unat (fb_width s)" "row * 16 + 16 \<le> unat (fb_height s)"
    using cell_column(1) [OF assms(2,4), of 7] cell_line [OF assms(2,3), of 15] by simp_all
  have "unat (of_nat (col * 8) + of_nat 8 :: u32) = col * 8 + 8" "unat (of_nat (row * 16) + of_nat 16 :: u32) = row * 16 + 16"
    using b unsigned_less [of "fb_width s", where ?'a = nat] unsigned_less [of "fb_height s", where ?'a = nat]
    by (intro unat_of_nat_add; simp)+
  then have fits: "\<not> (of_nat (col * 8) + of_nat 8 > fb_width s \<or> of_nat (row * 16) + of_nat 16 > fb_height s)"
    using b by (simp only: word_less_nat_alt) simp
  define index where "index = unat (if c \<ge> 128 then of_char CHR ''?'' else c)"
  define rgb where "rgb l i = (if font8x8_basic ! index ! (l div 2) AND push_bit i 1 \<noteq> 0
    then vga_palette_rgb ! unat (color AND 0x0F) else vga_palette_rgb ! unat (drop_bit 4 color AND 0x0F))" for l i
  have "fb_draw_cell row col c color s =
      for_range 0 16 (\<lambda>l. for_range 0 8 (\<lambda>i. fb_plot (of_nat (col * 8) + of_nat i) (of_nat (row * 16) + of_nat l) (rgb l i))) s"
    using assms(3,4) fits unfolding fb_draw_cell_def Let_def rgb_def index_def by (simp del: for_range_Suc of_nat_mult of_nat_numeral)
  then have "fb_pixels (fb_draw_cell row col c color s) (pixel_at s r x gx gy) =
      (if r = row \<and> x = col \<and> gy < 16 then rgb gy gx else fb_pixels s (pixel_at s r x gx gy))"
    by (simp only: fb_plot_lines [OF assms(1-4) order_refl assms(5-7) refl])
  moreover have i: "(if c < 128 then unat c else 63) = index" by (cases "c < 128") (auto simp: index_def dest: leD)
  have "rgb gy gx = glyph_pixel (c, color) gx gy"
    unfolding rgb_def glyph_pixel_def mask_bit prod.case i by (cases "bit (font8x8_basic ! index ! (gy div 2)) gx") simp_all
  ultimately show ?thesis using assms(7) by simp
qed

text \<open>
  A backend operation that leaves pixels and cells in step. Everything a backend does as a whole is one.
\<close>

definition paints :: "console_state \<Rightarrow> console_state \<Rightarrow> bool" where
  "paints s s' \<longleftrightarrow> draws s s' \<and> (drawn s \<longrightarrow> drawn s')"

lemma paints_refl [simp]: "paints s s"
  by (simp add: paints_def)

lemma paints_trans: "paints s s' \<Longrightarrow> paints s' s'' \<Longrightarrow> paints s s''"
  unfolding paints_def using draws_trans by blast

lemma paints_draws: "paints s s' \<Longrightarrow> draws s s'"
  by (simp add: paints_def)

lemma drawn_if_equal:
  assumes "same_geometry s s'" "fb_pixels s' = fb_pixels s" "fb_cells s' = fb_cells s" "fb_cell_colors s' = fb_cell_colors s"
  shows "drawn s' = drawn s"
proof -
  have g: "g_backend s' = g_backend s" "term_rows s' = term_rows s" "term_cols s' = term_cols s"
    "fb_geometry s' = fb_geometry s" "pixel_at s' = pixel_at s"
    using assms(1) by (simp_all add: same_geometry_def fb_geometry_def pixel_at_def fun_eq_iff)
  have "cell s' r x = cell s r x" if "g_backend s = CONSOLE_BACKEND_FB" for r x
    using that assms g by (simp add: cell_def)
  then show ?thesis unfolding drawn_def g assms(2) by metis
qed

lemma drawn_control:
  "drawn (s\<lparr>cursor_row := a\<rparr>) = drawn s" "drawn (s\<lparr>cursor_col := a\<rparr>) = drawn s"
  "drawn (s\<lparr>saved_cursor_row := a\<rparr>) = drawn s" "drawn (s\<lparr>saved_cursor_col := a\<rparr>) = drawn s"
  "drawn (s\<lparr>port_log := l\<rparr>) = drawn s"
  by (rule drawn_if_equal; simp add: same_geometry_def)+

lemma paints_for_range:
  assumes "\<And>i s'. lo \<le> i \<Longrightarrow> i < hi \<Longrightarrow> paints s s' \<Longrightarrow> paints s' (body i s')"
  shows "paints s (for_range lo hi body s)"
  by (rule for_range_inv) (auto intro: paints_trans assms)

lemma backend_put_cell_paints: "paints s (backend_put_cell row col c color s)"
proof -
  let ?s' = "backend_put_cell row col c color s" and ?t = "fb_set_cell row col c color s"
  note d = backend_put_cell_draws [of s row col c color]
  note e = draws_same(1-3) [OF d] fb_geometry_draws [OF d]
  have "drawn ?s'" if "drawn s" "g_backend s = CONSOLE_BACKEND_FB" "row < term_rows s" "col < term_cols s"
    unfolding drawn_def
  proof (intro impI allI)
    fix r x gx gy :: nat
    assume g: "g_backend ?s' = CONSOLE_BACKEND_FB \<and> fb_geometry ?s'"
      and b: "r < term_rows ?s'" "x < term_cols ?s'" "gx < 8" "gy < 16"
    have a: "g_backend s = CONSOLE_BACKEND_FB \<and> fb_geometry s" "r < term_rows s" "x < term_cols s" "gx < 8" "gy < 16"
      using g b e by simp_all
    have t: "g_backend ?t = g_backend s" "term_rows ?t = term_rows s" "term_cols ?t = term_cols s" "fb_geometry ?t = fb_geometry s"
      "pixel_at ?t = pixel_at s" "fb_pixels ?t = fb_pixels s"
      by (simp_all add: fb_set_cell_def fb_geometry_def pixel_at_def fun_eq_iff)
    have s': "?s' = fb_draw_cell row col c color ?t" using that by (simp add: backend_put_cell_def)
    have "cell ?s' r x = (if r = row \<and> x = col then (c, color) else cell s r x)"
      using that(2) e(1) by (simp add: cell_def s') (simp add: fb_set_cell_def)
    moreover have "fb_pixels ?s' (pixel_at s r x gx gy) =
        (if r = row \<and> x = col then glyph_pixel (c, color) gx gy else fb_pixels s (pixel_at s r x gx gy))"
      using fb_draw_cell_pixel [of ?t row col x gx gy c color r] that a t by (simp add: s')
    ultimately show "fb_pixels ?s' (pixel_at ?s' r x gx gy) = glyph_pixel (cell ?s' r x) gx gy"
      using that(1) a e by (simp add: drawn_def)
  qed
  moreover have "drawn ?s'" if "g_backend s \<noteq> CONSOLE_BACKEND_FB" using that e(1) by (simp add: drawn_def)
  moreover have "?s' = s" if "\<not> (row < term_rows s \<and> col < term_cols s)" using that by (auto simp: backend_put_cell_def)
  ultimately show ?thesis using d unfolding paints_def by metis
qed

lemma clear_line_range_paints: "paints s (clear_line_range row a b s)"
  unfolding clear_line_range_def Let_def
  by (auto intro!: paints_for_range backend_put_cell_paints simp del: for_range_Suc)

text \<open>A full redraw brings pixels and cells in step whatever was shown before.\<close>

definition drawn_upto :: "nat \<Rightarrow> nat \<Rightarrow> console_state \<Rightarrow> bool" where
  "drawn_upto row col s \<longleftrightarrow> (\<forall>r x gx gy. r < row \<or> r = row \<and> x < col \<longrightarrow> r < term_rows s \<longrightarrow> x < term_cols s \<longrightarrow>
     gx < 8 \<longrightarrow> gy < 16 \<longrightarrow> fb_pixels s (pixel_at s r x gx gy) = glyph_pixel (cell s r x) gx gy)"

lemma fb_redraw_full_drawn:
  assumes "g_backend s = CONSOLE_BACKEND_FB"
  shows "drawn (fb_redraw_full s)"
proof (cases "fb_geometry s")
  case True
  let ?cell = "\<lambda>y x s. fb_draw_cell y x (fb_cells s y x) (fb_cell_colors s y x) s"
  let ?row = "\<lambda>y. for_range 0 (term_cols s) (?cell y)"
  have step: "draws s (?cell y x t) \<and> drawn_upto y (Suc x) (?cell y x t)"
    if "draws s t" "drawn_upto y x t" "y < term_rows s" "x < term_cols s" for y x t
  proof -
    have b: "g_backend t = CONSOLE_BACKEND_FB" "term_rows t = term_rows s" "term_cols t = term_cols s" "fb_geometry t"
      using draws_same(1-3) [OF that(1)] fb_geometry_draws [OF that(1)] assms True by simp_all
    have d: "draws t (?cell y x t)" using b(1) by (rule fb_draw_cell_draws)
    note e = draws_same(1-3) [OF d] conjunct2 [OF fb_geometry_draws [OF d]]
    have c: "cell (?cell y x t) = cell t" using e(1) b(1) by (simp add: cell_def fun_eq_iff)
    have "fb_pixels (?cell y x t) (pixel_at t r z gx gy) =
        (if r = y \<and> z = x then glyph_pixel (cell t y x) gx gy else fb_pixels t (pixel_at t r z gx gy))"
      if "z < term_cols s" "gx < 8" "gy < 16" for r z gx gy
      using fb_draw_cell_pixel [of t y x z gx gy] b that \<open>y < term_rows s\<close> \<open>x < term_cols s\<close> by (simp add: cell_def)
    then have "drawn_upto y (Suc x) (?cell y x t)"
      using that(2) b(2,3) unfolding drawn_upto_def e c by (auto simp: less_Suc_eq)
    then show ?thesis using draws_trans [OF that(1) d] by simp
  qed
  have cells: "draws s (for_range 0 n (?cell y) t) \<and> drawn_upto y n (for_range 0 n (?cell y) t)"
    if "draws s t" "drawn_upto y 0 t" "y < term_rows s" "n \<le> term_cols s" for y n t
    using that(4) by (induction n) (use that step in auto)
  have rows: "draws s (for_range 0 n ?row s) \<and> drawn_upto n 0 (for_range 0 n ?row s)" if "n \<le> term_rows s" for n
    using that
  proof (induction n)
    case (Suc n)
    let ?t = "for_range 0 n ?row s"
    have "draws s (?row n ?t) \<and> drawn_upto n (term_cols s) (?row n ?t)" using cells [of ?t n "term_cols s"] Suc by simp
    moreover from this have "term_cols (?row n ?t) = term_cols s" using draws_same(3) by blast
    ultimately show ?case by (auto simp: drawn_upto_def less_Suc_eq)
  qed (simp add: drawn_upto_def)
  have r: "draws s (fb_redraw_full s)" "drawn_upto (term_rows s) 0 (fb_redraw_full s)"
    using rows [OF order_refl] by (simp_all add: fb_redraw_full_def)
  show ?thesis using r(2) draws_same(2) [OF r(1)] by (simp add: drawn_upto_def drawn_def)
next
  case False
  have "draws s (fb_redraw_full s)" using assms by (rule fb_redraw_full_draws)
  then show ?thesis using fb_geometry_draws False by (simp add: drawn_def)
qed

lemma backend_clear_all_paints: "paints s (backend_clear_all color s)" "drawn (backend_clear_all color s)"
proof -
  have "drawn (backend_clear_all color s)"
  proof (cases "g_backend s")
    case CONSOLE_BACKEND_VGA
    then show ?thesis using draws_same(1) [OF backend_clear_all_draws [of s color]] by (simp add: drawn_def)
  next
    case CONSOLE_BACKEND_FB
    let ?s1 = "for_range 0 (term_rows s) (\<lambda>y. for_range 0 (term_cols s) (\<lambda>x. fb_set_cell y x (of_char CHR '' '') color)) s"
    have d: "draws s ?s1"
      using CONSOLE_BACKEND_FB
      by (intro draws_for_range fb_set_cell_draws) (simp_all add: draws_same(1-3))
    have "g_backend ?s1 = CONSOLE_BACKEND_FB" by (simp only: draws_same(1) [OF d] CONSOLE_BACKEND_FB)
    then have "drawn (fb_redraw_full ?s1)" by (rule fb_redraw_full_drawn)
    then show ?thesis using CONSOLE_BACKEND_FB by (simp add: backend_clear_all_def)
  qed
  then show "paints s (backend_clear_all color s)" "drawn (backend_clear_all color s)"
    by (simp_all add: paints_def backend_clear_all_draws)
qed

lemma backend_scroll_up_paints:
  assumes "0 < term_rows s" "term_rows s < 2 ^ 64"
  shows "paints s (backend_scroll_up color s)"
proof -
  note d = backend_scroll_up_draws [OF assms, of color]
  have "drawn (backend_scroll_up color s)"
  proof (cases "g_backend s")
    case CONSOLE_BACKEND_VGA
    then show ?thesis using draws_same(1) [OF d] by (simp add: drawn_def)
  next
    case CONSOLE_BACKEND_FB
    note f = fb_shift_rows_draws [OF this]
    let ?s2 = "fb_blank_row (term_rows s - 1) color (fb_shift_rows s)"
    have g: "draws (fb_shift_rows s) ?s2"
      using assms by (intro fb_blank_row_draws) (simp_all add: draws_same(1-3) [OF f] CONSOLE_BACKEND_FB)
    have "g_backend ?s2 = CONSOLE_BACKEND_FB"
      by (simp only: draws_same(1) [OF g] draws_same(1) [OF f] CONSOLE_BACKEND_FB)
    then have "drawn (fb_redraw_full ?s2)" by (rule fb_redraw_full_drawn)
    then show ?thesis using CONSOLE_BACKEND_FB assms by (simp add: backend_scroll_up_def)
  qed
  then show ?thesis using d by (simp add: paints_def)
qed

end
