(* ===== verification/Console_Screen.thy ===== *)
theory Console_Screen
  imports Console_Draw
begin

text \<open>
  The console seen as a screen: every output byte keeps the console's invariant, writes only memory
  of the visible screen and leaves the pixels of a framebuffer in step with the cells.
\<close>

section \<open>The invariant\<close>

definition safe_step :: "console_state \<Rightarrow> console_state \<Rightarrow> bool" where
  "safe_step s s' \<longleftrightarrow> screen_confined s s' \<and> console_inv s' \<and>
     port_log s' = port_log s \<and> serial_initialized s' = serial_initialized s \<and> (drawn s \<longrightarrow> drawn s')"

lemma safe_step_trans: "safe_step s s' \<Longrightarrow> safe_step s' s'' \<Longrightarrow> safe_step s s''"
  unfolding safe_step_def by (auto intro: screen_confined_trans)

lemma safe_step_refl: "console_inv s \<Longrightarrow> safe_step s s"
  by (simp add: safe_step_def)

lemma draws_inv: "draws s s' \<Longrightarrow> console_inv s \<Longrightarrow> console_inv s'"
  by (simp add: console_inv_def draws_same)

lemma paints_safe:
  assumes "paints s s'" "console_inv s"
  shows "safe_step s s'"
proof -
  have d: "draws s s'" using assms(1) by (rule paints_draws)
  then have "screen_confined s s'" by (simp add: draws_def)
  then show ?thesis
    using assms draws_inv [OF d] draws_same(17,18) [OF d] by (simp add: safe_step_def paints_def)
qed

text \<open>A change of control state only: no memory and no port is written.\<close>

lemma control_safe:
  "console_inv s' \<Longrightarrow> same_geometry s s' \<Longrightarrow> vga_memory s' = vga_memory s \<Longrightarrow> fb_cells s' = fb_cells s \<Longrightarrow>
    fb_cell_colors s' = fb_cell_colors s \<Longrightarrow> fb_pixels s' = fb_pixels s \<Longrightarrow> port_log s' = port_log s \<Longrightarrow>
    serial_initialized s' = serial_initialized s \<Longrightarrow> safe_step s s'"
  by (simp add: safe_step_def screen_confined_def drawn_if_equal)

lemma control_then_safe:
  "safe_step s' t \<Longrightarrow> same_geometry s s' \<Longrightarrow> vga_memory s' = vga_memory s \<Longrightarrow> fb_cells s' = fb_cells s \<Longrightarrow>
    fb_cell_colors s' = fb_cell_colors s \<Longrightarrow> fb_pixels s' = fb_pixels s \<Longrightarrow> port_log s' = port_log s \<Longrightarrow>
    serial_initialized s' = serial_initialized s \<Longrightarrow> safe_step s t"
  using drawn_if_equal [of s s'] by (simp add: safe_step_def screen_confined_def same_geometry_def)

text \<open>The invariant with the cursor possibly one row below the screen, as before scrolling.\<close>

definition scroll_ready :: "console_state \<Rightarrow> bool" where
  "scroll_ready s \<longleftrightarrow> cursor_row s \<le> term_rows s \<and> console_inv (s\<lparr>cursor_row := 0\<rparr>)"

lemma scroll_if_needed_safe:
  assumes "scroll_ready s"
  shows "safe_step s (scroll_if_needed s)"
proof (cases "cursor_row s < term_rows s")
  case True
  then show ?thesis
    using assms by (auto simp: scroll_if_needed_def scroll_ready_def console_inv_def safe_step_def)
next
  case False
  have b: "0 < term_rows s" "term_rows s < 2 ^ 64"
    using assms by (auto simp: scroll_ready_def console_inv_def)
  define s' where "s' = backend_scroll_up (current_vga_color s) s"
  have p: "paints s s'" unfolding s'_def by (rule backend_scroll_up_paints [OF b])
  then have d: "draws s s'" by (rule paints_draws)
  then have "scroll_ready s'"
    using assms by (simp add: scroll_ready_def console_inv_def draws_same)
  then have "console_inv (s'\<lparr>cursor_row := term_rows s - 1\<rparr>)"
    using b draws_same(2) [OF d] by (simp add: scroll_ready_def console_inv_def)
  moreover have "screen_confined s (s'\<lparr>cursor_row := term_rows s - 1\<rparr>)"
    using d by (simp add: draws_def screen_confined_def same_geometry_def)
  ultimately show ?thesis
    using False b p draws_same(17,18) [OF d]
    by (simp add: scroll_if_needed_def Let_def s'_def safe_step_def paints_def drawn_control)
qed

lemma raw_newline_safe: "console_inv s \<Longrightarrow> safe_step s (raw_newline s)"
proof -
  assume i: "console_inv s"
  let ?s1 = "s\<lparr>cursor_col := 0, cursor_row := Suc (cursor_row s)\<rparr>"
  have "scroll_ready ?s1" using i by (auto simp: scroll_ready_def console_inv_def)
  from scroll_if_needed_safe [OF this] have "safe_step s (scroll_if_needed ?s1)"
    by (rule control_then_safe) (simp_all add: same_geometry_def)
  moreover have "raw_newline s = scroll_if_needed ?s1"
    using i by (simp add: raw_newline_def console_inv_def)
  ultimately show ?thesis by simp
qed

definition advance :: "console_state \<Rightarrow> console_state" where
  "advance s = (if Suc (cursor_col s) \<ge> term_cols s
     then s\<lparr>cursor_col := 0, cursor_row := Suc (cursor_row s)\<rparr>
     else s\<lparr>cursor_col := Suc (cursor_col s)\<rparr>)"

lemma raw_put_visible_eq:
  assumes "console_inv s"
  shows "raw_put_visible c s =
    scroll_if_needed (advance (backend_put_cell (cursor_row s) (cursor_col s) c (current_vga_color s) s))"
proof -
  have i: "console_inv (backend_put_cell (cursor_row s) (cursor_col s) c (current_vga_color s) s)"
    using backend_put_cell_draws assms by (rule draws_inv)
  have b: "Suc (cursor_col s') < 2 ^ 64" "Suc (cursor_row s') < 2 ^ 64" if "console_inv s'" for s'
    using that by (auto simp: console_inv_def)
  show ?thesis
    using b [OF i] by (simp add: raw_put_visible_def advance_def Let_def)
qed

lemma raw_put_visible_safe: "console_inv s \<Longrightarrow> safe_step s (raw_put_visible c s)"
proof -
  assume i: "console_inv s"
  define s1 where "s1 = backend_put_cell (cursor_row s) (cursor_col s) c (current_vga_color s) s"
  have d: "draws s s1" unfolding s1_def by (rule backend_put_cell_draws)
  have i1: "console_inv s1" using d i by (rule draws_inv)
  then have "scroll_ready (advance s1)"
    by (auto simp: advance_def scroll_ready_def console_inv_def)
  from scroll_if_needed_safe [OF this] have "safe_step s1 (scroll_if_needed (advance s1))"
    by (rule control_then_safe) (simp_all add: same_geometry_def advance_def)
  moreover have "safe_step s s1" unfolding s1_def using backend_put_cell_paints i by (rule paints_safe)
  ultimately have "safe_step s (scroll_if_needed (advance s1))" by (blast intro: safe_step_trans)
  then show ?thesis using i by (simp add: raw_put_visible_eq s1_def)
qed

lemma safe_for_range:
  assumes "console_inv s" "\<And>i s'. lo \<le> i \<Longrightarrow> i < hi \<Longrightarrow> console_inv s' \<Longrightarrow> safe_step s' (body i s')"
  shows "safe_step s (for_range lo hi body s)"
proof (rule for_range_inv)
  show "safe_step s s" using assms(1) by (rule safe_step_refl)
  show "safe_step s (body i s')" if "lo \<le> i" "i < hi" "safe_step s s'" for i s'
    using that(3) by (rule safe_step_trans) (rule assms(2), use that in \<open>simp_all add: safe_step_def\<close>)
qed

lemma safe_comp: "console_inv s \<Longrightarrow> safe_step s s' \<Longrightarrow> (console_inv s' \<Longrightarrow> safe_step s' s'') \<Longrightarrow> safe_step s s''"
  by (metis safe_step_def safe_step_trans)

lemma vga_ansi_color_less: "ansi_color_to_vga c bright < 16"
proof -
  have "unat (c AND 7) < 8" using word_and_le1 [of c 7] by (simp add: word_le_nat_alt)
  then have "ansi_base_to_vga ! unat (c AND 7) \<in> set ansi_base_to_vga"
    by (intro nth_mem) (simp add: ansi_base_to_vga_def)
  moreover have "\<forall>v \<in> set ansi_base_to_vga. v < 8" by (simp add: ansi_base_to_vga_def)
  ultimately have "ansi_base_to_vga ! unat (c AND 7) < 8" by blast
  then show ?thesis
    by (auto simp: ansi_color_to_vga_def Let_def word_less_nat_alt unat_word_ariths)
qed

lemma ansi_sgr_apply_safe: "console_inv s \<Longrightarrow> safe_step s (ansi_sgr_apply code s)"
proof -
  assume i: "console_inv s"
  have fg: "ansi_fg s < 8 \<Longrightarrow> ansi_fg s + 8 < 16" "ansi_fg s \<ge> 8 \<Longrightarrow> ansi_fg s - 8 < 16"
    using i by (auto simp: console_inv_def word_less_nat_alt word_le_nat_alt unat_word_ariths unat_sub)
  show ?thesis
    by (rule control_safe)
      (use i fg in \<open>auto simp: ansi_sgr_apply_def console_inv_def same_geometry_def vga_ansi_color_less\<close>)
qed

lemma clamp_index_less: "0 < limit \<Longrightarrow> limit < 2 ^ 64 \<Longrightarrow> clamp_index limit i < limit"
  by (simp add: clamp_index_def)

lemma console_clear_safe:
  assumes "0 < term_rows s" "0 < term_cols s"
    "g_backend s = CONSOLE_BACKEND_VGA \<longrightarrow> term_rows s = VGA_HEIGHT \<and> term_cols s = VGA_WIDTH"
    "term_rows s \<le> FB_MAX_ROWS" "term_cols s \<le> FB_MAX_COLS" "length (ansi_params s) = ANSI_MAX_PARAMS"
  shows "safe_step s (console_clear s)"
proof -
  define s1 where "s1 = (ansi_reset_params (s\<lparr>ansi_fg := 15, ansi_bg := 0, ansi_parser_state := ANSI_GROUND\<rparr>))
                 \<lparr>utf8_codepoint := 0, utf8_needed := 0, utf8_total := 0\<rparr>"
  define s2 where "s2 = backend_clear_all (current_vga_color s1) s1"
  have d: "draws s1 s2" unfolding s2_def by (rule backend_clear_all_draws)
  have "console_inv (s2\<lparr>cursor_row := 0, cursor_col := 0, saved_cursor_row := 0, saved_cursor_col := 0\<rparr>)"
    using assms by (simp add: console_inv_def draws_same [OF d] s1_def ansi_reset_params_def)
  moreover have "screen_confined s1 s2" using d by (simp add: draws_def)
  then have "screen_confined s (s2\<lparr>cursor_row := 0, cursor_col := 0, saved_cursor_row := 0, saved_cursor_col := 0\<rparr>)"
    by (simp add: screen_confined_def same_geometry_def s1_def ansi_reset_params_def)
  moreover have "drawn s2" unfolding s2_def by (rule backend_clear_all_paints)
  ultimately show ?thesis
    using draws_same(17,18) [OF d]
    by (simp add: safe_step_def console_clear_def drawn_control Let_def s1_def [symmetric] s2_def [symmetric])
      (simp add: s1_def ansi_reset_params_def)
qed

lemma console_clear_drawn: "drawn (console_clear s)"
  unfolding console_clear_def Let_def drawn_control by (rule backend_clear_all_paints)

lemma console_clear_inv_safe: "console_inv s \<Longrightarrow> safe_step s (console_clear s)"
  by (rule console_clear_safe) (auto simp: console_inv_def)

lemma ansi_erase_display_safe:
  assumes "console_inv s"
  shows "safe_step s (ansi_erase_display mode s)"
proof -
  have c: "safe_step s' (clear_line_range row a b s')" if "console_inv s'" for s' row a b
    using clear_line_range_paints that by (rule paints_safe)
  have l: "safe_step s' (for_range lo hi (\<lambda>y s. clear_line_range y 0 (size_sub (term_cols s) 1) s) s')"
    if "console_inv s'" for s' lo hi
    using that by (intro safe_for_range c)
  have "safe_step s (console_clear s)"
    using assms by (rule console_clear_inv_safe)
  then show ?thesis
    unfolding ansi_erase_display_def
    using safe_step_refl [OF assms] safe_comp [OF assms c [OF assms] l] safe_comp [OF assms l [OF assms] c]
    by (simp split del: if_split) (simp)
qed

lemma ansi_erase_line_safe: "console_inv s \<Longrightarrow> safe_step s (ansi_erase_line mode s)"
  by (auto simp: ansi_erase_line_def safe_step_refl intro: paints_safe clear_line_range_paints)

lemma cursor_set_safe:
  "console_inv s \<Longrightarrow> r < term_rows s \<Longrightarrow> x < term_cols s \<Longrightarrow> safe_step s (s\<lparr>cursor_row := r, cursor_col := x\<rparr>)"
  by (rule control_safe) (auto simp: console_inv_def same_geometry_def)

lemma ansi_execute_csi_safe:
  assumes "console_inv s"
  shows "safe_step s (ansi_execute_csi final s)"
proof -
  have b: "0 < term_rows s" "term_rows s < 2 ^ 64" "0 < term_cols s" "term_cols s < 2 ^ 64"
      "cursor_row s < term_rows s" "cursor_col s < term_cols s"
    using assms by (auto simp: console_inv_def)
  have sgr: "safe_step s (for_range 0 n (\<lambda>i s. ansi_sgr_apply (ansi_params s ! i) s) s)" for n
    using assms by (intro safe_for_range ansi_sgr_apply_safe)
  have row: "safe_step s (s\<lparr>cursor_row := r\<rparr>)" if "r < term_rows s" for r
    using cursor_set_safe [OF assms that b(6)] by simp
  have col: "safe_step s (s\<lparr>cursor_col := x\<rparr>)" if "x < term_cols s" for x
    using cursor_set_safe [OF assms b(5) that] by simp
  have save: "safe_step s (s\<lparr>saved_cursor_row := r, saved_cursor_col := x\<rparr>)" for r x
    by (rule control_safe) (use assms in \<open>auto simp: console_inv_def same_geometry_def\<close>)
  note clamp = clamp_index_less [OF b(1,2)] clamp_index_less [OF b(3,4)]
  show ?thesis
    unfolding ansi_execute_csi_def Let_def
    using assms b
    by (simp add: sgr row col save clamp cursor_set_safe ansi_sgr_apply_safe ansi_erase_display_safe
        ansi_erase_line_safe safe_step_refl less_imp_diff_less)
qed

lemma console_emit_codepoint_safe: "console_inv s \<Longrightarrow> safe_step s (console_emit_codepoint cp s)"
  by (simp add: console_emit_codepoint_def safe_step_refl raw_put_visible_safe)

lemma utf8_fields_safe:
  "console_inv s \<Longrightarrow> n \<le> m \<Longrightarrow> m \<le> 3 \<Longrightarrow>
    safe_step s (s\<lparr>utf8_codepoint := cp, utf8_needed := n, utf8_total := m\<rparr>)"
  by (rule control_safe) (auto simp: console_inv_def same_geometry_def)

lemma scroll_if_needed_utf8:
  assumes "scroll_ready s"
  shows "utf8_needed (scroll_if_needed s) = utf8_needed s \<and> utf8_total (scroll_if_needed s) = utf8_total s"
proof -
  have "0 < term_rows s" "term_rows s < 2 ^ 64"
    using assms by (auto simp: scroll_ready_def console_inv_def)
  then have "draws s (backend_scroll_up (current_vga_color s) s)" by (rule backend_scroll_up_draws)
  from draws_same [OF this] show ?thesis by (simp add: scroll_if_needed_def Let_def)
qed

lemma raw_put_visible_utf8:
  assumes "console_inv s"
  shows "utf8_needed (raw_put_visible c s) = utf8_needed s"
proof -
  let ?s1 = "backend_put_cell (cursor_row s) (cursor_col s) c (current_vga_color s) s"
  have d: "draws s ?s1" by (rule backend_put_cell_draws)
  have "console_inv ?s1" using d assms by (rule draws_inv)
  then have "scroll_ready (advance ?s1)"
    by (auto simp: advance_def scroll_ready_def console_inv_def)
  from scroll_if_needed_utf8 [OF this] show ?thesis
    using draws_same(10) [OF d] assms by (simp add: raw_put_visible_eq) (simp add: advance_def)
qed

lemma console_emit_codepoint_utf8:
  "console_inv s \<Longrightarrow> utf8_needed (console_emit_codepoint cp s) = utf8_needed s"
  by (simp add: console_emit_codepoint_def raw_put_visible_utf8)

lemma console_emit_utf8_byte_safe:
  assumes i: "console_inv s"
  shows "safe_step s (console_emit_utf8_byte b s)"
proof -
  have start: "safe_step s (s\<lparr>utf8_codepoint := cp, utf8_needed := n, utf8_total := n\<rparr>)" if "n \<le> 3" for cp n
    using i that by (intro utf8_fields_safe) auto
  have reset: "safe_step s (s\<lparr>utf8_needed := 0, utf8_total := 0, utf8_codepoint := 0\<rparr>)"
    by (rule control_safe) (use i in \<open>auto simp: console_inv_def same_geometry_def\<close>)
  define s1 where "s1 = s\<lparr>utf8_codepoint := push_bit 6 (utf8_codepoint s) OR ucast (b AND 0x3F),
    utf8_needed := utf8_needed s - 1\<rparr>"
  have s1: "safe_step s s1"
    unfolding s1_def
    by (rule control_safe) (use i in \<open>auto simp: console_inv_def same_geometry_def\<close>)
  have done': "safe_step s ((console_emit_codepoint cp s1)\<lparr>utf8_total := 0, utf8_codepoint := 0\<rparr>)"
    if "utf8_needed s1 = 0" for cp
  proof -
    have i1: "console_inv s1" using s1 by (simp add: safe_step_def)
    let ?s2 = "console_emit_codepoint cp s1"
    have s2: "safe_step s1 ?s2" using i1 by (rule console_emit_codepoint_safe)
    moreover have "safe_step ?s2 (?s2\<lparr>utf8_total := 0, utf8_codepoint := 0\<rparr>)"
      by (rule control_safe)
        (use s2 console_emit_codepoint_utf8 [OF i1] that in
          \<open>simp_all add: safe_step_def console_inv_def same_geometry_def\<close>)
    ultimately show ?thesis using s1 by (blast intro: safe_step_trans)
  qed
  show ?thesis
    unfolding console_emit_utf8_byte_def Let_def s1_def [symmetric]
    using start s1 done' console_emit_codepoint_safe [OF i] safe_comp [OF i reset console_emit_codepoint_safe]
    by (simp split del: if_split) (simp)
qed

lemma console_backspace_safe:
  assumes i: "console_inv s"
  shows "safe_step s (console_backspace s)"
proof -
  define s1 where "s1 = (if cursor_col s = 0
    then s\<lparr>cursor_row := cursor_row s - 1, cursor_col := size_sub (term_cols s) 1\<rparr>
    else s\<lparr>cursor_col := cursor_col s - 1\<rparr>)"
  have s1: "safe_step s s1" unfolding s1_def
    by (rule control_safe) (use i in \<open>auto simp: console_inv_def same_geometry_def\<close>)
  have "safe_step s (backend_put_cell (cursor_row s1) (cursor_col s1) (of_char CHR '' '') (current_vga_color s1) s1)"
    using i s1 by (rule safe_comp) (rule paints_safe [OF backend_put_cell_paints])
  then show ?thesis
    unfolding console_backspace_def Let_def s1_def [symmetric] using i by (simp add: safe_step_refl)
qed

lemma console_handle_ground_byte_safe:
  assumes i: "console_inv s"
  shows "safe_step s (console_handle_ground_byte b s)"
proof -
  have esc: "safe_step s (s\<lparr>ansi_parser_state := ANSI_ESC\<rparr>)" "safe_step s (s\<lparr>cursor_col := 0\<rparr>)"
    by (rule control_safe; use i in \<open>simp add: console_inv_def same_geometry_def\<close>)+
  have tab: "safe_step s (for_range 0 n (\<lambda>_. raw_put_visible c) s)" for n c
    using i by (intro safe_for_range raw_put_visible_safe)
  show ?thesis
    unfolding console_handle_ground_byte_def
    using i by (simp add: esc tab safe_step_refl raw_newline_safe console_backspace_safe
        raw_put_visible_safe console_emit_utf8_byte_safe)
qed

lemma ansi_push_current_param_safe: "console_inv s \<Longrightarrow> safe_step s (ansi_push_current_param s)"
  by (rule control_safe) (auto simp: ansi_push_current_param_def console_inv_def same_geometry_def)

lemma parser_state_safe:
  "console_inv s \<Longrightarrow> safe_step s (s\<lparr>ansi_parser_state := st\<rparr>)"
  "console_inv s \<Longrightarrow> safe_step s (ansi_reset_params s)"
  "console_inv s \<Longrightarrow> safe_step s (s\<lparr>ansi_param_current := v, ansi_param_active := True\<rparr>)"
  by (rule control_safe; simp add: console_inv_def same_geometry_def ansi_reset_params_def)+

lemma console_csi_byte_safe:
  assumes i: "console_inv s"
  shows "safe_step s (console_csi_byte b s)"
proof -
  note [simp] = parser_state_safe(1,3) [OF i] ansi_push_current_param_safe [OF i]
  define s1 where "s1 = ansi_execute_csi b (ansi_push_current_param s)"
  have s1: "safe_step s s1" unfolding s1_def
    by (rule safe_comp [OF i ansi_push_current_param_safe [OF i] ansi_execute_csi_safe])
  have "safe_step s (s1\<lparr>ansi_parser_state := ANSI_GROUND\<rparr>)"
    by (rule safe_comp [OF i s1 parser_state_safe(1)])
  from safe_comp [OF i this parser_state_safe(2)]
  show ?thesis unfolding console_csi_byte_def s1_def by simp
qed

text \<open>The copy of an output byte on the serial port.\<close>

definition serial_bytes :: "u8 \<Rightarrow> (u16 \<times> u8) list" where
  "serial_bytes c = (if c = 0x0A then [(COM1_PORT, 0x0D), (COM1_PORT, c)] else [(COM1_PORT, c)])"

definition serial_out :: "u8 \<Rightarrow> console_state \<Rightarrow> console_state" where
  "serial_out c s = s\<lparr>port_log := port_log s @ (if serial_initialized s then serial_bytes c else [])\<rparr>"

lemma console_putc_eq:
  "console_putc c s =
     (case ansi_parser_state s of
        ANSI_GROUND \<Rightarrow> console_handle_ground_byte c (serial_out c s)
      | ANSI_ESC \<Rightarrow>
          if c = of_char CHR ''['' then ansi_reset_params ((serial_out c s)\<lparr>ansi_parser_state := ANSI_CSI\<rparr>)
          else console_handle_ground_byte c ((serial_out c s)\<lparr>ansi_parser_state := ANSI_GROUND\<rparr>)
      | ANSI_CSI \<Rightarrow> console_csi_byte c (serial_out c s))"
proof -
  have "serial_write_char c (if c = 0x0A then serial_write_char 0x0D s else s) = serial_out c s"
    by (simp add: serial_write_char_def serial_out_def serial_bytes_def outb_def)
  moreover have "ansi_parser_state (serial_out c s) = ansi_parser_state s" by (simp add: serial_out_def)
  ultimately show ?thesis by (simp only: console_putc_def Let_def)
qed

lemma serial_out_inv: "console_inv s \<Longrightarrow> console_inv (serial_out c s)"
  by (simp add: serial_out_def console_inv_def)

lemma console_putc_safe:
  assumes i: "console_inv s"
  shows "safe_step (serial_out c s) (console_putc c s)"
proof -
  note i2 = serial_out_inv [OF i, of c]
  let ?s2 = "serial_out c s"
  have "safe_step ?s2 (ansi_reset_params (?s2\<lparr>ansi_parser_state := ANSI_CSI\<rparr>))"
    by (rule safe_comp [OF i2 parser_state_safe(1) [OF i2] parser_state_safe(2)])
  moreover have "safe_step ?s2 (console_handle_ground_byte c (?s2\<lparr>ansi_parser_state := ANSI_GROUND\<rparr>))"
    by (rule safe_comp [OF i2 parser_state_safe(1) [OF i2] console_handle_ground_byte_safe])
  ultimately show ?thesis
    unfolding console_putc_eq
    using i2 by (auto simp: console_handle_ground_byte_safe console_csi_byte_safe split: ansi_state.split)
qed

lemma console_putc_confined:
  assumes "console_inv s"
  shows "console_inv (console_putc c s) \<and> screen_confined s (console_putc c s)"
    and "drawn s \<Longrightarrow> drawn (console_putc c s)"
  using console_putc_safe [OF assms, of c]
  by (auto simp: safe_step_def screen_confined_def same_geometry_def serial_out_def drawn_control)

interpretation console_machine: invariant_machine console_putc "\<lambda>s'. console_inv s' \<and> screen_confined s s'" for s
  by unfold_locales (use console_putc_confined in \<open>auto intro: screen_confined_trans\<close>)

interpretation drawn_machine: invariant_machine console_putc "\<lambda>s. console_inv s \<and> drawn s"
  by unfold_locales (use console_putc_confined in auto)

section \<open>From boot on\<close>

lemma console_init_inv:
  assumes "length (ansi_params s) = ANSI_MAX_PARAMS"
  shows "console_inv (console_init s)" "g_backend (console_init s) = CONSOLE_BACKEND_VGA"
proof -
  let ?s1 = "(serial_init s)\<lparr>g_backend := CONSOLE_BACKEND_VGA, term_cols := VGA_WIDTH, term_rows := VGA_HEIGHT\<rparr>"
  have "safe_step ?s1 (console_clear ?s1)"
    by (rule console_clear_safe) (simp_all add: serial_init_def outb_def assms)
  then show "console_inv (console_init s)" "g_backend (console_init s) = CONSOLE_BACKEND_VGA"
    by (auto simp: console_init_def safe_step_def screen_confined_def same_geometry_def)
qed

text \<open>The framebuffer state \<^verbatim>\<open>console_enable_framebuffer\<close> clears the screen in.\<close>

definition fb_start :: "video_framebuffer_info \<Rightarrow> console_state \<Rightarrow> console_state" where
  "fb_start fb s = s\<lparr>fb_memory := fb_phys_addr fb, fb_width := fb_info_width fb,
     fb_height := fb_info_height fb, fb_pitch_pixels := fb_info_pitch fb div 4,
     term_cols := min FB_MAX_COLS (unat (fb_info_width fb div 8)),
     term_rows := min FB_MAX_ROWS (unat (fb_info_height fb div 16)), g_backend := CONSOLE_BACKEND_FB\<rparr>"

lemma console_enable_framebuffer_cases:
  assumes "console_enable_framebuffer fb s = (ok, s')"
  shows "if ok then s' = console_clear (fb_start fb s) \<and> 8 \<le> fb_info_width fb \<and> 16 \<le> fb_info_height fb
           \<and> fb_info_pitch fb mod 4 = 0
         else s' = s"
proof (cases "8 \<le> fb_info_width fb \<and> 16 \<le> fb_info_height fb")
  case True
  then have "unat (fb_info_width fb div 8) \<noteq> 0" "unat (fb_info_height fb div 16) \<noteq> 0"
    by (auto simp: unat_div word_le_nat_alt div_eq_0_iff)
  then show ?thesis
    using assms True
    by (auto simp: console_enable_framebuffer_def fb_start_def Let_def min_def not_le split: if_splits)
next
  case False
  then show ?thesis
    using assms by (auto simp: console_enable_framebuffer_def not_le)
qed

lemma fb_start_clear_safe:
  assumes "length (ansi_params s) = ANSI_MAX_PARAMS" "8 \<le> fb_info_width fb" "16 \<le> fb_info_height fb"
  shows "safe_step (fb_start fb s) (console_clear (fb_start fb s))"
proof (rule console_clear_safe)
  show "0 < term_rows (fb_start fb s)" "0 < term_cols (fb_start fb s)"
    using assms by (auto simp: fb_start_def unat_div word_le_nat_alt div_greater_zero_iff)
qed (simp_all add: fb_start_def assms)

lemma console_enable_framebuffer_inv:
  assumes "console_inv s" "console_enable_framebuffer fb s = (ok, s')"
  shows "console_inv s'"
  using console_enable_framebuffer_cases [OF assms(2)] fb_start_clear_safe [of s fb] assms(1)
  by (auto simp: safe_step_def console_inv_def split: if_splits)

lemma pixel_in_framebuffer:
  assumes "x < w" "y < h" "w \<le> pitch" "unat h * unat pitch < 2 ^ 32"
  shows "unat (y * pitch + x :: u32) < unat h * unat pitch"
proof -
  have "unat y * unat pitch + unat x < unat h * unat pitch"
    using assms by (intro grid_index) (simp_all add: word_less_nat_alt word_le_nat_alt)
  then show ?thesis
    using assms(4) by (simp add: unat_word_ariths)
qed

text \<open>
  C19: Whatever bytes are written to the console after boot, before and after the switch to the
  framebuffer, the cursor stays on the screen, the parameter buffer and the UTF-8 decoder stay in
  their bounds, and the colours stay 4 bits wide.
\<close>

theorem console_boot_safe:
  assumes "length (ansi_params s) = ANSI_MAX_PARAMS"
  shows "console_inv (fold console_putc bs' (snd (console_enable_framebuffer fb
           (fold console_putc bs (console_init s)))))"
proof -
  let ?s1 = "fold console_putc bs (console_init s)"
  have "console_inv ?s1"
    using console_machine.run_inv [of "console_init s" "console_init s" bs] console_init_inv [OF assms] by simp
  then have "console_inv (snd (console_enable_framebuffer fb ?s1))"
    by (rule console_enable_framebuffer_inv) (rule surjective_pairing)
  then show ?thesis
    using console_machine.run_inv [of _ _ bs'] by (meson screen_confined_refl)
qed

text \<open>
  C12: Framebuffer memory safety: when the boot loader's geometry is sound (a scan line holds the
  pixels of a row, and the frame has less than \<open>2 ^ 32\<close> pixels), no output byte changes VGA text
  memory, a cell outside the cell arrays, or a pixel word beyond the framebuffer.
\<close>

theorem framebuffer_writes_in_bounds:
  assumes "console_inv s" "console_enable_framebuffer fb s = (True, s')"
    and "fb_info_width fb \<le> fb_info_pitch fb div 4"
    and "unat (fb_info_height fb) * unat (fb_info_pitch fb div 4) < 2 ^ 32"
    and "t = fold console_putc bs s'"
  shows "vga_memory t = vga_memory s \<and>
    (\<forall>r x. fb_cells t r x \<noteq> fb_cells s r x \<or> fb_cell_colors t r x \<noteq> fb_cell_colors s r x \<longrightarrow>
       r < FB_MAX_ROWS \<and> x < FB_MAX_COLS) \<and>
    (\<forall>p. fb_pixels t p \<noteq> fb_pixels s p \<longrightarrow> p < unat (fb_info_height fb) * unat (fb_info_pitch fb div 4))"
proof -
  note c = console_enable_framebuffer_cases [OF assms(2), simplified]
  have "safe_step (fb_start fb s) s'"
    using c fb_start_clear_safe [of s fb] assms(1) by (auto simp: console_inv_def)
  then have "screen_confined (fb_start fb s) t"
    using console_machine.run_inv [of s' "fb_start fb s" bs] assms(5) by (auto simp: safe_step_def)
  then have k: "vga_memory t = vga_memory s"
      "\<forall>r x. fb_cells t r x \<noteq> fb_cells s r x \<or> fb_cell_colors t r x \<noteq> fb_cell_colors s r x \<longrightarrow>
         r < FB_MAX_ROWS \<and> x < FB_MAX_COLS"
      "\<forall>p. fb_pixels t p \<noteq> fb_pixels s p \<longrightarrow> (\<exists>x y. x < fb_info_width fb \<and> y < fb_info_height fb \<and>
         p = unat (y * (fb_info_pitch fb div 4) + x))"
    by (auto simp: fb_start_def screen_confined_def)
  have "p < unat (fb_info_height fb) * unat (fb_info_pitch fb div 4)" if "fb_pixels t p \<noteq> fb_pixels s p" for p
    using k(3) that assms(3,4) by (auto intro!: pixel_in_framebuffer)
  with k(1,2) show ?thesis by blast
qed

definition fb_1024x768 :: video_framebuffer_info where
  "fb_1024x768 = \<lparr>fb_present = True, fb_mapped = True, fb_phys_addr = 0xFD000000, fb_size_bytes = 0x300000,
     fb_info_width = 1024, fb_info_height = 768, fb_info_pitch = 4096, fb_bpp = 32,
     fb_type = VIDEO_FB_TYPE_RGB, fb_red_pos = 16, fb_red_size = 8, fb_green_pos = 8, fb_green_size = 8,
     fb_blue_pos = 0, fb_blue_size = 8\<rparr>"

definition console_zero :: console_state where
  "console_zero = \<lparr>g_backend = CONSOLE_BACKEND_VGA, term_cols = VGA_WIDTH, term_rows = VGA_HEIGHT,
     cursor_row = 0, cursor_col = 0, saved_cursor_row = 0, saved_cursor_col = 0,
     serial_initialized = False, ansi_fg = 15, ansi_bg = 0, ansi_parser_state = ANSI_GROUND,
     ansi_params = replicate ANSI_MAX_PARAMS 0, ansi_param_count = 0, ansi_param_current = 0,
     ansi_param_active = False, utf8_codepoint = 0, utf8_needed = 0, utf8_total = 0,
     fb_memory = 0, fb_width = 0, fb_height = 0, fb_pitch_pixels = 0, fb_pixels = \<lambda>_. 0,
     fb_cells = \<lambda>_ _. 0, fb_cell_colors = \<lambda>_ _. 0, vga_memory = \<lambda>_. 0, port_log = []\<rparr>"

lemma console_zero_inv [simp]: "console_inv console_zero"
  by (simp add: console_inv_def console_zero_def)

lemma console_boot_safe_witness:
  "console_inv (fold console_putc (bytes ''OK'') (snd (console_enable_framebuffer fb_1024x768
     (fold console_putc (bytes ''boot'') (console_init console_zero)))))"
  by (rule console_boot_safe) (simp add: console_zero_def)

lemma framebuffer_writes_in_bounds_witness:
  "fb_pixels (fold console_putc (bytes ''OK'') (snd (console_enable_framebuffer fb_1024x768 console_zero)))
     (768 * 1024) = 0 \<and>
   vga_memory (fold console_putc (bytes ''OK'') (snd (console_enable_framebuffer fb_1024x768 console_zero))) 0 = 0"
proof -
  let ?s = "snd (console_enable_framebuffer fb_1024x768 console_zero)"
  have "console_enable_framebuffer fb_1024x768 console_zero = (True, ?s)"
    by (simp add: console_enable_framebuffer_def fb_1024x768_def console_zero_def Let_def)
  note b = framebuffer_writes_in_bounds [OF console_zero_inv this, of _ "bytes ''OK''"]
  have "vga_memory console_zero 0 = 0" "fb_pixels console_zero (768 * 1024) = 0" by (simp_all add: console_zero_def)
  then show ?thesis
    using b [OF _ _ refl, THEN conjunct1] b [OF _ _ refl, THEN conjunct2, THEN conjunct2, THEN spec, of "768 * 1024"]
    by (simp add: fb_1024x768_def)
qed

end
