(* ===== verification/Utf8.thy ===== *)
theory Utf8
  imports Prelude
begin

unbundle bit_operations_syntax

text \<open>
  Bit-level facts on UTF-8 lead and continuation bytes, as the keyboard driver builds them and the
  console takes them apart.
\<close>

lemma push_drop_or: "push_bit n (drop_bit n a) OR (a AND mask n) = (a :: 'a :: len word)"
  by (rule bit_word_eqI) (auto simp: bit_simps)

lemma lead_byte:
  assumes "(x :: u32) AND mask k = x" "k \<le> 8"
  shows "(ucast x :: u8) AND mask k = ucast x" "ucast (ucast x :: u8) = x"
proof -
  have b: "n < k" if "bit x n" for n
    using assms(1) that by (metis bit_and_iff bit_mask_iff)
  show "(ucast x :: u8) AND mask k = ucast x"
    by (rule bit_word_eqI) (auto simp: bit_simps dest: b)
  show "ucast (ucast x :: u8) = x"
    using assms(2) by (intro bit_word_eqI) (auto simp: bit_simps dest: b)
qed

lemma prefix_byte:
  assumes "(x :: u32) AND mask k = x" "k \<le> 8"
  shows "ucast (c OR x) AND m = (ucast c AND m) OR (ucast x AND (mask k AND m :: u8))"
    "ucast (ucast x AND mask k :: u8) = x"
proof -
  show "ucast (c OR x) AND m = (ucast c AND m) OR (ucast x AND (mask k AND m :: u8))"
    by (metis lead_byte(1) [OF assms] and.assoc bit.conj_disj_distrib2 unsigned_or_eq)
  show "ucast (ucast x AND mask k :: u8) = x" by (simp add: lead_byte [OF assms])
qed

lemma utf8_lead_2: 
  assumes "x < 2 ^ 5"
  shows "(ucast (0xC0 OR x :: u32) :: u8) AND 0xE0 = 0xC0" "ucast ((ucast (0xC0 OR x) :: u8) AND 0x1F) = x"
proof -
  have m: "x AND mask 5 = x" using assms by (subst word_less_2p_iff [symmetric]) auto
  show "(ucast (0xC0 OR x :: u32) :: u8) AND 0xE0 = 0xC0" "ucast ((ucast (0xC0 OR x) :: u8) AND 0x1F) = x"
    using prefix_byte(2) [OF m] by (simp_all add: prefix_byte(1) [OF m] mask_eq_exp_minus_1)
qed

lemma utf8_lead_3: 
  assumes "x < 2 ^ 4"
  shows "(ucast (0xE0 OR x :: u32) :: u8) AND 0xE0 = 0xE0" "(ucast (0xE0 OR x :: u32) :: u8) AND 0xF0 = 0xE0"
    "ucast ((ucast (0xE0 OR x) :: u8) AND 0x0F) = x"
proof -
  have m: "x AND mask 4 = x" using assms by (subst word_less_2p_iff [symmetric]) auto
  show "(ucast (0xE0 OR x :: u32) :: u8) AND 0xE0 = 0xE0" "(ucast (0xE0 OR x :: u32) :: u8) AND 0xF0 = 0xE0"
    "ucast ((ucast (0xE0 OR x) :: u8) AND 0x0F) = x"
    using prefix_byte(2) [OF m] by (simp_all add: prefix_byte(1) [OF m] mask_eq_exp_minus_1)
qed

lemma utf8_lead_4: 
  assumes "x < 2 ^ 3"
  shows "(ucast (0xF0 OR x :: u32) :: u8) AND 0xE0 = 0xE0" "(ucast (0xF0 OR x :: u32) :: u8) AND 0xF0 = 0xF0"
    "(ucast (0xF0 OR x :: u32) :: u8) AND 0xF8 = 0xF0" "ucast ((ucast (0xF0 OR x) :: u8) AND 0x07) = x"
proof -
  have m: "x AND mask 3 = x" using assms by (subst word_less_2p_iff [symmetric]) auto
  show "(ucast (0xF0 OR x :: u32) :: u8) AND 0xE0 = 0xE0" "(ucast (0xF0 OR x :: u32) :: u8) AND 0xF0 = 0xF0"
    "(ucast (0xF0 OR x :: u32) :: u8) AND 0xF8 = 0xF0" "ucast ((ucast (0xF0 OR x) :: u8) AND 0x07) = x"
    using prefix_byte(2) [OF m] by (simp_all add: prefix_byte(1) [OF m] mask_eq_exp_minus_1)
qed

lemma utf8_cont: 
  "(ucast (0x80 OR (x AND 0x3F) :: u32) :: u8) AND 0xC0 = 0x80"
  "ucast ((ucast (0x80 OR (x AND 0x3F)) :: u8) AND 0x3F) = x AND (0x3F :: u32)"
proof -
  have m: "(x AND 0x3F) AND mask 6 = x AND 0x3F" by (simp add: mask_eq_exp_minus_1 and.assoc)
  show "(ucast (0x80 OR (x AND 0x3F) :: u32) :: u8) AND 0xC0 = 0x80"
    "ucast ((ucast (0x80 OR (x AND 0x3F)) :: u8) AND 0x3F) = x AND (0x3F :: u32)"
    using prefix_byte(2) [OF m] by (simp_all add: prefix_byte(1) [OF m] mask_eq_exp_minus_1)
qed
end
