(* ===== verification/Console_Text.thy ===== *)
theory Console_Text
  imports Console_Screen Keyboard Utf8
begin

unbundle bit_operations_syntax

text \<open>
  What the console shows. The backend operations are refined to operations on the list of screen
  rows; from that follow the text written by a run of printable bytes, scrolling, the equivalence
  of the two backends, the treatment of UTF-8 and the printing of numbers.
\<close>

section \<open>Backend operations on the rows of the screen\<close>

abbreviation blank_row :: "u8 \<Rightarrow> nat \<Rightarrow> (u8 \<times> u8) list" where
  "blank_row color n \<equiv> replicate n (of_char CHR '' '', color)"

lemma vga_entry_cell:
  assumes "c < 0x80"
  shows "ucast (vga_entry c color) = c" "ucast (drop_bit 8 (vga_entry c color)) = color"
proof -
  have c: "\<not> bit c n" if "7 \<le> n" for n
  proof -
    have "c AND mask 7 = c" using assms word_less_2p_iff [of 7 c] by simp
    then show ?thesis using that by (metis bit_and_iff bit_mask_iff not_le)
  qed
  show "ucast (vga_entry c color) = c"
    by (rule bit_word_eqI) (auto simp: vga_entry_def bit_simps)
  show "ucast (drop_bit 8 (vga_entry c color)) = color"
    by (rule bit_word_eqI) (auto simp: vga_entry_def bit_simps c)
qed

lemma screen_cells_control [simp]:
  "screen_cells (s\<lparr>cursor_row := a\<rparr>) = screen_cells s" "screen_cells (s\<lparr>cursor_col := a\<rparr>) = screen_cells s"
  "screen_cells (s\<lparr>saved_cursor_row := a\<rparr>) = screen_cells s" "screen_cells (s\<lparr>saved_cursor_col := a\<rparr>) = screen_cells s"
  "screen_cells (s\<lparr>serial_initialized := b\<rparr>) = screen_cells s" "screen_cells (s\<lparr>ansi_fg := c\<rparr>) = screen_cells s"
  "screen_cells (s\<lparr>ansi_bg := c\<rparr>) = screen_cells s" "screen_cells (s\<lparr>ansi_parser_state := p\<rparr>) = screen_cells s"
  "screen_cells (s\<lparr>ansi_params := ps\<rparr>) = screen_cells s" "screen_cells (s\<lparr>ansi_param_count := a\<rparr>) = screen_cells s"
  "screen_cells (s\<lparr>ansi_param_current := i\<rparr>) = screen_cells s" "screen_cells (s\<lparr>ansi_param_active := b\<rparr>) = screen_cells s"
  "screen_cells (s\<lparr>utf8_codepoint := w\<rparr>) = screen_cells s" "screen_cells (s\<lparr>utf8_needed := a\<rparr>) = screen_cells s"
  "screen_cells (s\<lparr>utf8_total := a\<rparr>) = screen_cells s" "screen_cells (s\<lparr>port_log := l\<rparr>) = screen_cells s"
  by (simp_all add: screen_cells_def cell_def cong: console_backend.case_cong)

lemma screen_cells_eqI:
  assumes "term_rows s' = n" "term_cols s' = m" "length rows = n"
    "\<And>r. r < n \<Longrightarrow> length (rows ! r) = m \<and> (\<forall>x < m. cell s' r x = rows ! r ! x)"
  shows "screen_cells s' = rows"
  using assms by (auto intro!: nth_equalityI simp: screen_cells_def)

lemma screen_cells_nth:
  "r < term_rows s \<Longrightarrow> x < term_cols s \<Longrightarrow> screen_cells s ! r ! x = cell s r x"
  "length (screen_cells s) = term_rows s" "r < term_rows s \<Longrightarrow> length (screen_cells s ! r) = term_cols s"
  by (simp_all add: screen_cells_def)

lemma backend_put_cell_screen:
  assumes "row < term_rows s" "col < term_cols s" "c < 0x80"
  shows "screen_cells (backend_put_cell row col c color s) =
    (screen_cells s)[row := (screen_cells s ! row)[col := (c, color)]]"
proof (rule screen_cells_eqI [where n = "term_rows s" and m = "term_cols s"])
  note d = draws_same [OF backend_put_cell_draws [of s row col c color]]
  show "term_rows (backend_put_cell row col c color s) = term_rows s"
    "term_cols (backend_put_cell row col c color s) = term_cols s" by (rule d)+
  show "length ((screen_cells s)[row := (screen_cells s ! row)[col := (c, color)]]) = term_rows s"
    by (simp add: screen_cells_nth)
  fix r assume r: "r < term_rows s"
  have "cell (backend_put_cell row col c color s) r x = (if r = row \<and> x = col then (c, color) else cell s r x)"
    if "x < term_cols s" for x
    using assms that d(1-3)
    by (auto simp: cell_def backend_put_cell_def vga_put_def vga_entry_cell fb_set_cell_def grid_index_inj
        split: console_backend.split)
  then show "length ((screen_cells s)[row := (screen_cells s ! row)[col := (c, color)]] ! r) = term_cols s \<and>
      (\<forall>x<term_cols s. cell (backend_put_cell row col c color s) r x =
        (screen_cells s)[row := (screen_cells s ! row)[col := (c, color)]] ! r ! x)"
    using r assms by (auto simp: nth_list_update screen_cells_nth)
qed

text \<open>Filling the screen and moving it up, on the linear VGA memory and on the cell arrays.\<close>

lemma vga_put_simps [simp]:
  "vga_memory (vga_put i e s) = (vga_memory s)(i := e)" "term_cols (vga_put i e s) = term_cols s"
  "term_rows (vga_put i e s) = term_rows s" "g_backend (vga_put i e s) = g_backend s"
  by (simp_all add: vga_put_def)

lemma vga_fill_row:
  "vga_memory (for_range 0 k (\<lambda>x s. vga_put (a * term_cols s + x) e s) s) =
     (\<lambda>i. if a * term_cols s \<le> i \<and> i < a * term_cols s + k then e else vga_memory s i) \<and>
   term_cols (for_range 0 k (\<lambda>x s. vga_put (a * term_cols s + x) e s) s) = term_cols s"
  by (induction k) (auto simp: fun_eq_iff)

lemma vga_fill_rows:
  "term_cols s = m \<Longrightarrow>
   vga_memory (for_range 0 n (\<lambda>y. for_range 0 m (\<lambda>x s. vga_put (y * term_cols s + x) e s)) s) =
     (\<lambda>i. if i < n * m then e else vga_memory s i) \<and>
   term_cols (for_range 0 n (\<lambda>y. for_range 0 m (\<lambda>x s. vga_put (y * term_cols s + x) e s)) s) = m"
proof (induction n)
  case (Suc n)
  let ?s = "for_range 0 n (\<lambda>y. for_range 0 m (\<lambda>x s. vga_put (y * term_cols s + x) e s)) s"
  show ?case using vga_fill_row [of m n e ?s] Suc by (auto simp: fun_eq_iff)
qed simp

lemma vga_copy_row:
  "vga_memory (for_range 0 k (\<lambda>x s. vga_put (a * term_cols s + x) (vga_memory s (Suc a * term_cols s + x)) s) s) =
     (\<lambda>i. if a * term_cols s \<le> i \<and> i < a * term_cols s + k then vga_memory s (i + term_cols s)
          else vga_memory s i) \<and>
   term_cols (for_range 0 k (\<lambda>x s. vga_put (a * term_cols s + x) (vga_memory s (Suc a * term_cols s + x)) s) s)
     = term_cols s" if "k \<le> term_cols s"
  using that
proof (induction k)
  case (Suc k)
  have "\<not> (term_cols s + (a * term_cols s + k) < a * term_cols s + k)" by simp
  then show ?case using Suc by (auto simp: fun_eq_iff add.commute add.left_commute)
qed (auto simp: fun_eq_iff)

lemma vga_shift_rows_memory:
  assumes "g_backend s = CONSOLE_BACKEND_VGA" "0 < term_rows s"
  shows "vga_memory (vga_shift_rows s) =
    (\<lambda>i. if i < (term_rows s - 1) * term_cols s then vga_memory s (i + term_cols s) else vga_memory s i)"
proof -
  let ?body = "\<lambda>y. for_range 0 (term_cols s) (\<lambda>x s.
     vga_put ((y - 1) * term_cols s + x) (vga_memory s (y * term_cols s + x)) s)"
  have "vga_memory (for_range 1 (Suc n) ?body s) =
      (\<lambda>i. if i < n * term_cols s then vga_memory s (i + term_cols s) else vga_memory s i) \<and>
      term_cols (for_range 1 (Suc n) ?body s) = term_cols s" for n
  proof (induction n)
    case (Suc n)
    let ?s = "for_range 1 (Suc n) ?body s"
    have "for_range 1 (Suc (Suc n)) ?body s = ?body (Suc n) ?s" by simp
    moreover have "\<not> (i + term_cols s < n * term_cols s)" if "\<not> i < n * term_cols s" for i
      using that by simp
    ultimately show ?case
      using vga_copy_row [of "term_cols s" ?s n] Suc by (auto simp: fun_eq_iff)
  qed simp
  from this [of "term_rows s - 1"] show ?thesis using assms by (simp add: vga_shift_rows_def)
qed

lemma fb_shift_rows_cells:
  assumes "0 < term_rows s"
  shows "fb_cells (fb_shift_rows s) = (\<lambda>r x. if r < term_rows s - 1 \<and> x < term_cols s
      then fb_cells s (Suc r) x else fb_cells s r x)"
    and "fb_cell_colors (fb_shift_rows s) = (\<lambda>r x. if r < term_rows s - 1 \<and> x < term_cols s
      then fb_cell_colors s (Suc r) x else fb_cell_colors s r x)"
proof -
  have "fb_cells (for_range 1 (Suc n) fb_shift_row s) =
        (\<lambda>r x. if r < n \<and> x < term_cols s then fb_cells s (Suc r) x else fb_cells s r x) \<and>
      fb_cell_colors (for_range 1 (Suc n) fb_shift_row s) =
        (\<lambda>r x. if r < n \<and> x < term_cols s then fb_cell_colors s (Suc r) x else fb_cell_colors s r x) \<and>
      term_cols (for_range 1 (Suc n) fb_shift_row s) = term_cols s" for n
    by (induction n) (auto simp: fb_shift_row_def row_memcpy_def fun_eq_iff)
  from this [of "term_rows s - 1"] show
    "fb_cells (fb_shift_rows s) = (\<lambda>r x. if r < term_rows s - 1 \<and> x < term_cols s
      then fb_cells s (Suc r) x else fb_cells s r x)"
    "fb_cell_colors (fb_shift_rows s) = (\<lambda>r x. if r < term_rows s - 1 \<and> x < term_cols s
      then fb_cell_colors s (Suc r) x else fb_cell_colors s r x)"
    using assms by (simp_all add: fb_shift_rows_def)
qed

lemma fb_fill_row:
  "fb_cells (for_range 0 k (\<lambda>x s. fb_set_cell row x c color s) s) =
     (\<lambda>r x. if r = row \<and> x < k then c else fb_cells s r x) \<and>
   fb_cell_colors (for_range 0 k (\<lambda>x s. fb_set_cell row x c color s) s) =
     (\<lambda>r x. if r = row \<and> x < k then color else fb_cell_colors s r x)"
  by (induction k) (auto simp: fb_set_cell_def fun_eq_iff)

lemma fb_fill_rows:
  "fb_cells (for_range 0 n (\<lambda>y. for_range 0 k (\<lambda>x s. fb_set_cell y x c color s)) s) =
     (\<lambda>r x. if r < n \<and> x < k then c else fb_cells s r x) \<and>
   fb_cell_colors (for_range 0 n (\<lambda>y. for_range 0 k (\<lambda>x s. fb_set_cell y x c color s)) s) =
     (\<lambda>r x. if r < n \<and> x < k then color else fb_cell_colors s r x)"
  by (induction n) (auto simp: fb_fill_row fun_eq_iff less_Suc_eq)

lemma backend_clear_all_screen:
  "screen_cells (backend_clear_all color s) = replicate (term_rows s) (blank_row color (term_cols s))"
proof (rule screen_cells_eqI [where n = "term_rows s" and m = "term_cols s"])
  note d = draws_same [OF backend_clear_all_draws [of s color]]
  show "term_rows (backend_clear_all color s) = term_rows s" "term_cols (backend_clear_all color s) = term_cols s"
    by (rule d)+
  fix r assume "r < term_rows s"
  moreover have "cell (backend_clear_all color s) r x = (of_char CHR '' '', color)"
    if "r < term_rows s" "x < term_cols s" for x
    using that d(1,3) vga_fill_rows [of s "term_cols s" "term_rows s" "vga_entry (of_char CHR '' '') color"]
      vga_entry_cell [of "of_char CHR '' ''" color]
    by (auto simp: cell_def backend_clear_all_def fb_fill_rows grid_index split: console_backend.split)
  ultimately show "length (replicate (term_rows s) (blank_row color (term_cols s)) ! r) = term_cols s \<and>
      (\<forall>x<term_cols s. cell (backend_clear_all color s) r x =
        replicate (term_rows s) (blank_row color (term_cols s)) ! r ! x)" by simp
qed simp

lemma backend_scroll_up_cell:
  assumes "0 < term_rows s \<and> term_rows s < 2 ^ 64" "r < term_rows s" "x < term_cols s"
  shows "cell (backend_scroll_up color s) r x =
    (if Suc r < term_rows s then cell s (Suc r) x else (of_char CHR '' '', color))"
proof (cases "g_backend s")
  case CONSOLE_BACKEND_VGA
  define n where "n = term_rows s - 1"
  have n: "size_sub (term_rows s) 1 = n" "term_rows s = Suc n"
    using assms by (auto simp: n_def console_inv_def)
  have c: "term_cols (vga_shift_rows s) = term_cols s"
    using vga_shift_rows_draws [OF CONSOLE_BACKEND_VGA] by (rule draws_same)
  have d: "draws s (backend_scroll_up color s)"
    using assms(1) by (intro backend_scroll_up_draws) (auto simp: console_inv_def)
  have m: "vga_memory (backend_scroll_up color s) i =
      (if n * term_cols s \<le> i \<and> i < n * term_cols s + term_cols s then vga_entry (of_char CHR '' '') color
       else if i < n * term_cols s then vga_memory s (i + term_cols s) else vga_memory s i)" for i
    using CONSOLE_BACKEND_VGA n c
      vga_fill_row [of "term_cols s" n "vga_entry (of_char CHR '' '') color" "vga_shift_rows s"]
      vga_shift_rows_memory [OF CONSOLE_BACKEND_VGA]
    by (simp add: backend_scroll_up_def vga_blank_row_def)
  show ?thesis
  proof (cases "r = n")
    case True
    then show ?thesis
      using CONSOLE_BACKEND_VGA assms n d m vga_entry_cell [of "of_char CHR '' ''" color]
      by (simp add: cell_def draws_same)
  next
    case False
    then have "r < n" using assms n by simp
    then have "r * term_cols s + x < n * term_cols s" using assms by (intro grid_index)
    then show ?thesis
      using CONSOLE_BACKEND_VGA \<open>r < n\<close> n d m [of "r * term_cols s + x"]
      by (simp add: cell_def draws_same add.commute add.left_commute)
  qed
next
  case CONSOLE_BACKEND_FB
  have c: "term_cols (fb_shift_rows s) = term_cols s"
    using fb_shift_rows_draws [OF CONSOLE_BACKEND_FB] by (rule draws_same)
  have d: "draws s (backend_scroll_up color s)"
    using assms(1) by (intro backend_scroll_up_draws) (auto simp: console_inv_def)
  show ?thesis
    using CONSOLE_BACKEND_FB assms c draws_same(1) [OF d] fb_shift_rows_cells [of s]
    by (auto simp: cell_def backend_scroll_up_def fb_blank_row_def fb_fill_row console_inv_def)
qed

lemma backend_scroll_up_screen:
  assumes "0 < term_rows s \<and> term_rows s < 2 ^ 64"
  shows "screen_cells (backend_scroll_up color s) = tl (screen_cells s) @ [blank_row color (term_cols s)]"
proof (rule screen_cells_eqI [where n = "term_rows s" and m = "term_cols s"])
  have d: "draws s (backend_scroll_up color s)"
    using assms(1) by (intro backend_scroll_up_draws) (auto simp: console_inv_def)
  from draws_same [OF this] show "term_rows (backend_scroll_up color s) = term_rows s"
    "term_cols (backend_scroll_up color s) = term_cols s" by auto
  show "length (tl (screen_cells s) @ [blank_row color (term_cols s)]) = term_rows s"
    using assms by (simp add: screen_cells_nth console_inv_def)
  fix r assume "r < term_rows s"
  then show "length ((tl (screen_cells s) @ [blank_row color (term_cols s)]) ! r) = term_cols s \<and>
      (\<forall>x<term_cols s. cell (backend_scroll_up color s) r x =
        (tl (screen_cells s) @ [blank_row color (term_cols s)]) ! r ! x)"
    using assms by (auto simp: backend_scroll_up_cell nth_append nth_tl screen_cells_nth)
qed

section \<open>The two backends show the same\<close>

text \<open>
  The state without the backend: no memory, no framebuffer geometry. Two consoles of the same
  size show the same when this part and the screen contents agree.
\<close>

definition text_state :: "console_state \<Rightarrow> console_state" where
  "text_state s = (control s)\<lparr>g_backend := CONSOLE_BACKEND_VGA, fb_memory := 0, fb_width := 0,
     fb_height := 0, fb_pitch_pixels := 0\<rparr>"

definition same_display :: "console_state \<Rightarrow> console_state \<Rightarrow> bool" where
  "same_display s t \<longleftrightarrow> text_state s = text_state t \<and> screen_cells s = screen_cells t"

lemma text_same:
  assumes "text_state s = text_state t"
  shows "term_rows s = term_rows t" "term_cols s = term_cols t"
    "cursor_row s = cursor_row t" "cursor_col s = cursor_col t" "ansi_fg s = ansi_fg t"
    "ansi_bg s = ansi_bg t" "ansi_params s = ansi_params t" "ansi_param_count s = ansi_param_count t"
    "utf8_needed s = utf8_needed t" "utf8_total s = utf8_total t" "utf8_codepoint s = utf8_codepoint t"
    "port_log s = port_log t" "serial_initialized s = serial_initialized t"
    "ansi_parser_state s = ansi_parser_state t" "ansi_param_current s = ansi_param_current t"
    "ansi_param_active s = ansi_param_active t" "saved_cursor_row s = saved_cursor_row t"
    "saved_cursor_col s = saved_cursor_col t" "current_vga_color s = current_vga_color t"
  using assms by (cases s; cases t; simp add: text_state_def control_def current_vga_color_def)+

lemma text_state_update [simp]:
  "text_state (s\<lparr>cursor_row := a\<rparr>) = (text_state s)\<lparr>cursor_row := a\<rparr>"
  "text_state (s\<lparr>cursor_col := a\<rparr>) = (text_state s)\<lparr>cursor_col := a\<rparr>"
  "text_state (s\<lparr>saved_cursor_row := a\<rparr>) = (text_state s)\<lparr>saved_cursor_row := a\<rparr>"
  "text_state (s\<lparr>saved_cursor_col := a\<rparr>) = (text_state s)\<lparr>saved_cursor_col := a\<rparr>"
  "text_state (s\<lparr>ansi_fg := c\<rparr>) = (text_state s)\<lparr>ansi_fg := c\<rparr>"
  "text_state (s\<lparr>ansi_bg := c\<rparr>) = (text_state s)\<lparr>ansi_bg := c\<rparr>"
  "text_state (s\<lparr>ansi_parser_state := p\<rparr>) = (text_state s)\<lparr>ansi_parser_state := p\<rparr>"
  "text_state (s\<lparr>ansi_params := ps\<rparr>) = (text_state s)\<lparr>ansi_params := ps\<rparr>"
  "text_state (s\<lparr>ansi_param_count := a\<rparr>) = (text_state s)\<lparr>ansi_param_count := a\<rparr>"
  "text_state (s\<lparr>ansi_param_current := i\<rparr>) = (text_state s)\<lparr>ansi_param_current := i\<rparr>"
  "text_state (s\<lparr>ansi_param_active := b\<rparr>) = (text_state s)\<lparr>ansi_param_active := b\<rparr>"
  "text_state (s\<lparr>utf8_codepoint := w\<rparr>) = (text_state s)\<lparr>utf8_codepoint := w\<rparr>"
  "text_state (s\<lparr>utf8_needed := a\<rparr>) = (text_state s)\<lparr>utf8_needed := a\<rparr>"
  "text_state (s\<lparr>utf8_total := a\<rparr>) = (text_state s)\<lparr>utf8_total := a\<rparr>"
  "text_state (s\<lparr>port_log := l\<rparr>) = (text_state s)\<lparr>port_log := l\<rparr>"
  by (simp_all add: text_state_def control_def)

lemma draws_text: "draws s s' \<Longrightarrow> text_state s' = text_state s"
  by (simp add: draws_def text_state_def)

lemma same_display_refl [simp]: "same_display s s"
  by (simp add: same_display_def)

lemmas display_same = text_same [OF conjunct1 [OF iffD1 [OF same_display_def]]]

lemma same_display_put:
  assumes "same_display s t" "c < 0x80"
  shows "same_display (backend_put_cell row col c color s) (backend_put_cell row col c color t)"
proof (cases "row < term_rows s \<and> col < term_cols s")
  case True
  then show ?thesis
    using assms display_same(1,2) [OF assms(1)]
    by (auto simp: same_display_def draws_text [OF backend_put_cell_draws] backend_put_cell_screen)
next
  case False
  then show ?thesis
    using assms display_same(1,2) [OF assms(1)] by (auto simp: backend_put_cell_def)
qed

lemma same_display_scroll_up:
  assumes "same_display s t" "0 < term_rows s" "term_rows s < 2 ^ 64"
  shows "same_display (backend_scroll_up color s) (backend_scroll_up color t)"
  using assms display_same(1,2) [OF assms(1)]
  by (auto simp: same_display_def draws_text [OF backend_scroll_up_draws] backend_scroll_up_screen)

lemma same_display_scroll:
  assumes "same_display s t" "scroll_ready s"
  shows "same_display (scroll_if_needed s) (scroll_if_needed t)"
proof -
  have "0 < term_rows s" "term_rows s < 2 ^ 64"
    using assms by (auto simp: scroll_ready_def console_inv_def)
  from same_display_scroll_up [OF assms(1) this]
  have "same_display (backend_scroll_up (current_vga_color s) s) (backend_scroll_up (current_vga_color s) t)" .
  then show ?thesis
    using assms(1) display_same [OF assms(1)] by (auto simp: scroll_if_needed_def Let_def same_display_def)
qed

lemma same_display_newline:
  assumes "same_display s t" "console_inv s"
  shows "same_display (raw_newline s) (raw_newline t)"
proof -
  have "scroll_ready (s\<lparr>cursor_col := 0, cursor_row := size_add (cursor_row s) 1\<rparr>)"
    using assms by (auto simp: scroll_ready_def console_inv_def)
  moreover have "same_display (s\<lparr>cursor_col := 0, cursor_row := size_add (cursor_row s) 1\<rparr>)
      (t\<lparr>cursor_col := 0, cursor_row := size_add (cursor_row t) 1\<rparr>)"
    using assms(1) display_same [OF assms(1)] by (auto simp: same_display_def)
  ultimately show ?thesis unfolding raw_newline_def by (intro same_display_scroll)
qed

lemma same_display_put_visible:
  assumes "same_display s t" "console_inv s" "console_inv t" "c < 0x80"
  shows "same_display (raw_put_visible c s) (raw_put_visible c t)"
proof -
  let ?f = "\<lambda>s. backend_put_cell (cursor_row s) (cursor_col s) c (current_vga_color s) s"
  have p: "same_display (?f s) (?f t)"
    using same_display_put [OF assms(1,4)] display_same [OF assms(1)] by simp
  have "console_inv (?f s)" using backend_put_cell_draws assms(2) by (rule draws_inv)
  then have "scroll_ready (advance (?f s))"
    by (auto simp: advance_def scroll_ready_def console_inv_def)
  moreover have "same_display (advance (?f s)) (advance (?f t))"
    using p display_same [OF p] by (auto simp: advance_def same_display_def)
  ultimately show ?thesis
    using assms by (simp add: raw_put_visible_eq same_display_scroll)
qed

lemma same_display_clear_line:
  assumes "same_display s t"
  shows "same_display (clear_line_range row a b s) (clear_line_range row a b t)"
proof -
  have "same_display (for_range lo hi (\<lambda>x. backend_put_cell row x (of_char CHR '' '') color) s)
      (for_range lo hi (\<lambda>x. backend_put_cell row x (of_char CHR '' '') color) t)" for lo hi color
    using assms by (rule for_range_rel) (rule same_display_put; simp)
  then show ?thesis
    using assms display_same [OF assms] by (simp add: clear_line_range_def Let_def del: for_range_Suc)
qed

text \<open>Both consoles keep their invariant; an operation related on both sides keeps the relation.\<close>

definition twin :: "console_state \<Rightarrow> console_state \<Rightarrow> bool" where
  "twin s t \<longleftrightarrow> same_display s t \<and> console_inv s \<and> console_inv t"

lemma twinI:
  assumes "twin s t" "console_inv s \<Longrightarrow> safe_step s s'" "console_inv t \<Longrightarrow> safe_step t t'" "same_display s' t'"
  shows "twin s' t'"
  using assms by (simp add: twin_def safe_step_def)

lemmas twin_same = display_same [OF conjunct1 [OF iffD1 [OF twin_def]]]

lemma twin_sgr: "twin s t \<Longrightarrow> twin (ansi_sgr_apply code s) (ansi_sgr_apply code t)"
proof (rule twinI [where s = s and t = t])
  assume "twin s t"
  then show "same_display (ansi_sgr_apply code s) (ansi_sgr_apply code t)"
    using twin_same(5,6) [of s t] by (simp add: twin_def same_display_def ansi_sgr_apply_def)
qed (simp_all add: ansi_sgr_apply_safe)

lemma same_display_clear_all:
  "text_state s = text_state t \<Longrightarrow> same_display (backend_clear_all color s) (backend_clear_all color t)"
  using text_same(1,2) [of s t]
  by (auto simp: same_display_def draws_text [OF backend_clear_all_draws] backend_clear_all_screen)

lemma same_display_clear:
  assumes "text_state s = text_state t"
  shows "same_display (console_clear s) (console_clear t)"
proof -
  define f :: "console_state \<Rightarrow> console_state" where
    "f s = (ansi_reset_params (s\<lparr>ansi_fg := 15, ansi_bg := 0, ansi_parser_state := ANSI_GROUND\<rparr>))
             \<lparr>utf8_codepoint := 0, utf8_needed := 0, utf8_total := 0\<rparr>" for s
  have f: "text_state (f s) = text_state (f t)"
    using assms by (simp add: f_def ansi_reset_params_def)
  show ?thesis
    using same_display_clear_all [OF f] text_same(19) [OF f]
    unfolding console_clear_def Let_def f_def [symmetric] by (simp add: same_display_def)
qed

lemma twin_clear: "twin s t \<Longrightarrow> twin (console_clear s) (console_clear t)"
  by (rule twinI [where s = s and t = t])
    (simp_all add: console_clear_inv_safe, simp add: same_display_clear twin_def same_display_def [of s t])

lemma twin_clear_line: "twin s t \<Longrightarrow> twin (clear_line_range row a b s) (clear_line_range row a b t)"
  by (rule twinI [where s = s and t = t])
    (auto intro!: paints_safe clear_line_range_paints same_display_clear_line simp: twin_def)

lemma twin_clear_lines:
  "twin s t \<Longrightarrow> twin (for_range lo hi (\<lambda>y s. clear_line_range y 0 (size_sub (term_cols s) 1) s) s)
    (for_range lo hi (\<lambda>y s. clear_line_range y 0 (size_sub (term_cols s) 1) s) t)"
  by (rule for_range_rel) (simp_all add: twin_same(2) twin_clear_line)

lemma twin_erase_display: "twin s t \<Longrightarrow> twin (ansi_erase_display mode s) (ansi_erase_display mode t)"
proof -
  assume w: "twin s t"
  let ?clear = "for_range 0 (cursor_row s) (\<lambda>y s. clear_line_range y 0 (size_sub (term_cols s) 1) s)"
  have "twin (?clear s) (?clear t)" using w by (rule twin_clear_lines)
  from twin_clear_line [OF this] twin_same(3,4) [OF this] show ?thesis
    using w twin_same(1-4) [OF w] by (simp add: ansi_erase_display_def twin_clear twin_clear_line twin_clear_lines [simplified])
qed

lemma twin_erase_line: "twin s t \<Longrightarrow> twin (ansi_erase_line mode s) (ansi_erase_line mode t)"
  using twin_same(1-4) [of s t] by (simp add: ansi_erase_line_def twin_clear_line)

lemma twin_csi: "twin s t \<Longrightarrow> twin (ansi_execute_csi final s) (ansi_execute_csi final t)"
proof (rule twinI [where s = s and t = t])
  assume w: "twin s t"
  note e = twin_same [OF w]
  have sgr: "twin (for_range 0 n (\<lambda>i s. ansi_sgr_apply (ansi_params s ! i) s) s)
      (for_range 0 n (\<lambda>i s. ansi_sgr_apply (ansi_params s ! i) s) t)" for n
    using w by (rule for_range_rel) (simp add: twin_same(7) twin_sgr)
  have d: "same_display s t" "screen_cells s = screen_cells t" "text_state s = text_state t"
    using w by (auto simp: twin_def same_display_def)
  have p: "ansi_param_at i v s = ansi_param_at i v t" for i v
    by (simp add: ansi_param_at_def e)
  show "same_display (ansi_execute_csi final s) (ansi_execute_csi final t)"
    using sgr twin_sgr [OF w] twin_erase_display [OF w] twin_erase_line [OF w]
    by (simp add: ansi_execute_csi_def Let_def e p d twin_def)
      (simp add: same_display_def d)
qed (simp_all add: ansi_execute_csi_safe)

lemma twin_put_visible: "twin s t \<Longrightarrow> c < 0x80 \<Longrightarrow> twin (raw_put_visible c s) (raw_put_visible c t)"
  by (rule twinI [where s = s and t = t])
    (auto simp: twin_def raw_put_visible_safe same_display_put_visible)

lemma twin_emit: "twin s t \<Longrightarrow> twin (console_emit_codepoint cp s) (console_emit_codepoint cp t)"
proof -
  assume w: "twin s t"
  have "ucast cp < (0x80 :: u8)" if "cp \<le> 0x7F"
  proof -
    have "unat cp < 128" using that by (simp add: word_le_nat_alt)
    moreover have "unat (ucast cp :: u8) = unat cp mod 2 ^ 8"
      by (simp add: unsigned_ucast_eq take_bit_eq_mod)
    ultimately show ?thesis by (simp add: word_less_nat_alt)
  qed
  then show ?thesis using w by (simp add: console_emit_codepoint_def twin_put_visible)
qed

lemma twin_fields:
  assumes "twin s t"
  shows "n \<le> m \<Longrightarrow> m \<le> 3 \<Longrightarrow> twin (s\<lparr>utf8_codepoint := cp, utf8_needed := n, utf8_total := m\<rparr>)
      (t\<lparr>utf8_codepoint := cp, utf8_needed := n, utf8_total := m\<rparr>)"
    and "twin (s\<lparr>ansi_parser_state := st\<rparr>) (t\<lparr>ansi_parser_state := st\<rparr>)"
    and "twin (ansi_reset_params s) (ansi_reset_params t)"
    and "twin (s\<lparr>ansi_param_current := v, ansi_param_active := True\<rparr>)
      (t\<lparr>ansi_param_current := v, ansi_param_active := True\<rparr>)"
    and "twin (s\<lparr>cursor_col := 0\<rparr>) (t\<lparr>cursor_col := 0\<rparr>)"
    and "twin (ansi_push_current_param s) (ansi_push_current_param t)"
    and "twin (serial_out c s) (serial_out c t)"
  using assms twin_same [OF assms]
  by (auto simp: twin_def same_display_def console_inv_def ansi_reset_params_def
      ansi_push_current_param_def serial_out_def)

definition cursor_back :: "console_state \<Rightarrow> console_state" where
  "cursor_back s = (if cursor_col s = 0
     then s\<lparr>cursor_row := cursor_row s - 1, cursor_col := size_sub (term_cols s) 1\<rparr>
     else s\<lparr>cursor_col := cursor_col s - 1\<rparr>)"

lemma console_backspace_eq:
  "console_backspace s = (if cursor_col s = 0 \<and> cursor_row s = 0 then s
     else backend_put_cell (cursor_row (cursor_back s)) (cursor_col (cursor_back s)) (of_char CHR '' '')
       (current_vga_color (cursor_back s)) (cursor_back s))"
  by (simp only: console_backspace_def cursor_back_def Let_def)

lemma twin_backspace: "twin s t \<Longrightarrow> twin (console_backspace s) (console_backspace t)"
proof (rule twinI [where s = s and t = t])
  assume w: "twin s t"
  have f: "same_display (cursor_back s) (cursor_back t)"
    using w twin_same(1-4) [OF w] by (simp add: twin_def same_display_def cursor_back_def)
  then show "same_display (console_backspace s) (console_backspace t)"
    using w twin_same(3,4) [OF w] same_display_put [OF f] display_same(3,4,19) [OF f]
    by (simp add: console_backspace_eq twin_def)
qed (simp_all add: console_backspace_safe)

lemma twin_newline: "twin s t \<Longrightarrow> twin (raw_newline s) (raw_newline t)"
  by (rule twinI [where s = s and t = t]) (auto simp: twin_def raw_newline_safe same_display_newline)

lemma twin_utf8: "twin s t \<Longrightarrow> twin (console_emit_utf8_byte b s) (console_emit_utf8_byte b t)"
proof (rule twinI [where s = s and t = t])
  assume w: "twin s t"
  note e = twin_same(9-11) [OF w]
  have reset: "twin (s\<lparr>utf8_needed := 0, utf8_total := 0, utf8_codepoint := 0\<rparr>)
      (t\<lparr>utf8_needed := 0, utf8_total := 0, utf8_codepoint := 0\<rparr>)"
    using w by (simp add: twin_def same_display_def console_inv_def)
  define f :: "console_state \<Rightarrow> console_state" where "f s = s\<lparr>utf8_codepoint := push_bit 6 (utf8_codepoint s) OR ucast (b AND 0x3F),
                   utf8_needed := utf8_needed s - 1\<rparr>" for s
  have f: "twin (f s) (f t)"
    using w e by (auto simp: f_def twin_def same_display_def console_inv_def)
  have "same_display ((console_emit_codepoint cp (f s))\<lparr>utf8_total := 0, utf8_codepoint := 0\<rparr>)
      ((console_emit_codepoint cp (f t))\<lparr>utf8_total := 0, utf8_codepoint := 0\<rparr>)" for cp
    using twin_emit [OF f] by (simp add: twin_def same_display_def)
  moreover have "same_display (console_emit_codepoint cp s) (console_emit_codepoint cp t)" for cp
    using twin_emit [OF w] by (simp add: twin_def)
  moreover have "same_display (console_emit_codepoint cp (s\<lparr>utf8_needed := 0, utf8_total := 0, utf8_codepoint := 0\<rparr>))
      (console_emit_codepoint cp (t\<lparr>utf8_needed := 0, utf8_total := 0, utf8_codepoint := 0\<rparr>))" for cp
    using twin_emit [OF reset] by (simp add: twin_def)
  moreover have "same_display (f s) (f t)" using f by (simp add: twin_def)
  moreover have "same_display (s\<lparr>utf8_codepoint := cp, utf8_needed := n, utf8_total := n\<rparr>)
      (t\<lparr>utf8_codepoint := cp, utf8_needed := n, utf8_total := n\<rparr>)" for cp n
    using w by (simp add: twin_def same_display_def)
  ultimately show "same_display (console_emit_utf8_byte b s) (console_emit_utf8_byte b t)"
    unfolding console_emit_utf8_byte_def Let_def f_def [symmetric]
    using e twin_same(9-11) [OF f] by (simp split del: if_split) simp
qed (simp_all add: console_emit_utf8_byte_safe)

lemma twin_ground:
  assumes w: "twin s t"
  shows "twin (console_handle_ground_byte b s) (console_handle_ground_byte b t)"
proof -
  have tab: "twin (for_range 0 n (\<lambda>_. raw_put_visible (of_char CHR '' '')) s)
      (for_range 0 n (\<lambda>_. raw_put_visible (of_char CHR '' '')) t)" for n
    using w by (rule for_range_rel) (rule twin_put_visible; simp)
  show ?thesis
    using w twin_same(4) [OF w] tab twin_fields(2,5) [OF w]
    by (simp add: console_handle_ground_byte_def twin_newline twin_backspace twin_put_visible twin_utf8)
qed

lemma twin_putc: "twin s t \<Longrightarrow> twin (console_putc c s) (console_putc c t)"
proof -
  assume w: "twin s t"
  let ?f = "serial_out c"
  have f: "twin (?f s) (?f t)" using w by (rule twin_fields(7))
  have g: "twin (console_handle_ground_byte c (?f s\<lparr>ansi_parser_state := ANSI_GROUND\<rparr>))
      (console_handle_ground_byte c (?f t\<lparr>ansi_parser_state := ANSI_GROUND\<rparr>))"
    by (rule twin_ground [OF twin_fields(2) [OF f]])
  have r: "twin (ansi_reset_params (?f s\<lparr>ansi_parser_state := ANSI_CSI\<rparr>))
      (ansi_reset_params (?f t\<lparr>ansi_parser_state := ANSI_CSI\<rparr>))"
    by (rule twin_fields(3) [OF twin_fields(2) [OF f]])
  have x: "twin (ansi_reset_params ((ansi_execute_csi c (ansi_push_current_param (?f s)))\<lparr>ansi_parser_state := ANSI_GROUND\<rparr>))
      (ansi_reset_params ((ansi_execute_csi c (ansi_push_current_param (?f t)))\<lparr>ansi_parser_state := ANSI_GROUND\<rparr>))"
    by (rule twin_fields(3) [OF twin_fields(2) [OF twin_csi [OF twin_fields(6) [OF f]]]])
  have "twin (console_csi_byte c (?f s)) (console_csi_byte c (?f t))"
    using x twin_fields(2,4,6) [OF f] twin_same(15) [OF f] by (auto simp: console_csi_byte_def)
  then show ?thesis
    using twin_ground [OF f] g r twin_same(14) [OF w]
    unfolding console_putc_eq by (auto split: ansi_state.split)
qed

text \<open>
  C11: The backend makes no difference to what is shown: two consoles of the same size with the
  same cells and the same parser state, one on VGA memory and one on a framebuffer, have the same
  cells, cursor and serial output after any output, and every pixel of every framebuffer cell is the
  pixel of the glyph of the character of the VGA console's cell, in the colours of its attribute byte.
\<close>

theorem backends_show_the_same:
  assumes "console_inv s" "g_backend s = CONSOLE_BACKEND_VGA"
    and "console_inv t" "g_backend t = CONSOLE_BACKEND_FB" "fb_geometry t" "drawn t" "same_display s t"
    and "s' = fold console_putc bs s" "t' = fold console_putc bs t"
  shows "same_display s' t' \<and>
    (\<forall>r x gx gy. r < term_rows s \<and> x < term_cols s \<and> gx < 8 \<and> gy < 16 \<longrightarrow>
       fb_pixels t' ((r * 16 + gy) * unat (fb_pitch_pixels t) + (x * 8 + gx)) =
         glyph_pixel (ucast (vga_memory s' (r * term_cols s + x)), ucast (drop_bit 8 (vga_memory s' (r * term_cols s + x)))) gx gy)"
proof -
  have "twin s t" using assms by (simp add: twin_def)
  then have "twin (fold console_putc bs s) (fold console_putc bs t)"
    by (induction bs arbitrary: s t) (auto intro: twin_putc)
  then have d: "same_display s' t'" using assms(8,9) by (simp add: twin_def)
  have "console_inv t' \<and> drawn t'" unfolding assms(9) using assms(3,6) by (intro drawn_machine.run_inv) simp
  moreover have g: "same_geometry s s'" "same_geometry t t'"
    using console_machine.run_inv [of s s bs] console_machine.run_inv [of t t bs] assms(1,3,8,9)
    by (simp_all add: screen_confined_def)
  moreover have "pixel_at t' = pixel_at t" "fb_geometry t' = fb_geometry t"
    using g(2) by (simp_all add: same_geometry_def fb_geometry_def pixel_at_def fun_eq_iff)
  moreover have "cell t' r x = cell s' r x" if "r < term_rows s" "x < term_cols s" for r x
    using d that screen_cells_nth(1) [of r s' x] screen_cells_nth(1) [of r t' x] display_same(1,2) [OF d] g(1)
    by (simp add: same_display_def same_geometry_def)
  moreover have "term_rows t = term_rows s" "term_cols t = term_cols s"
    using display_same(1,2) [OF assms(7)] by simp_all
  ultimately show ?thesis
    using d assms(2,4,5) by (auto simp: drawn_def same_geometry_def cell_def pixel_at_def)
qed

definition fb_640x400 :: video_framebuffer_info where
  "fb_640x400 = fb_1024x768\<lparr>fb_info_width := 640, fb_info_height := 400, fb_info_pitch := 2560\<rparr>"

lemma backends_show_the_same_witness:
  "same_display (fold console_putc (bytes ''walu$ '') (console_clear console_zero))
     (fold console_putc (bytes ''walu$ '') (snd (console_enable_framebuffer fb_640x400 console_zero))) \<and>
   fb_pixels (fold console_putc (bytes ''walu$ '') (snd (console_enable_framebuffer fb_640x400 console_zero))) 0 =
     glyph_pixel (ucast (vga_memory (fold console_putc (bytes ''walu$ '') (console_clear console_zero)) 0),
       ucast (drop_bit 8 (vga_memory (fold console_putc (bytes ''walu$ '') (console_clear console_zero)) 0))) 0 0"
proof -
  let ?s = "console_clear console_zero" and ?t = "snd (console_enable_framebuffer fb_640x400 console_zero)"
  have t: "?t = console_clear (fb_start fb_640x400 console_zero)"
    by (simp add: console_enable_framebuffer_def fb_640x400_def fb_1024x768_def console_zero_def fb_start_def)
  have s: "safe_step console_zero ?s" using console_zero_inv by (rule console_clear_inv_safe)
  have c: "safe_step (fb_start fb_640x400 console_zero) ?t"
    unfolding t by (rule fb_start_clear_safe) (simp_all add: console_zero_def fb_640x400_def fb_1024x768_def)
  have p: "console_inv ?s" "g_backend ?s = CONSOLE_BACKEND_VGA" "0 < term_rows ?s" "0 < term_cols ?s"
    using s by (auto simp: safe_step_def screen_confined_def same_geometry_def console_zero_def)
  have "drawn ?t" unfolding t by (rule console_clear_drawn)
  moreover have "console_inv ?t" "g_backend ?t = CONSOLE_BACKEND_FB" "fb_geometry ?t"
    using c by (auto simp: safe_step_def screen_confined_def same_geometry_def fb_geometry_def fb_start_def
        fb_640x400_def fb_1024x768_def console_zero_def)
  moreover have "same_display ?s ?t"
    unfolding t
    by (rule same_display_clear)
      (simp add: text_state_def control_def fb_start_def console_zero_def fb_640x400_def fb_1024x768_def)
  ultimately have "console_inv ?t" "g_backend ?t = CONSOLE_BACKEND_FB" "fb_geometry ?t" "drawn ?t" "same_display ?s ?t"
    by simp_all
  note b = backends_show_the_same [OF p(1,2) this refl refl, of "bytes ''walu$ ''"]
  show ?thesis
    using conjunct1 [OF b] conjunct2 [OF b, rule_format, of 0 0 0 0] p(3,4) by simp
qed

section \<open>UTF-8\<close>

lemma utf8_start:
  assumes "utf8_needed s = 0"
  shows "x < 2 ^ 5 \<Longrightarrow> console_emit_utf8_byte (ucast (0xC0 OR x)) s =
      s\<lparr>utf8_codepoint := x, utf8_needed := 1, utf8_total := 1\<rparr>"
    and "x < 2 ^ 4 \<Longrightarrow> console_emit_utf8_byte (ucast (0xE0 OR x)) s =
      s\<lparr>utf8_codepoint := x, utf8_needed := 2, utf8_total := 2\<rparr>"
    and "x < 2 ^ 3 \<Longrightarrow> console_emit_utf8_byte (ucast (0xF0 OR x)) s =
      s\<lparr>utf8_codepoint := x, utf8_needed := 3, utf8_total := 3\<rparr>"
  by (simp_all only: console_emit_utf8_byte_def assms utf8_lead_2 utf8_lead_3 utf8_lead_4) simp_all

lemma utf8_continue:
  assumes "utf8_needed s = Suc (Suc n)" "utf8_codepoint s = drop_bit 6 x"
  shows "console_emit_utf8_byte (ucast (0x80 OR (x AND 0x3F))) s = s\<lparr>utf8_codepoint := x, utf8_needed := Suc n\<rparr>"
  using assms push_drop_or [of 6 x] by (simp add: console_emit_utf8_byte_def utf8_cont mask_eq_exp_minus_1)

lemma utf8_last:
  assumes "utf8_needed s = 1" "utf8_codepoint s = drop_bit 6 x"
  shows "console_emit_utf8_byte (ucast (0x80 OR (x AND 0x3F))) s =
    (if utf8_valid (utf8_total s) x
     then (console_emit_codepoint x (s\<lparr>utf8_codepoint := x, utf8_needed := 0\<rparr>))\<lparr>utf8_total := 0, utf8_codepoint := 0\<rparr>
     else (console_emit_codepoint (of_char CHR ''?'') (s\<lparr>utf8_codepoint := x, utf8_needed := 0\<rparr>))
       \<lparr>utf8_total := 0, utf8_codepoint := 0\<rparr>)"
  using assms push_drop_or [of 6 x] by (simp add: console_emit_utf8_byte_def utf8_cont mask_eq_exp_minus_1)

lemma drop_bit_less:
  assumes "(x :: u32) \<le> of_nat m" "m < 2 ^ (n + k)" "n + k < 32"
  shows "drop_bit n x < 2 ^ k"
proof -
  have "unat x < 2 ^ (n + k)"
    using assms by (auto simp: word_le_nat_alt unat_of_nat intro: le_less_trans [OF _ mod_less_eq_dividend [THEN le_less_trans]])
  then have "unat x div 2 ^ n < 2 ^ k" by (simp add: less_mult_imp_div_less power_add mult.commute)
  moreover have "unat (drop_bit n x) = unat x div 2 ^ n"
    by (simp only: unat_drop_bit_eq) (simp add: drop_bit_eq_div)
  moreover have "unat (2 ^ k :: u32) = 2 ^ k" using assms(3) by (intro unat_2p) simp
  ultimately show ?thesis by (simp add: word_less_nat_alt)
qed

text \<open>
  What is drawn depends neither on the decoder nor on the serial log: drawing commutes with setting
  them.
\<close>

definition set_decoder :: "u32 \<Rightarrow> nat \<Rightarrow> nat \<Rightarrow> (u16 \<times> u8) list \<Rightarrow> console_state \<Rightarrow> console_state" where
  "set_decoder cp needed len l s = s\<lparr>utf8_codepoint := cp, utf8_needed := needed, utf8_total := len, port_log := l\<rparr>"

lemma set_decoder_fields [simp]:
  "g_backend (set_decoder cp n m l s) = g_backend s" "term_rows (set_decoder cp n m l s) = term_rows s"
  "term_cols (set_decoder cp n m l s) = term_cols s" "cursor_row (set_decoder cp n m l s) = cursor_row s"
  "cursor_col (set_decoder cp n m l s) = cursor_col s" "current_vga_color (set_decoder cp n m l s) = current_vga_color s"
  "vga_memory (set_decoder cp n m l s) = vga_memory s" "fb_cells (set_decoder cp n m l s) = fb_cells s"
  "fb_cell_colors (set_decoder cp n m l s) = fb_cell_colors s" "fb_width (set_decoder cp n m l s) = fb_width s"
  "fb_height (set_decoder cp n m l s) = fb_height s" "ansi_parser_state (set_decoder cp n m l s) = ansi_parser_state s"
  "utf8_codepoint (set_decoder cp n m l s) = cp" "utf8_needed (set_decoder cp n m l s) = n"
  "utf8_total (set_decoder cp n m l s) = m" "port_log (set_decoder cp n m l s) = l"
  "serial_initialized (set_decoder cp n m l s) = serial_initialized s"
  by (simp_all add: set_decoder_def current_vga_color_def)

lemma set_decoder_updates:
  "(set_decoder cp n m l s)\<lparr>cursor_row := a\<rparr> = set_decoder cp n m l (s\<lparr>cursor_row := a\<rparr>)"
  "(set_decoder cp n m l s)\<lparr>cursor_col := a\<rparr> = set_decoder cp n m l (s\<lparr>cursor_col := a\<rparr>)"
  "fb_plot x y rgb (set_decoder cp n m l s) = set_decoder cp n m l (fb_plot x y rgb s)"
  "vga_put i e (set_decoder cp n m l s) = set_decoder cp n m l (vga_put i e s)"
  "fb_set_cell r k c color (set_decoder cp n m l s) = set_decoder cp n m l (fb_set_cell r k c color s)"
  "fb_shift_row r (set_decoder cp n m l s) = set_decoder cp n m l (fb_shift_row r s)"
  by (simp_all add: set_decoder_def fb_plot_def vga_put_def fb_set_cell_def fb_shift_row_def)

lemma set_decoder_again:
  "(set_decoder cp n m l s)\<lparr>utf8_codepoint := cp', utf8_needed := n'\<rparr> = set_decoder cp' n' m l s"
  "(set_decoder cp n m l s)\<lparr>utf8_total := m', utf8_codepoint := cp'\<rparr> = set_decoder cp' n m' l s"
  "(set_decoder cp n m l s)\<lparr>port_log := l'\<rparr> = set_decoder cp n m l' s"
  by (cases s; simp add: set_decoder_def)+

lemma for_range_commute:
  assumes "\<And>i s. body i (f s) = f (body i s)"
  shows "for_range lo hi body (f s) = f (for_range lo hi body s)"
  by (rule for_range_rel [where R = "\<lambda>s t. s = f t"]) (simp_all add: assms)

lemmas set_decoder_loop = for_range_commute [where f = "set_decoder cp n m l" for cp n m l]

lemma set_decoder_draw_cell:
  "fb_draw_cell r x c color (set_decoder cp n m l s) = set_decoder cp n m l (fb_draw_cell r x c color s)"
  unfolding fb_draw_cell_def Let_def
  by (auto intro!: set_decoder_loop simp: set_decoder_updates simp del: for_range_Suc)

lemma set_decoder_redraw: "fb_redraw_full (set_decoder cp n m l s) = set_decoder cp n m l (fb_redraw_full s)"
  unfolding fb_redraw_full_def set_decoder_fields
  by (intro set_decoder_loop) (simp add: set_decoder_draw_cell)

lemma set_decoder_put_cell:
  "backend_put_cell r x c color (set_decoder cp n m l s) = set_decoder cp n m l (backend_put_cell r x c color s)"
  by (simp add: backend_put_cell_def set_decoder_updates set_decoder_draw_cell)

lemma set_decoder_scroll_up:
  "backend_scroll_up color (set_decoder cp n m l s) = set_decoder cp n m l (backend_scroll_up color s)"
proof -
  have "vga_shift_rows (set_decoder cp n m l s) = set_decoder cp n m l (vga_shift_rows s)"
    unfolding vga_shift_rows_def set_decoder_fields by (intro set_decoder_loop) (simp add: set_decoder_updates)
  moreover have "vga_blank_row r color (set_decoder cp n m l s) = set_decoder cp n m l (vga_blank_row r color s)" for r s
    unfolding vga_blank_row_def set_decoder_fields by (intro set_decoder_loop) (simp add: set_decoder_updates)
  moreover have "fb_shift_rows (set_decoder cp n m l s) = set_decoder cp n m l (fb_shift_rows s)"
    unfolding fb_shift_rows_def set_decoder_fields by (intro set_decoder_loop set_decoder_updates)
  moreover have "fb_blank_row r color (set_decoder cp n m l s) = set_decoder cp n m l (fb_blank_row r color s)" for r s
    unfolding fb_blank_row_def set_decoder_fields by (intro set_decoder_loop set_decoder_updates)
  ultimately show ?thesis by (simp add: backend_scroll_up_def set_decoder_redraw)
qed

lemma set_decoder_scroll: "scroll_if_needed (set_decoder cp n m l s) = set_decoder cp n m l (scroll_if_needed s)"
  by (simp add: scroll_if_needed_def Let_def set_decoder_updates set_decoder_scroll_up)

lemma set_decoder_emit:
  "console_emit_codepoint x (set_decoder cp n m l s) = set_decoder cp n m l (console_emit_codepoint x s)"
proof -
  have "raw_put_visible c (set_decoder cp n m l s) = set_decoder cp n m l (raw_put_visible c s)" for c
    unfolding raw_put_visible_def Let_def
    by (simp only: set_decoder_fields set_decoder_put_cell set_decoder_updates set_decoder_scroll if_distrib [symmetric])
  then show ?thesis by (simp add: console_emit_codepoint_def)
qed

text \<open>The bytes of a sequence, one call of \<^verbatim>\<open>console_putc\<close> each.\<close>

definition sent :: "u8 \<Rightarrow> console_state \<Rightarrow> (u16 \<times> u8) list" where
  "sent b t = (if serial_initialized t then [(0x3F8, b)] else [])"

lemma putc_high:
  assumes "ansi_parser_state t = ANSI_GROUND" "0x80 \<le> b"
  shows "console_putc b t = console_emit_utf8_byte b (t\<lparr>port_log := port_log t @ sent b t\<rparr>)"
proof -
  have "b \<noteq> 0x1B" "b \<noteq> 0x0A" "b \<noteq> 0x0D" "b \<noteq> 0x08" "b \<noteq> 0x09" "\<not> b < 0x20" "\<not> b < 0x80"
    using assms(2) by (auto simp: word_le_nat_alt word_less_nat_alt)
  then show ?thesis
    using assms(1) by (simp add: console_putc_eq console_handle_ground_byte_def serial_out_def serial_bytes_def sent_def)
qed

lemma high_byte:
  "0x80 \<le> (ucast (0xC0 OR x :: u32) :: u8)" "0x80 \<le> (ucast (0xE0 OR x :: u32) :: u8)"
  "0x80 \<le> (ucast (0xF0 OR x :: u32) :: u8)" "0x80 \<le> (ucast (0x80 OR x :: u32) :: u8)"
proof -
  have "0x80 \<le> (ucast (c OR x) :: u8)" if "bit c 7" for c :: u32
  proof -
    have "bit (ucast (c OR x) :: u8) 7" using that by (simp add: bit_simps)
    then have "(ucast (c OR x) :: u8) AND mask 7 \<noteq> ucast (c OR x)"
      by (metis bit_and_iff bit_mask_iff less_irrefl)
    then have "\<not> (ucast (c OR x) :: u8) < 2 ^ 7" using word_less_2p_iff [of 7 "ucast (c OR x) :: u8"] by simp
    then show ?thesis by simp
  qed
  then show "0x80 \<le> (ucast (0xC0 OR x :: u32) :: u8)" "0x80 \<le> (ucast (0xE0 OR x :: u32) :: u8)"
    "0x80 \<le> (ucast (0xF0 OR x :: u32) :: u8)" "0x80 \<le> (ucast (0x80 OR x :: u32) :: u8)" by simp_all
qed

lemma putc_start:
  assumes "ansi_parser_state t = ANSI_GROUND" "utf8_needed t = 0"
  shows "x < 2 ^ 5 \<Longrightarrow> b = ucast (0xC0 OR x) \<Longrightarrow> console_putc b t = set_decoder x 1 1 (port_log t @ sent b t) t"
    and "x < 2 ^ 4 \<Longrightarrow> b = ucast (0xE0 OR x) \<Longrightarrow> console_putc b t = set_decoder x 2 2 (port_log t @ sent b t) t"
    and "x < 2 ^ 3 \<Longrightarrow> b = ucast (0xF0 OR x) \<Longrightarrow> console_putc b t = set_decoder x 3 3 (port_log t @ sent b t) t"
  using assms utf8_start [of "t\<lparr>port_log := port_log t @ sent b t\<rparr>" x] high_byte [of x]
  by (simp_all add: putc_high set_decoder_def)

lemma putc_decoder:
  assumes "ansi_parser_state t = ANSI_GROUND" "b = ucast (0x80 OR (x AND 0x3F) :: u32)"
  shows "console_putc b (set_decoder cp n m l t) = console_emit_utf8_byte b (set_decoder cp n m (l @ sent b t) t)"
proof -
  have "0x80 \<le> b" unfolding assms(2) by (rule high_byte)
  from putc_high [OF _ this, of "set_decoder cp n m l t"] show ?thesis
    using assms(1) by (simp add: set_decoder_again sent_def)
qed

lemma putc_continue:
  assumes "ansi_parser_state t = ANSI_GROUND" "b = ucast (0x80 OR (x AND 0x3F))"
  shows "console_putc b (set_decoder (drop_bit 6 x) (Suc (Suc n)) m l t) = set_decoder x (Suc n) m (l @ sent b t) t"
  unfolding putc_decoder [OF assms] unfolding assms(2)
  by (subst utf8_continue) (simp_all add: set_decoder_again)

lemma putc_last:
  assumes "ansi_parser_state t = ANSI_GROUND" "b = ucast (0x80 OR (x AND 0x3F))" "utf8_valid m x"
    and "utf8_codepoint t = 0" "utf8_needed t = 0" "utf8_total t = 0"
  shows "console_putc b (set_decoder (drop_bit 6 x) (Suc 0) m l t) = console_emit_codepoint x (t\<lparr>port_log := l @ sent b t\<rparr>)"
proof -
  have "console_putc b (set_decoder (drop_bit 6 x) (Suc 0) m l t) =
      (console_emit_codepoint x (set_decoder x 0 m (l @ sent b t) t))\<lparr>utf8_total := 0, utf8_codepoint := 0\<rparr>"
    unfolding putc_decoder [OF assms(1,2)] unfolding assms(2)
    by (subst utf8_last) (simp_all add: assms(3) set_decoder_again)
  also have "\<dots> = console_emit_codepoint x (set_decoder 0 0 0 (l @ sent b t) t)"
    by (simp only: set_decoder_emit set_decoder_again)
  also have "set_decoder 0 0 0 (l @ sent b t) t = t\<lparr>port_log := l @ sent b t\<rparr>"
    using assms(4-6) by (simp add: set_decoder_def)
  finally show ?thesis .
qed

text \<open>
  C18: A character the keyboard driver sends in UTF-8 is the one the console shows: with room in the
  byte queue, \<^verbatim>\<open>kbd_emit_utf8\<close> appends bytes for any code point from U+0020 on that is not a surrogate,
  and writing these bytes to a console that is in no sequence shows exactly this one code point, copies the
  bytes to the serial port and leaves the console in no sequence.
\<close>

theorem utf8_decoder_inverts_encoder:
  assumes "kbd_inv k" "length (kbd_bytes k) + 4 \<le> KBD_BYTE_CAP"
    and "ansi_parser_state t = ANSI_GROUND" "utf8_codepoint t = 0" "utf8_needed t = 0" "utf8_total t = 0"
    and "0x20 \<le> cp" "cp \<le> 0x10FFFF" "\<not> (0xD800 \<le> cp \<and> cp \<le> 0xDFFF)"
  shows "\<exists>bs. kbd_bytes (kbd_emit_utf8 cp k) = kbd_bytes k @ bs \<and>
    fold console_putc bs t = console_emit_codepoint cp
      (t\<lparr>port_log := port_log t @ (if serial_initialized t then map (Pair 0x3F8) bs else [])\<rparr>)"
proof -
  note g = assms(3) and idle = assms(4-6)
  have "length (utf8_encode cp) \<le> 4" by (simp add: utf8_encode_def)
  then have k: "kbd_bytes (kbd_emit_utf8 cp k) = kbd_bytes k @ utf8_encode cp"
    using kbd_byte_fifo.pushes_contents [OF assms(1), of "utf8_encode cp"] assms(2) by (simp add: kbd_emit_utf8_pushes)
  consider (one) "cp \<le> 0x7F" | (two) "\<not> cp \<le> 0x7F" "cp \<le> 0x7FF" | (three) "\<not> cp \<le> 0x7FF" "cp \<le> 0xFFFF"
    | (four) "\<not> cp \<le> 0xFFFF" by blast
  then have "fold console_putc (utf8_encode cp) t = console_emit_codepoint cp
      (t\<lparr>port_log := port_log t @ (if serial_initialized t then map (Pair 0x3F8) (utf8_encode cp) else [])\<rparr>)"
  proof cases
    case one
    then have u: "unat (ucast cp :: u8) = unat cp"
      by (simp add: unsigned_ucast_eq take_bit_eq_mod word_le_nat_alt)
    then have c: "0x20 \<le> (ucast cp :: u8)" "(ucast cp :: u8) < 0x80" "cp \<noteq> 0"
      using one assms(7) by (auto simp: word_le_nat_alt word_less_nat_alt)
    then have "(ucast cp :: u8) \<noteq> 0x1B" "(ucast cp :: u8) \<noteq> 0x0A" "(ucast cp :: u8) \<noteq> 0x0D" "(ucast cp :: u8) \<noteq> 0x08"
      "(ucast cp :: u8) \<noteq> 0x09" "\<not> (ucast cp :: u8) < 0x20" by auto
    then show ?thesis
      using one c g by (simp add: utf8_encode_def console_emit_codepoint_def console_putc_eq
          console_handle_ground_byte_def serial_out_def serial_bytes_def)
  next
    case two
    have "drop_bit 6 cp < 2 ^ 5" using two by (intro drop_bit_less [of _ "0x7FF"]) simp_all
    note s = putc_start(1) [OF g idle(2) this refl]
    have "utf8_encode cp = [ucast (0xC0 OR drop_bit 6 cp), ucast (0x80 OR (cp AND 0x3F))]"
      using two by (simp add: utf8_encode_def)
    moreover have "utf8_valid 1 cp" using two assms(8,9) by (auto simp: utf8_valid_def word_less_nat_alt word_le_nat_alt)
    ultimately show ?thesis using s by (simp add: putc_last [OF g refl _ idle]) (simp add: sent_def)
  next
    case three
    have "drop_bit 12 cp < 2 ^ 4" using three by (intro drop_bit_less [of _ "0xFFFF"]) simp_all
    note s = putc_start(2) [OF g idle(2) this refl]
    have "\<not> cp \<le> 0x7F" using three by (auto simp: word_le_nat_alt)
    then have "utf8_encode cp = [ucast (0xE0 OR drop_bit 12 cp), ucast (0x80 OR (drop_bit 6 cp AND 0x3F)),
        ucast (0x80 OR (cp AND 0x3F))]"
      using three assms(9) by (auto simp: utf8_encode_def)
    moreover have "utf8_valid 2 cp" using three assms(8,9) by (auto simp: utf8_valid_def word_less_nat_alt word_le_nat_alt)
    moreover have "console_putc (ucast (0x80 OR (drop_bit 6 cp AND 0x3F))) (set_decoder (drop_bit 12 cp) 2 m l t) =
        set_decoder (drop_bit 6 cp) 1 m (l @ sent (ucast (0x80 OR (drop_bit 6 cp AND 0x3F))) t) t" for m l
      using putc_continue [OF g refl, of "drop_bit 6 cp" 0] by (simp add: numeral_2_eq_2)
    ultimately show ?thesis using s by (simp add: putc_last [OF g refl _ idle]) (simp add: sent_def)
  next
    case four
    have "drop_bit 18 cp < 2 ^ 3" using assms(8) by (intro drop_bit_less [of _ "0x10FFFF"]) simp_all
    note s = putc_start(3) [OF g idle(2) this refl]
    have "\<not> cp \<le> 0x7F" "\<not> cp \<le> 0x7FF" using four by (auto simp: word_le_nat_alt)
    then have "utf8_encode cp = [ucast (0xF0 OR drop_bit 18 cp), ucast (0x80 OR (drop_bit 12 cp AND 0x3F)),
        ucast (0x80 OR (drop_bit 6 cp AND 0x3F)), ucast (0x80 OR (cp AND 0x3F))]"
      using four assms(8) by (simp add: utf8_encode_def)
    moreover have "utf8_valid 3 cp" using four assms(8) by (auto simp: utf8_valid_def word_less_nat_alt word_le_nat_alt)
    moreover have "console_putc (ucast (0x80 OR (drop_bit 12 cp AND 0x3F))) (set_decoder (drop_bit 18 cp) 3 m l t) =
        set_decoder (drop_bit 12 cp) 2 m (l @ sent (ucast (0x80 OR (drop_bit 12 cp AND 0x3F))) t) t"
      "console_putc (ucast (0x80 OR (drop_bit 6 cp AND 0x3F))) (set_decoder (drop_bit 12 cp) 2 m l t) =
        set_decoder (drop_bit 6 cp) 1 m (l @ sent (ucast (0x80 OR (drop_bit 6 cp AND 0x3F))) t) t" for m l
      using putc_continue [OF g refl, of "drop_bit 12 cp" 1] putc_continue [OF g refl, of "drop_bit 6 cp" 0]
      by (simp_all add: numeral_2_eq_2 numeral_3_eq_3)
    ultimately show ?thesis using s by (simp add: putc_last [OF g refl _ idle]) (simp add: sent_def)
  qed
  with k show ?thesis by blast
qed

lemma utf8_decoder_inverts_encoder_witness:
  "\<exists>bs. kbd_bytes (kbd_emit_utf8 0x20AC keyboard_zero) = bs \<and>
    fold console_putc bs console_zero = console_emit_codepoint 0x20AC console_zero"
proof -
  note k = keyboard_zero_facts(1,2)
  have t: "ansi_parser_state console_zero = ANSI_GROUND" "utf8_codepoint console_zero = 0" "utf8_needed console_zero = 0"
    "utf8_total console_zero = 0" "serial_initialized console_zero = False" "console_zero\<lparr>port_log := []\<rparr> = console_zero"
    "port_log console_zero = []"
    by (simp_all add: console_zero_def)
  show ?thesis
    using utf8_decoder_inverts_encoder [OF k(1) _ t(1-4), where cp = "0x20AC"] k(2) t(5-7)
    by (simp add: KBD_BYTE_CAP_def KBD_BYTE_QUEUE_SIZE_def)
qed

section \<open>Numbers\<close>

text \<open>The value a digit string denotes in a base.\<close>

definition digit_value :: "u8 \<Rightarrow> nat" where
  "digit_value d = (if d < of_char CHR ''A'' then unat d - 48 else unat d - 55)"

definition digits_value :: "nat \<Rightarrow> u8 list \<Rightarrow> nat" where
  "digits_value base ds = foldl (\<lambda>n d. base * n + digit_value d) 0 ds"

definition dec_text :: "u64 \<Rightarrow> u8 list" where
  "dec_text v = (if v = 0 then [of_char CHR ''0''] else rev (dec_digits v []))"

definition hex_text :: "u64 \<Rightarrow> u8 list" where
  "hex_text v = map (\<lambda>i. hex_digit (ucast (drop_bit i v AND 0xF)))
     [60, 56, 52, 48, 44, 40, 36, 32, 28, 24, 20, 16, 12, 8, 4, 0]"

lemma console_write_dec_text: "console_write_dec v s = fold console_putc (dec_text v) s"
  by (simp add: console_write_dec_def dec_text_def)

lemma console_write_hex_text:
  "console_write_hex v s = fold console_putc (bytes ''0x'' @ hex_text v) s"
  by (simp add: console_write_hex_def hex_text_def console_write_def bytes_def c_str_def fold_map comp_def)

lemma digits_value_snoc [simp]: "digits_value base (ds @ [d]) = base * digits_value base ds + digit_value d"
  by (simp add: digits_value_def)

lemma digits_value_append:
  "digits_value base (xs @ ys) = digits_value base xs * base ^ length ys + digits_value base ys"
  by (induction ys rule: rev_induct)
    (simp_all add: digits_value_def [of base "[]"] algebra_simps flip: append_assoc)

lemma dec_digit:
  assumes "d = (ucast (of_char CHR ''0'' + v mod 10 :: u64) :: u8)"
  shows "digit_value d = unat v mod 10" "of_char CHR ''0'' \<le> d" "d \<le> of_char CHR ''9''"
proof -
  have m: "unat (v mod 10) = unat v mod 10" by (simp add: unat_mod)
  have l: "unat v mod 10 < 10" by simp
  have "unat (48 + v mod 10 :: u64) = 48 + unat v mod 10"
    using l by (simp add: unat_word_ariths m) 
  then have u: "unat d = 48 + unat v mod 10"
    using l by (simp add: assms unsigned_ucast_eq take_bit_eq_mod)
  show "digit_value d = unat v mod 10" "of_char CHR ''0'' \<le> d" "d \<le> of_char CHR ''9''"
    using u l by (simp_all add: digit_value_def word_less_nat_alt word_le_nat_alt)
qed

text \<open>Ten to the number of free places always exceeds the remaining value, so the buffer never fills.\<close>

lemma dec_digits_value:
  assumes "unat v < 10 ^ (20 - length buf)" "length buf \<le> 20"
  shows "digits_value 10 (rev (dec_digits v buf)) = unat v * 10 ^ length buf + digits_value 10 (rev buf) \<and>
    length (dec_digits v buf) \<le> 20 \<and>
    (\<forall>d \<in> set (dec_digits v buf). d \<in> set buf \<or> of_char CHR ''0'' \<le> d \<and> d \<le> of_char CHR ''9'')"
  using assms
proof (induction v buf rule: dec_digits.induct)
  case (1 v buf)
  define d where "d = (ucast (of_char CHR ''0'' + v mod 10 :: u64) :: u8)"
  show ?case
  proof (cases "v = 0")
    case True
    then show ?thesis using 1(3) by (subst (1 2 3) dec_digits.simps) auto
  next
    case False
    then have v: "0 < v" "0 < unat v" by (simp_all add: word_neq_0_conv unat_gt_0)
    have len: "length buf < 20"
    proof (rule ccontr)
      assume "\<not> length buf < 20"
      then show False using 1(2,3) v(2) by simp
    qed
    then obtain k where k: "20 - length buf = Suc k" "20 - Suc (length buf) = k"
      by (metis Suc_diff_Suc)
    have u: "unat (v div 10) = unat v div 10" by (simp add: unat_div)
    have "unat (v div 10) < 10 ^ (20 - length (buf @ [d]))"
      using 1(2) k by (simp add: u less_mult_imp_div_less mult.commute)
    from 1(1) [folded d_def, OF _ this] v(1) len
    have ih: "digits_value 10 (rev (dec_digits (v div 10) (buf @ [d]))) =
          unat (v div 10) * 10 ^ Suc (length buf) + digits_value 10 (d # rev buf) \<and>
        length (dec_digits (v div 10) (buf @ [d])) \<le> 20 \<and>
        (\<forall>e \<in> set (dec_digits (v div 10) (buf @ [d])). e \<in> set (buf @ [d]) \<or> of_char CHR ''0'' \<le> e \<and> e \<le> of_char CHR ''9'')"
      by simp
    have "digits_value 10 (d # rev buf) = (unat v mod 10) * 10 ^ length buf + digits_value 10 (rev buf)"
      using digits_value_append [of 10 "[d]" "rev buf"] dec_digit(1) [OF d_def]
      by (simp add: digits_value_def [of _ "[d]"])
    moreover have "q * (10 * p) + (r * p + e) = (10 * q + r) * p + e" for q r p e :: nat
      by (simp add: algebra_simps)
    ultimately have "unat (v div 10) * 10 ^ Suc (length buf) + digits_value 10 (d # rev buf) =
        unat v * 10 ^ length buf + digits_value 10 (rev buf)"
      by (simp only: u power_Suc mult_div_mod_eq)
    moreover have "dec_digits v buf = dec_digits (v div 10) (buf @ [d])"
      using v(1) len by (subst dec_digits.simps) (simp add: d_def)
    ultimately show ?thesis using ih dec_digit(2,3) [OF d_def] by auto
  qed
qed

lemma hex_nibble:
  assumes "d = hex_digit (ucast (drop_bit i (v :: u64) AND 0xF))"
  shows "digit_value d = unat v div 2 ^ i mod 16" "d \<in> set (bytes ''0123456789ABCDEF'')"
proof -
  have "unat (drop_bit i v AND 0xF) = unat v div 2 ^ i mod 16"
  proof -
    have "(0xF :: u64) = mask 4" by (simp add: mask_eq_exp_minus_1)
    then have "drop_bit i v AND 0xF = take_bit 4 (drop_bit i v)" by (simp only: take_bit_eq_mask)
    then have "unat (drop_bit i v AND 0xF) = take_bit 4 (drop_bit i (unat v))"
      by (simp only: unsigned_take_bit_eq unat_drop_bit_eq)
    then show ?thesis by (simp add: take_bit_eq_mod drop_bit_eq_div)
  qed
  moreover define n where "n = unat v div 2 ^ i mod 16"
  moreover have "n < 16" by (simp add: n_def)
  ultimately have "unat (ucast (drop_bit i v AND 0xF) :: u8) = n"
    by (simp add: unsigned_ucast_eq take_bit_eq_mod)
  then have c: "ucast (drop_bit i v AND 0xF) = (of_nat n :: u8)"
    by (metis of_nat_unat ucast_id)
  have "n \<in> set [0, 1, 2, 3, 4, 5, 6, 7, 8, 9, 10, 11, 12, 13, 14, 15]"
    using \<open>n < 16\<close> by (simp add: numeral_eq_Suc less_Suc_eq)
  then have "digit_value (hex_digit (of_nat n)) = n \<and> hex_digit (of_nat n) \<in> set (bytes ''0123456789ABCDEF'')"
    by (auto simp: hex_digit_def digit_value_def bytes_def c_str_def)
  then show "digit_value d = unat v div 2 ^ i mod 16" "d \<in> set (bytes ''0123456789ABCDEF'')"
    by (simp_all only: assms c) (simp_all only: n_def)
qed

lemma hex_text_digits: "set (hex_text v) \<subseteq> set (bytes ''0123456789ABCDEF'')"
  using hex_nibble(2) [OF refl, of _ v] hex_nibble(2) [OF refl, of 0 v] unfolding hex_text_def by auto

lemma hex_text_value_upto:
  "digits_value 16 (map (\<lambda>i. hex_digit (ucast (drop_bit i (v :: u64) AND 0xF))) (rev (map ((*) 4) [0..<n]))) =
     unat v mod 16 ^ n"
proof (induction n)
  case (Suc n)
  let ?h = "\<lambda>i. hex_digit (ucast (drop_bit i v AND 0xF))"
  have "(2 :: nat) ^ (4 * n) = 16 ^ n" by (simp add: power_mult)
  then have "digits_value 16 [?h (4 * n)] = unat v div 16 ^ n mod 16"
    using hex_nibble(1) [OF refl, of "4 * n" v] by (simp add: digits_value_def)
  moreover have "unat v mod 16 ^ Suc n = 16 ^ n * (unat v div 16 ^ n mod 16) + unat v mod 16 ^ n"
    by (simp only: power_Suc2 mod_mult2_eq)
  moreover have "map ?h (rev (map ((*) 4) [0..<Suc n])) = [?h (4 * n)] @ map ?h (rev (map ((*) 4) [0..<n]))"
    by simp
  ultimately show ?case
    by (simp only: digits_value_append Suc) simp
qed (simp add: digits_value_def)

lemma hex_text_value: "digits_value 16 (hex_text v) = unat v"
proof -
  have "rev (map ((*) 4) [0..<16]) = [60, 56, 52, 48, 44, 40, 36, 32, 28, 24, 20, 16, 12, 8, 4, 0 :: nat]"
    by (simp add: upt_rec)
  moreover have "unat v mod 16 ^ 16 = unat v" using unsigned_less [of v, where ?'a = nat] by simp
  ultimately show ?thesis
    using hex_text_value_upto [of v 16] unfolding hex_text_def by simp
qed

lemma dec_text_facts:
  "digits_value 10 (dec_text v) = unat v" "dec_text v \<noteq> []" "length (dec_text v) \<le> 20"
  "list_all (\<lambda>d. of_char CHR ''0'' \<le> d \<and> d \<le> of_char CHR ''9'') (dec_text v)"
proof -
  have "unat v < 10 ^ (20 - length ([] :: u8 list))" using unsigned_less [of v, where ?'a = nat] by simp
  from dec_digits_value [OF this]
  have d: "digits_value 10 (rev (dec_digits v [])) = unat v"
      "length (dec_digits v []) \<le> 20" "\<forall>d \<in> set (dec_digits v []). of_char CHR ''0'' \<le> d \<and> d \<le> of_char CHR ''9''"
    by (simp_all add: digits_value_def [of _ "[]"])
  then show val: "digits_value 10 (dec_text v) = unat v" and "length (dec_text v) \<le> 20"
    and "list_all (\<lambda>d. of_char CHR ''0'' \<le> d \<and> d \<le> of_char CHR ''9'') (dec_text v)"
    by (auto simp: dec_text_def list_all_iff digits_value_def digit_value_def)
  show "dec_text v \<noteq> []" using val by (auto simp: dec_text_def digits_value_def unat_eq_zero)
qed

text \<open>
  C28: Numbers are printed exactly: \<^verbatim>\<open>console_write_dec\<close> outputs a decimal numeral of the value with
  at most 20 digits, so the 21-byte buffer never truncates a 64-bit value, and
  \<^verbatim>\<open>console_write_hex\<close> outputs \<^verbatim>\<open>0x\<close> and 16 digits of the value, each one of 0 to 9 or A to F.
\<close>

theorem numbers_printed_exactly:
  "console_write_dec v s = fold console_putc (dec_text v) s \<and> digits_value 10 (dec_text v) = unat v \<and>
     length (dec_text v) \<le> 20 \<and> list_all (\<lambda>d. of_char CHR ''0'' \<le> d \<and> d \<le> of_char CHR ''9'') (dec_text v) \<and>
   console_write_hex v s = fold console_putc (bytes ''0x'' @ hex_text v) s \<and>
     digits_value 16 (hex_text v) = unat v \<and> length (hex_text v) = 16 \<and>
     set (hex_text v) \<subseteq> set (bytes ''0123456789ABCDEF'')"
  using console_write_dec_text console_write_hex_text hex_text_value hex_text_digits dec_text_facts
  by (simp add: hex_text_def)

section \<open>Text and control sequences\<close>

text \<open>A visible character that does not end the row.\<close>

lemma raw_put_visible_in_row:
  assumes "console_inv s" "Suc (cursor_col s) < term_cols s" "c < 0x80"
  shows "text_state (raw_put_visible c s) = (text_state s)\<lparr>cursor_col := Suc (cursor_col s)\<rparr>"
    and "screen_cells (raw_put_visible c s) = (screen_cells s)[cursor_row s :=
      (screen_cells s ! cursor_row s)[cursor_col s := (c, current_vga_color s)]]"
proof -
  let ?s1 = "backend_put_cell (cursor_row s) (cursor_col s) c (current_vga_color s) s"
  note d = backend_put_cell_draws [of s "cursor_row s" "cursor_col s" c "current_vga_color s"]
  note e = draws_same [OF d]
  have "raw_put_visible c s = ?s1\<lparr>cursor_col := Suc (cursor_col s)\<rparr>"
    using assms by (simp add: raw_put_visible_eq advance_def scroll_if_needed_def e console_inv_def)
  then show "text_state (raw_put_visible c s) = (text_state s)\<lparr>cursor_col := Suc (cursor_col s)\<rparr>"
    "screen_cells (raw_put_visible c s) = (screen_cells s)[cursor_row s :=
      (screen_cells s ! cursor_row s)[cursor_col s := (c, current_vga_color s)]]"
    using assms by (simp_all add: draws_text [OF d] backend_put_cell_screen console_inv_def)
qed

lemma serial_out_frame [simp]:
  "text_state (serial_out c s) = (text_state s)\<lparr>port_log := port_log (serial_out c s)\<rparr>"
  "screen_cells (serial_out c s) = screen_cells s" "cursor_col (serial_out c s) = cursor_col s"
  "cursor_row (serial_out c s) = cursor_row s" "term_cols (serial_out c s) = term_cols s"
  "current_vga_color (serial_out c s) = current_vga_color s" "term_rows (serial_out c s) = term_rows s"
  by (simp_all add: serial_out_def current_vga_color_def)

lemma text_state_fields [simp]:
  "ansi_parser_state (text_state s) = ansi_parser_state s" "cursor_row (text_state s) = cursor_row s"
  "cursor_col (text_state s) = cursor_col s" "term_cols (text_state s) = term_cols s"
  "current_vga_color (text_state s) = current_vga_color s"
  by (simp_all add: text_state_def control_def current_vga_color_def)

lemma putc_visible:
  assumes "console_inv s" "ansi_parser_state s = ANSI_GROUND" "0x20 \<le> c" "c < 0x80"
  shows "console_putc c s = raw_put_visible c (serial_out c s)"
proof -
  have "c \<noteq> 0x1B" "c \<noteq> 0x0A" "c \<noteq> 0x0D" "c \<noteq> 0x08" "c \<noteq> 0x09" "\<not> c < 0x20" using assms(3) by auto
  then show ?thesis using assms by (simp add: console_putc_eq console_handle_ground_byte_def)
qed

lemma putc_visible_in_row:
  assumes "console_inv s" "ansi_parser_state s = ANSI_GROUND" "0x20 \<le> c" "c < 0x80"
    "Suc (cursor_col s) < term_cols s"
  shows "ansi_parser_state (console_putc c s) = ANSI_GROUND" "cursor_col (console_putc c s) = Suc (cursor_col s)"
    "cursor_row (console_putc c s) = cursor_row s" "term_cols (console_putc c s) = term_cols s"
    "current_vga_color (console_putc c s) = current_vga_color s"
    "screen_cells (console_putc c s) = (screen_cells s)[cursor_row s :=
       (screen_cells s ! cursor_row s)[cursor_col s := (c, current_vga_color s)]]"
proof -
  have i: "console_inv (serial_out c s)" using assms(1) by (rule serial_out_inv)
  note r = raw_put_visible_in_row [OF i, of c, simplified, OF assms(5,4)]
  have t: "text_state (console_putc c s) = text_state (s\<lparr>port_log := port_log (serial_out c s), cursor_col := Suc (cursor_col s)\<rparr>)"
    using r(1) assms by (simp add: putc_visible)
  show "ansi_parser_state (console_putc c s) = ANSI_GROUND" "cursor_col (console_putc c s) = Suc (cursor_col s)"
    "cursor_row (console_putc c s) = cursor_row s" "term_cols (console_putc c s) = term_cols s"
    "current_vga_color (console_putc c s) = current_vga_color s"
    using assms(2) text_same [OF t] by (simp_all add: current_vga_color_def)
  show "screen_cells (console_putc c s) = (screen_cells s)[cursor_row s :=
       (screen_cells s ! cursor_row s)[cursor_col s := (c, current_vga_color s)]]"
    using r(2) assms by (simp add: putc_visible)
qed

definition write_at :: "nat \<Rightarrow> 'a list \<Rightarrow> 'a list \<Rightarrow> 'a list" where
  "write_at n xs row = take n row @ xs @ drop (n + length xs) row"

lemma write_at_Cons:
  "n + length xs < length row \<Longrightarrow> write_at n (x # xs) row = write_at (Suc n) xs (row[n := x])"
  by (simp add: write_at_def take_Suc_conv_app_nth)

text \<open>
  The cells of the screen after a run of printable bytes.
\<close>

lemma printed_cells:
  assumes "console_inv s" "ansi_parser_state s = ANSI_GROUND"
    and "list_all (\<lambda>c. 0x20 \<le> c \<and> c < 0x80) cs" "cursor_col s + length cs < term_cols s"
    and "s' = fold console_putc cs s"
  shows "screen_cells s' = (screen_cells s)[cursor_row s :=
      write_at (cursor_col s) (map (\<lambda>c. (c, current_vga_color s)) cs) (screen_cells s ! cursor_row s)] \<and>
    cursor_row s' = cursor_row s \<and> cursor_col s' = cursor_col s + length cs"
  using assms(1-4) unfolding assms(5)
proof (induction cs arbitrary: s)
  case Nil
  then show ?case by (simp add: write_at_def)
next
  case (Cons c cs)
  note p = putc_visible_in_row [OF Cons.prems(1,2), of c]
  have c: "0x20 \<le> c" "c < 0x80" "Suc (cursor_col s) < term_cols s" using Cons.prems by auto
  note p = p [OF c]
  have i: "console_inv (console_putc c s)" using console_putc_confined [OF Cons.prems(1)] by blast
  have r: "cursor_row s < length (screen_cells s)" "length (screen_cells s ! cursor_row s) = term_cols s"
    using Cons.prems(1) by (auto simp: screen_cells_nth console_inv_def)
  show ?case
    using Cons.IH [OF i p(1)] Cons.prems(3,4) r by (simp add: p write_at_Cons)
qed

text \<open>
  C21: A run of printable ASCII bytes that fits on the current row is written there from the cursor
  on in the current colour, the other cells stay as they were and the cursor ends after the text. On
  a framebuffer that shows its cells, the pixels of all cells show the new contents.
\<close>

theorem console_prints_text:
  assumes "console_inv s" "ansi_parser_state s = ANSI_GROUND"
    and "list_all (\<lambda>c. 0x20 \<le> c \<and> c < 0x80) cs" "cursor_col s + length cs < term_cols s"
    and "s' = fold console_putc cs s"
  shows "screen_cells s' = (screen_cells s)[cursor_row s :=
      write_at (cursor_col s) (map (\<lambda>c. (c, current_vga_color s)) cs) (screen_cells s ! cursor_row s)] \<and>
    cursor_row s' = cursor_row s \<and> cursor_col s' = cursor_col s + length cs \<and>
    (drawn s \<longrightarrow> drawn s')"
  using printed_cells [OF assms] drawn_machine.run_inv [of s cs] assms(1,5) by blast

lemma console_prints_text_witness:
  "cursor_col (fold console_putc (bytes ''root@walu'') console_zero) = 9"
  using console_prints_text [OF console_zero_inv, of "bytes ''root@walu''", OF _ _ _ refl]
  by (simp add: console_zero_def bytes_def)

text \<open>
  C22: A newline moves the cursor to the start of the next row; on the last row the screen scrolls
  by one row instead: the first row disappears, the last row becomes blank in the current colour,
  and the cursor stays on it. On a framebuffer that shows its cells, the pixels show the new cells.
\<close>

theorem console_newline_scrolls:
  assumes "console_inv s" "ansi_parser_state s = ANSI_GROUND" "s' = console_putc 0x0A s"
  shows "cursor_col s' = 0 \<and>
    (if Suc (cursor_row s) < term_rows s
     then cursor_row s' = Suc (cursor_row s) \<and> screen_cells s' = screen_cells s
     else cursor_row s' = cursor_row s \<and>
       screen_cells s' = tl (screen_cells s) @ [blank_row (current_vga_color s) (term_cols s)]) \<and>
    (drawn s \<longrightarrow> drawn s')"
proof -
  let ?s1 = "(serial_out 0x0A s)\<lparr>cursor_col := 0, cursor_row := Suc (cursor_row s)\<rparr>"
  have b: "0 < term_rows ?s1" "term_rows ?s1 < 2 ^ 64" "cursor_row s < term_rows s"
    using assms(1) by (auto simp: console_inv_def)
  have s': "s' = scroll_if_needed ?s1"
    using assms b by (simp add: console_putc_eq console_handle_ground_byte_def raw_newline_def)
  have "draws ?s1 (backend_scroll_up (current_vga_color s) ?s1)"
    by (rule backend_scroll_up_draws [OF b(1,2)])
  note d = draws_same [OF this]
  have c: "current_vga_color ?s1 = current_vga_color s" by (simp add: current_vga_color_def serial_out_def)
  have "drawn s \<longrightarrow> drawn s'" using console_putc_confined(2) [OF assms(1)] assms(3) by blast
  moreover have "cursor_col s' = 0 \<and>
    (if Suc (cursor_row s) < term_rows s
     then cursor_row s' = Suc (cursor_row s) \<and> screen_cells s' = screen_cells s
     else cursor_row s' = cursor_row s \<and>
       screen_cells s' = tl (screen_cells s) @ [blank_row (current_vga_color s) (term_cols s)])"
    using b d backend_scroll_up_screen [of ?s1 "current_vga_color s"]
    by (auto simp: s' scroll_if_needed_def c Let_def)
  ultimately show ?thesis by blast
qed

lemma console_newline_scrolls_witness:
  "cursor_row (console_putc 0x0A (console_zero\<lparr>cursor_row := 24\<rparr>)) = 24"
  using console_newline_scrolls [of "console_zero\<lparr>cursor_row := 24\<rparr>", OF _ _ refl]
  by (simp add: console_zero_def console_inv_def)

text \<open>
  C6: Everything written to the console is copied to the serial port in order, each newline as
  carriage return and newline.
\<close>

theorem serial_mirrors_console:
  assumes "console_inv s" "serial_initialized s"
  shows "port_log (fold console_putc cs s) = port_log s @ concat (map serial_bytes cs)"
proof -
  have "console_inv (fold console_putc cs s) \<and> serial_initialized (fold console_putc cs s) \<and>
      port_log (fold console_putc cs s) = port_log s @ concat (map serial_bytes cs)"
    using assms
  proof (induction cs arbitrary: s)
    case (Cons c cs)
    have "safe_step (serial_out c s) (console_putc c s)" using Cons.prems(1) by (rule console_putc_safe)
    then show ?case using Cons by (simp add: safe_step_def serial_out_def)
  qed simp
  then show ?thesis by simp
qed

lemma serial_mirrors_console_witness:
  "port_log (fold console_putc (bytes ''ok'') (console_zero\<lparr>serial_initialized := True\<rparr>)) =
     [(0x3F8, 0x6F), (0x3F8, 0x6B)]"
  using serial_mirrors_console [of "console_zero\<lparr>serial_initialized := True\<rparr>" "bytes ''ok''"]
  by (simp add: console_zero_def console_inv_def bytes_def serial_bytes_def)

section \<open>Cursor addressing\<close>

lemma digits_value_Cons: "digits_value base (d # ds) = digit_value d * base ^ length ds + digits_value base ds"
  using digits_value_append [of base "[d]" ds] by (simp add: digits_value_def [of _ "[d]"])

lemma csi_digits:
  assumes "ansi_parser_state s = ANSI_CSI" "list_all (\<lambda>d. of_char CHR ''0'' \<le> d \<and> d \<le> of_char CHR ''9'') ds"
    "ds \<noteq> []" "ansi_param_current s = int v" "v * 10 ^ length ds + digits_value 10 ds < 2 ^ 31"
  shows "\<exists>l. fold console_putc ds s = s\<lparr>port_log := l,
    ansi_param_current := int (v * 10 ^ length ds + digits_value 10 ds), ansi_param_active := True\<rparr>"
  using assms
proof (induction ds arbitrary: s v)
  case (Cons d ds)
  define w where "w = 10 * v + digit_value d"
  have d: "of_char CHR ''0'' \<le> d" "d \<le> of_char CHR ''9''" using Cons.prems(2) by auto
  have u: "uint (d - 48) = int (digit_value d)"
  proof -
    have "unat (d - 48) = unat d - 48" using d by (simp add: unat_sub)
    then have "unat (d - 48) = digit_value d" using d by (simp add: digit_value_def word_less_nat_alt word_le_nat_alt)
    then show ?thesis by (metis uint_nat)
  qed
  have e: "w * 10 ^ length ds + digits_value 10 ds = v * 10 ^ length (d # ds) + digits_value 10 (d # ds)"
    by (simp add: w_def digits_value_Cons algebra_simps)
  have "w \<le> w * 10 ^ length ds" by simp
  then have b: "w < 2 ^ 31" using Cons.prems(5) e by linarith
  then have "int_wrap (int_wrap (int v * 10) + uint (d - 48)) = int w"
    by (simp add: u w_def)
  then have step: "console_putc d s = s\<lparr>port_log := port_log (serial_out d s),
      ansi_param_current := int w, ansi_param_active := True\<rparr>"
    using Cons.prems d by (simp add: console_putc_eq console_csi_byte_def serial_out_def)
  show ?case
  proof (cases "ds = []")
    case True
    then show ?thesis using step e by (simp add: digits_value_def [of _ "[]"]) blast
  next
    case False
    have "\<exists>l. fold console_putc ds (console_putc d s) = (console_putc d s)\<lparr>port_log := l,
        ansi_param_current := int (w * 10 ^ length ds + digits_value 10 ds), ansi_param_active := True\<rparr>"
    proof (rule Cons.IH)
      show "ansi_parser_state (console_putc d s) = ANSI_CSI" "ansi_param_current (console_putc d s) = int w"
        using Cons.prems(1) by (simp_all add: step)
      show "list_all (\<lambda>d. of_char CHR ''0'' \<le> d \<and> d \<le> of_char CHR ''9'') ds" using Cons.prems(2) by simp
      show "w * 10 ^ length ds + digits_value 10 ds < 2 ^ 31" using Cons.prems(5) by (simp only: e)
    qed (rule False)
    then show ?thesis by (simp only: e fold_simps step) simp
  qed
next
  case Nil
  from Nil.prems(3) show ?case by simp
qed

text \<open>The bytes of a cursor-position sequence with a decimal row and column.\<close>

definition cup_bytes :: "u64 \<Rightarrow> u64 \<Rightarrow> u8 list" where
  "cup_bytes r c = [0x1B, of_char CHR ''[''] @ dec_text r @ [of_char CHR '';''] @ dec_text c @ [of_char CHR ''H'']"

lemma cup_parsed:
  assumes "console_inv s" "ansi_parser_state s = ANSI_GROUND" "unat r < 2 ^ 31" "unat c < 2 ^ 31"
  shows "\<exists>l ps. fold console_putc (cup_bytes r c) s =
    s\<lparr>port_log := l, ansi_params := ps,
      cursor_row := clamp_index (term_rows s) (size_of_int (int (unat r) - 1)),
      cursor_col := clamp_index (term_cols s) (size_of_int (int (unat c) - 1)), ansi_parser_state := ANSI_GROUND,
      ansi_param_count := 0, ansi_param_current := 0, ansi_param_active := False\<rparr>"
proof -
  define s1 where "s1 = fold console_putc [0x1B, of_char CHR ''[''] s"
  obtain l1 where s1: "s1 = s\<lparr>port_log := l1, ansi_parser_state := ANSI_CSI, ansi_param_count := 0,
      ansi_param_current := 0, ansi_param_active := False\<rparr>"
    using assms(2) by (simp add: s1_def console_putc_eq console_handle_ground_byte_def serial_out_def ansi_reset_params_def)
  then have s1_fields: "ansi_parser_state s1 = ANSI_CSI" "ansi_param_current s1 = 0" by simp_all
  define s2 where "s2 = fold console_putc (dec_text r) s1"
  obtain l2 where s2: "s2 = s1\<lparr>port_log := l2,
      ansi_param_current := int (unat r), ansi_param_active := True\<rparr>"
    using csi_digits [of s1 "dec_text r" 0, folded s2_def] assms(3) dec_text_facts(1,2,4) [of r]
    by (simp add: s1_fields) blast
  have len: "length (ansi_params s) = 8" using assms(1) by (simp add: console_inv_def)
  define s3 where "s3 = console_putc (of_char CHR '';'') s2"
  obtain l3 where s3: "s3 = s1\<lparr>port_log := l3, ansi_params := (ansi_params s)[0 := int (unat r)],
      ansi_param_count := 1, ansi_param_current := 0, ansi_param_active := False\<rparr>"
    by (simp add: s3_def s2 s1 console_putc_eq console_csi_byte_def ansi_push_current_param_def serial_out_def)
  then have s3_fields: "ansi_parser_state s3 = ANSI_CSI" "ansi_param_current s3 = 0" by (simp_all add: s1)
  define s4 where "s4 = fold console_putc (dec_text c) s3"
  obtain l4 where s4: "s4 = s3\<lparr>port_log := l4,
      ansi_param_current := int (unat c), ansi_param_active := True\<rparr>"
    using csi_digits [of s3 "dec_text c" 0, folded s4_def] assms(4) dec_text_facts(1,2,4) [of c]
    by (simp add: s3_fields) blast
  have "int_wrap (int n - 1) = int n - 1" if "n < 2 ^ 31" for n :: nat
    using that by (intro int_wrap_id) simp_all
  note w = this [OF assms(3)] this [OF assms(4)]
  have "\<exists>l ps. console_putc (of_char CHR ''H'') s4 =
    s\<lparr>port_log := l, ansi_params := ps,
      cursor_row := clamp_index (term_rows s) (size_of_int (int (unat r) - 1)),
      cursor_col := clamp_index (term_cols s) (size_of_int (int (unat c) - 1)), ansi_parser_state := ANSI_GROUND,
      ansi_param_count := 0, ansi_param_current := 0, ansi_param_active := False\<rparr>"
    using len assms(2) w
    by (simp add: s4 s3 s1 console_putc_eq console_csi_byte_def ansi_push_current_param_def serial_out_def
        ansi_execute_csi_def ansi_param_at_def ansi_reset_params_def) blast
  moreover have "fold console_putc (cup_bytes r c) s = console_putc (of_char CHR ''H'') s4"
    by (simp add: cup_bytes_def s4_def s3_def s2_def s1_def)
  ultimately show ?thesis by simp
qed

text \<open>
  C29: \<^verbatim>\<open>ESC [ r ; c H\<close> with decimal row and column from 1 on moves the cursor to that cell, clamped
  to the last row and column, and changes nothing on the screen. A row or column 0, which
  terminals take as 1, wraps around in \<^verbatim>\<open>size_t\<close> and goes to the last row or column instead.
\<close>

theorem cursor_position_sequence:
  assumes "console_inv s" "ansi_parser_state s = ANSI_GROUND" "unat r < 2 ^ 31" "unat c < 2 ^ 31"
    and "s' = fold console_putc (cup_bytes r c) s"
  shows "cursor_row s' = (if r = 0 then term_rows s - 1 else min (unat r) (term_rows s) - 1) \<and>
    cursor_col s' = (if c = 0 then term_cols s - 1 else min (unat c) (term_cols s) - 1) \<and>
    screen_cells s' = screen_cells s \<and> ansi_parser_state s' = ANSI_GROUND"
proof -
  have k: "clamp_index n (size_of_int (int v - 1)) = (if v = 0 then n - 1 else min v n - 1)"
    if "0 < n" "n \<le> 160" "v < 2 ^ 31" for n v :: nat
  proof (cases "v = 0")
    case True
    then show ?thesis using that by (simp add: clamp_index_def size_of_int_neg)
  next
    case False
    then have "size_of_int (int v - 1) = v - 1" using that(3) by (subst size_of_int_nonneg) auto
    then show ?thesis using that False by (auto simp: clamp_index_def min_def)
  qed
  have z: "unat v = 0 \<longleftrightarrow> v = 0" for v :: u64 by (simp add: unat_eq_zero)
  obtain l ps where "s' =
    s\<lparr>port_log := l, ansi_params := ps,
      cursor_row := clamp_index (term_rows s) (size_of_int (int (unat r) - 1)),
      cursor_col := clamp_index (term_cols s) (size_of_int (int (unat c) - 1)), ansi_parser_state := ANSI_GROUND,
      ansi_param_count := 0, ansi_param_current := 0, ansi_param_active := False\<rparr>"
    using cup_parsed [OF assms(1-4)] assms(5) by blast
  then show ?thesis
    using assms(1) k [of "term_rows s" "unat r", OF _ _ assms(3)] k [of "term_cols s" "unat c", OF _ _ assms(4)]
    by (simp add: console_inv_def z)
qed

lemma cursor_position_sequence_witness:
  "cursor_row (fold console_putc (cup_bytes 3 5) console_zero) = 2 \<and>
   cursor_row (fold console_putc (cup_bytes 0 0) console_zero) = 24"
  using cursor_position_sequence [OF console_zero_inv, of 3 5, OF _ _ _ refl]
    cursor_position_sequence [OF console_zero_inv, of 0 0, OF _ _ _ refl]
  by (simp add: console_zero_def)

end
