(* ===== verification/Tty.thy ===== *)
theory Tty
  imports Pty Console_Text
begin

text \<open>
  The terminal line discipline of \<^verbatim>\<open>kernel/src/core/tty.c\<close>. It reads bytes from the keyboard,
  edits lines, echoes to the console, and delivers to the attached pseudo-terminal or to its own
  read queue, so its operations act on the record \<open>io_sys\<close> of these four components; the kernel
  extends that record with its other state. \<^verbatim>\<open>unsigned int\<close> indices of the read queue are natural
  numbers (the queue size divides \<open>2 ^ 32\<close>), counters are 64-bit words.
\<close>

section \<open>State\<close>

abbreviation (input) TTY_READ_QUEUE_SIZE :: nat where "TTY_READ_QUEUE_SIZE \<equiv> 2048"
abbreviation (input) TTY_LINE_BUFFER_SIZE :: nat where "TTY_LINE_BUFFER_SIZE \<equiv> 512"

record tty_state =
  tty_read_queue :: "u8 list"
  tty_read_head :: nat
  tty_read_tail :: nat
  tty_line_buffer :: "u8 list"
  tty_line_len :: nat
  tty_canonical :: bool
  tty_echo :: bool
  tty_escape_state :: nat
  tty_rx_count :: u64
  tty_drop_count :: u64
  tty_line_overflow_count :: u64
  tty_escape_discard_count :: u64
  tty_line_truncated :: bool
  tty_session_id :: int
  tty_session_pty :: int

record io_sys =
  kbd :: keyboard_state
  ptys :: pty_state
  con :: console_state
  tty :: tty_state

section \<open>Operations\<close>

definition on_tty :: "(tty_state \<Rightarrow> tty_state) \<Rightarrow> 'a io_sys_scheme \<Rightarrow> 'a io_sys_scheme" where
  "on_tty f s = s\<lparr>tty := f (tty s)\<rparr>"

definition on_con :: "(console_state \<Rightarrow> console_state) \<Rightarrow> 'a io_sys_scheme \<Rightarrow> 'a io_sys_scheme" where
  "on_con f s = s\<lparr>con := f (con s)\<rparr>"

definition tty_count_drop :: "tty_state \<Rightarrow> tty_state" where
  "tty_count_drop t = t\<lparr>tty_drop_count := tty_drop_count t + 1\<rparr>"

definition tty_enqueue_read :: "u8 \<Rightarrow> 'a io_sys_scheme \<Rightarrow> bool \<times> 'a io_sys_scheme" where
  "tty_enqueue_read byte s =
     (if tty_session_pty (tty s) \<ge> 0 \<and> pty_is_valid (tty_session_pty (tty s)) (ptys s)
      then let (wrote, p) = pty_master_write (tty_session_pty (tty s)) (Some [byte]) 1 (ptys s);
               s1 = s\<lparr>ptys := p\<rparr>
           in if wrote = 1 then (True, s1) else (False, on_tty tty_count_drop s1)
      else let t = tty s; nxt = (tty_read_head t + 1) mod TTY_READ_QUEUE_SIZE
           in if nxt = tty_read_tail t then (False, on_tty tty_count_drop s)
              else (True, s\<lparr>tty := t\<lparr>tty_read_queue := (tty_read_queue t)[tty_read_head t := byte],
                                  tty_read_head := nxt\<rparr>\<rparr>))"

text \<open>A call of \<^verbatim>\<open>tty_enqueue_read\<close> that ignores the result.\<close>

definition tty_put :: "u8 \<Rightarrow> 'a io_sys_scheme \<Rightarrow> 'a io_sys_scheme" where
  "tty_put byte s = snd (tty_enqueue_read byte s)"

definition tty_flush_line_buffer :: "'a io_sys_scheme \<Rightarrow> 'a io_sys_scheme" where
  "tty_flush_line_buffer s =
     on_tty (\<lambda>t. t\<lparr>tty_line_len := 0\<rparr>)
       (for_range 0 (tty_line_len (tty s)) (\<lambda>i s. tty_put (tty_line_buffer (tty s) ! i) s) s)"

definition tty_is_printable :: "u8 \<Rightarrow> bool" where
  "tty_is_printable byte \<longleftrightarrow> byte \<ge> 0x20 \<or> byte = 0x09"

definition tty_handle_escape_filter :: "u8 \<Rightarrow> tty_state \<Rightarrow> bool \<times> tty_state" where
  "tty_handle_escape_filter byte t =
     (if tty_escape_state t = 0 then
        if byte = 0x1B
        then (True, t\<lparr>tty_escape_state := 1, tty_escape_discard_count := tty_escape_discard_count t + 1\<rparr>)
        else (False, t)
      else
        let t1 = t\<lparr>tty_escape_discard_count := tty_escape_discard_count t + 1\<rparr>
        in if tty_escape_state t1 = 1 then
             if byte = of_char CHR ''['' \<or> byte = of_char CHR ''O''
             then (True, t1\<lparr>tty_escape_state := 2\<rparr>)
             else (True, t1\<lparr>tty_escape_state := 0\<rparr>)
           else if tty_escape_state t1 = 2 \<and> byte \<ge> of_char CHR ''@'' \<and> byte \<le> of_char CHR ''~''
           then (True, t1\<lparr>tty_escape_state := 0\<rparr>)
           else (True, t1))"

definition tty_echo_with :: "(console_state \<Rightarrow> console_state) \<Rightarrow> 'a io_sys_scheme \<Rightarrow> 'a io_sys_scheme" where
  "tty_echo_with f s = (if tty_echo (tty s) then on_con f s else s)"

definition tty_overflow :: "tty_state \<Rightarrow> tty_state" where
  "tty_overflow t = t\<lparr>tty_drop_count := tty_drop_count t + 1,
     tty_line_overflow_count := tty_line_overflow_count t + 1\<rparr>"

definition tty_append :: "u8 \<Rightarrow> tty_state \<Rightarrow> tty_state" where
  "tty_append byte t = t\<lparr>tty_line_buffer := (tty_line_buffer t)[tty_line_len t := byte],
     tty_line_len := tty_line_len t + 1\<rparr>"

definition tty_handle_canonical :: "u8 \<Rightarrow> 'a io_sys_scheme \<Rightarrow> 'a io_sys_scheme" where
  "tty_handle_canonical byte s0 =
     (let (consumed, t1) = tty_handle_escape_filter byte (tty s0); s = s0\<lparr>tty := t1\<rparr>
      in if consumed then s
         else if byte = 0x03 then
           tty_echo_with (console_write (bytes ''^C'' @ [0x0A]))
             (tty_put byte (on_tty (\<lambda>t. t\<lparr>tty_line_len := 0\<rparr>) s))
         else if byte = 0x0C then tty_put byte s
         else if byte = 0x08 \<or> byte = 0x7F then
           (if tty_line_len (tty s) > 0
            then tty_echo_with console_backspace
                   (on_tty (\<lambda>t. t\<lparr>tty_line_len := tty_line_len t - 1\<rparr>) s)
            else s)
         else if byte = 0x0A then
           on_tty (\<lambda>t. t\<lparr>tty_line_truncated := False\<rparr>)
             (tty_flush_line_buffer
               (tty_echo_with (console_putc 0x0A)
                 (if tty_line_len (tty s) + 1 < TTY_LINE_BUFFER_SIZE
                  then on_tty (tty_append 0x0A) s
                  else on_tty (\<lambda>t. (tty_overflow t)\<lparr>tty_line_truncated := True\<rparr>) s)))
         else if byte = 0x04 then
           (if tty_line_len (tty s) = 0 then tty_put byte s else tty_flush_line_buffer s)
         else if \<not> tty_is_printable byte then s
         else if tty_line_len (tty s) + 1 \<ge> TTY_LINE_BUFFER_SIZE then
           on_tty (\<lambda>t. t\<lparr>tty_line_truncated := True\<rparr>)
             (let s1 = on_tty tty_overflow s
              in if \<not> tty_line_truncated (tty s1) then tty_echo_with (console_putc 0x07) s1 else s1)
         else tty_echo_with (console_putc byte) (on_tty (tty_append byte) s))"

definition tty_handle_noncanonical :: "u8 \<Rightarrow> 'a io_sys_scheme \<Rightarrow> 'a io_sys_scheme" where
  "tty_handle_noncanonical byte s = tty_echo_with (console_putc byte) (tty_put byte s)"

definition tty_init :: "'a io_sys_scheme \<Rightarrow> 'a io_sys_scheme" where
  "tty_init = on_tty (\<lambda>t. t\<lparr>tty_read_head := 0, tty_read_tail := 0, tty_line_len := 0,
     tty_canonical := True, tty_echo := True, tty_escape_state := 0, tty_rx_count := 0,
     tty_drop_count := 0, tty_line_overflow_count := 0, tty_escape_discard_count := 0,
     tty_line_truncated := False, tty_session_id := -1, tty_session_pty := -1\<rparr>)"

text \<open>The loop body shared by \<^verbatim>\<open>tty_poll_input\<close> and \<^verbatim>\<open>tty_test_inject_bytes\<close>.\<close>

definition tty_receive :: "u8 \<Rightarrow> 'a io_sys_scheme \<Rightarrow> 'a io_sys_scheme" where
  "tty_receive byte s0 =
     (let s = on_tty (\<lambda>t. t\<lparr>tty_rx_count := tty_rx_count t + 1\<rparr>) s0
      in if tty_canonical (tty s) then tty_handle_canonical byte s else tty_handle_noncanonical byte s)"

text \<open>
  The loop of \<^verbatim>\<open>tty_poll_input\<close> ends when the keyboard queue is empty; \<^const>\<open>None\<close> is a loop that
  does not end.
\<close>

partial_function (option) tty_poll_input :: "'a io_sys_scheme \<Rightarrow> 'a io_sys_scheme option" where
  "tty_poll_input s =
     (case keyboard_pop_char (kbd s) of
        None \<Rightarrow> Some s
      | Some (c, k) \<Rightarrow> tty_poll_input (tty_receive c (s\<lparr>kbd := k\<rparr>)))"

declare tty_poll_input.simps [code]

definition tty_pop_char :: "'a io_sys_scheme \<Rightarrow> (u8 \<times> 'a io_sys_scheme) option" where
  "tty_pop_char s =
     (let t = tty s
      in if tty_read_tail t = tty_read_head t then None
         else Some (tty_read_queue t ! tty_read_tail t,
                    s\<lparr>tty := t\<lparr>tty_read_tail := (tty_read_tail t + 1) mod TTY_READ_QUEUE_SIZE\<rparr>\<rparr>))"

definition tty_set_canonical :: "bool \<Rightarrow> 'a io_sys_scheme \<Rightarrow> 'a io_sys_scheme" where
  "tty_set_canonical enabled = on_tty (\<lambda>t. t\<lparr>tty_canonical := enabled\<rparr>)"

definition tty_set_echo :: "bool \<Rightarrow> 'a io_sys_scheme \<Rightarrow> 'a io_sys_scheme" where
  "tty_set_echo enabled = on_tty (\<lambda>t. t\<lparr>tty_echo := enabled\<rparr>)"

definition tty_rx_bytes :: "'a io_sys_scheme \<Rightarrow> u64" where
  "tty_rx_bytes s = tty_rx_count (tty s)"

definition tty_dropped_bytes :: "'a io_sys_scheme \<Rightarrow> u64" where
  "tty_dropped_bytes s = tty_drop_count (tty s)"

definition tty_line_overflows :: "'a io_sys_scheme \<Rightarrow> u64" where
  "tty_line_overflows s = tty_line_overflow_count (tty s)"

definition tty_escape_discards :: "'a io_sys_scheme \<Rightarrow> u64" where
  "tty_escape_discards s = tty_escape_discard_count (tty s)"

definition tty_attach_session :: "int \<Rightarrow> int \<Rightarrow> 'a io_sys_scheme \<Rightarrow> 'a io_sys_scheme" where
  "tty_attach_session session_id pty_id = on_tty (\<lambda>t. t\<lparr>tty_session_id := session_id, tty_session_pty := pty_id\<rparr>)"

definition tty_attached_session :: "'a io_sys_scheme \<Rightarrow> int" where
  "tty_attached_session s = tty_session_id (tty s)"

definition tty_attached_pty :: "'a io_sys_scheme \<Rightarrow> int" where
  "tty_attached_pty s = tty_session_pty (tty s)"

definition tty_test_inject_bytes :: "u8 list option \<Rightarrow> nat \<Rightarrow> 'a io_sys_scheme \<Rightarrow> 'a io_sys_scheme" where
  "tty_test_inject_bytes buf len s =
     (case buf of None \<Rightarrow> s | Some b \<Rightarrow> for_range 0 len (\<lambda>i. tty_receive (b ! i)) s)"

section \<open>Specification\<close>

text \<open>
  Readers of the terminal see one queue: the attached pseudo-terminal's, or the terminal's own.
\<close>

definition tty_inv :: "tty_state \<Rightarrow> bool" where
  "tty_inv t \<longleftrightarrow> ring_wf TTY_READ_QUEUE_SIZE (tty_read_queue t) (tty_read_head t) (tty_read_tail t) \<and>
     length (tty_line_buffer t) = TTY_LINE_BUFFER_SIZE \<and> tty_line_len t < TTY_LINE_BUFFER_SIZE \<and>
     tty_escape_state t \<le> 2"

definition io_inv :: "'a io_sys_scheme \<Rightarrow> bool" where
  "io_inv s \<longleftrightarrow> tty_inv (tty s) \<and> pty_inv (ptys s) \<and> console_inv (con s)"

declare on_tty_def [op_defs] on_con_def [op_defs] tty_set_canonical_def [op_defs] tty_set_echo_def [op_defs]
declare io_inv_def [inv_defs]

definition attached :: "'a io_sys_scheme \<Rightarrow> bool" where
  "attached s \<longleftrightarrow> tty_session_pty (tty s) \<ge> 0 \<and> pty_is_valid (tty_session_pty (tty s)) (ptys s)"

definition tty_reads :: "tty_state \<Rightarrow> u8 list" where
  "tty_reads t = ring_list TTY_READ_QUEUE_SIZE (tty_read_queue t) (tty_read_head t) (tty_read_tail t)"

definition tty_sink :: "'a io_sys_scheme \<Rightarrow> u8 list" where
  "tty_sink s = (if attached s then to_slave (tty_session_pty (tty s)) (ptys s) else tty_reads (tty s))"

definition tty_sink_pop :: "'a io_sys_scheme \<Rightarrow> (u8 \<times> 'a io_sys_scheme) option" where
  "tty_sink_pop s =
     (if attached s then map_option (\<lambda>(b, p). (b, s\<lparr>ptys := p\<rparr>)) (m2s_pop (tty_session_pty (tty s)) (ptys s))
      else tty_pop_char s)"

text \<open>
  The line editor the discipline implements, on lists: the state is the escape filter's and the
  line typed so far; each byte gives the next state and the bytes delivered to readers.
\<close>

type_synonym editor = "nat \<times> u8 list"

definition escape_next :: "u8 \<Rightarrow> nat \<Rightarrow> nat" where
  "escape_next b e =
     (if e = 0 then 1
      else if e = 1 then if b = of_char CHR ''['' \<or> b = of_char CHR ''O'' then 2 else 0
      else if b \<ge> of_char CHR ''@'' \<and> b \<le> of_char CHR ''~'' then 0 else e)"

definition editor_step :: "u8 \<Rightarrow> editor \<Rightarrow> editor \<times> u8 list" where
  "editor_step b ed = (case ed of (e, l) \<Rightarrow>
     if e \<noteq> 0 \<or> b = 0x1B then ((escape_next b e, l), [])
     else if b = 0x03 then ((0, []), [b])
     else if b = 0x0C then ((0, l), [b])
     else if b = 0x08 \<or> b = 0x7F then ((0, butlast l), [])
     else if b = 0x0A then ((0, []), if length l < 511 then l @ [b] else l)
     else if b = 0x04 then ((0, []), if l = [] then [b] else l)
     else if tty_is_printable b \<and> length l < 511 then ((0, l @ [b]), [])
     else ((0, l), []))"

fun editor_run :: "u8 list \<Rightarrow> editor \<Rightarrow> editor \<times> u8 list" where
  "editor_run [] ed = (ed, [])"
| "editor_run (b # bs) ed =
     (let (ed1, out1) = editor_step b ed; (ed2, out2) = editor_run bs ed1 in (ed2, out1 @ out2))"

definition tty_editor :: "'a io_sys_scheme \<Rightarrow> editor" where
  "tty_editor s = (tty_escape_state (tty s), take (tty_line_len (tty s)) (tty_line_buffer (tty s)))"

section \<open>The queue readers see\<close>

text \<open>
  What delivering a byte leaves alone: the keyboard, the console, the line and the modes.
\<close>

definition same_line :: "tty_state \<Rightarrow> tty_state \<Rightarrow> bool" where
  "same_line t t' \<longleftrightarrow> tty_line_buffer t' = tty_line_buffer t \<and> tty_line_len t' = tty_line_len t \<and>
     tty_escape_state t' = tty_escape_state t \<and> tty_session_pty t' = tty_session_pty t \<and>
     tty_session_id t' = tty_session_id t \<and> tty_echo t' = tty_echo t \<and>
     tty_canonical t' = tty_canonical t \<and> tty_rx_count t' = tty_rx_count t \<and>
     tty_line_truncated t' = tty_line_truncated t \<and>
     tty_line_overflow_count t' = tty_line_overflow_count t"

definition delivers :: "'a io_sys_scheme \<Rightarrow> 'a io_sys_scheme \<Rightarrow> bool" where
  "delivers s s' \<longleftrightarrow> kbd s' = kbd s \<and> con s' = con s \<and> same_line (tty s) (tty s') \<and>
     io_sys.more s' = io_sys.more s \<and> attached s' = attached s"

lemma delivers_refl [simp]: "delivers s s"
  by (simp add: delivers_def same_line_def)

lemma delivers_trans: "delivers s s' \<Longrightarrow> delivers s' s'' \<Longrightarrow> delivers s s''"
  by (simp add: delivers_def same_line_def)

lemma attached_tty [simp]: "tty_session_pty t = tty_session_pty (tty s) \<Longrightarrow> attached (s\<lparr>tty := t\<rparr>) = attached s"
  by (simp add: attached_def)

lemma attached_con [simp]: "attached (s\<lparr>con := c\<rparr>) = attached s" "attached (s\<lparr>kbd := k\<rparr>) = attached s"
  by (simp_all add: attached_def)

lemma tty_put_spec:
  assumes "io_inv s"
  shows "io_inv (tty_put b s) \<and> delivers s (tty_put b s) \<and>
    tty_sink (tty_put b s) = take 2047 (tty_sink s @ [b]) \<and>
    tty_drop_count (tty (tty_put b s)) = tty_drop_count (tty s) + (if length (tty_sink s) < 2047 then 0 else 1)"
proof (cases "attached s")
  case True
  let ?i = "tty_session_pty (tty s)"
  obtain w p where w: "pty_master_write ?i (Some [b]) 1 (ptys s) = (w, p)" by fastforce
  have inv: "pty_inv (ptys s)" "pty_is_valid ?i (ptys s)" using assms True by (simp_all add: io_inv_def attached_def)
  note sp = pty_master_write_valid [OF inv _ w, simplified]
  have cap: "PTY_CAP = 2047" by (simp add: PTY_CAP_def PTY_QUEUE_SIZE_def)
  have le: "length (to_slave ?i (ptys s)) \<le> 2047" using to_slave_le_cap [OF inv] by (simp add: cap)
  have put: "tty_put b s = (if w = 1 then s\<lparr>ptys := p\<rparr> else on_tty tty_count_drop (s\<lparr>ptys := p\<rparr>))"
    using True w by (simp add: tty_put_def tty_enqueue_read_def attached_def)
  have v: "pty_is_valid ?i p" using sp inv(2) pty_only_valid by blast
  show ?thesis
    using True assms sp le v
    by (cases "length (to_slave ?i (ptys s)) = 2047")
      (auto simp: put cap io_inv_def tty_inv_def on_tty_def tty_count_drop_def delivers_def same_line_def
        attached_def tty_sink_def)
next
  case False
  define t where "t = tty s"
  let ?nxt = "Suc (tty_read_head t) mod 2048"
  have wf: "ring_wf 2048 (tty_read_queue t) (tty_read_head t) (tty_read_tail t)"
    using assms by (simp add: io_inv_def tty_inv_def t_def)
  have full: "?nxt = tty_read_tail t \<longleftrightarrow> length (tty_reads t) = 2047"
    using ring_full_iff [OF wf] by (simp add: tty_reads_def)
  have le: "length (tty_reads t) \<le> 2047"
    using ring_list_length_le [OF wf] by (simp add: tty_reads_def)
  have put: "tty_put b s = (if ?nxt = tty_read_tail t then on_tty tty_count_drop s
     else s\<lparr>tty := t\<lparr>tty_read_queue := (tty_read_queue t)[tty_read_head t := b], tty_read_head := ?nxt\<rparr>\<rparr>)"
    using False by (auto simp: tty_put_def tty_enqueue_read_def attached_def t_def Let_def)
  show ?thesis
  proof (cases "?nxt = tty_read_tail t")
    case True
    then show ?thesis
      using False assms full by (simp add: put io_inv_def tty_inv_def on_tty_def tty_count_drop_def
          delivers_def same_line_def tty_sink_def tty_reads_def t_def)
  next
    case nf: False
    then have "length (tty_reads t) < 2047" using full le by simp
    then show ?thesis
      using False assms nf ring_list_push [OF wf nf] ring_wf_push [OF wf]
      by (simp add: put io_inv_def tty_inv_def delivers_def same_line_def tty_sink_def
          tty_reads_def t_def)
  qed
qed

lemma tty_sink_le: "io_inv s \<Longrightarrow> length (tty_sink s) \<le> 2047"
  using to_slave_le_cap [of "ptys s" "tty_session_pty (tty s)"]
    ring_list_length_le [of 2048 "tty_read_queue (tty s)" "tty_read_head (tty s)" "tty_read_tail (tty s)"]
  by (auto simp: tty_sink_def io_inv_def tty_inv_def attached_def tty_reads_def PTY_CAP_def PTY_QUEUE_SIZE_def)

lemma tty_sink_pop_spec:
  assumes "io_inv s"
  shows "tty_sink s = [] \<Longrightarrow> tty_sink_pop s = None"
    and "tty_sink s = b # bs \<Longrightarrow> \<exists>s'. tty_sink_pop s = Some (b, s') \<and> tty_sink s' = bs \<and> io_inv s'"
proof -
  let ?i = "tty_session_pty (tty s)"
  have r: "pty_ready ?i (ptys s)" if "attached s"
    using that assms by (simp add: pty_ready_def io_inv_def attached_def)
  have wf: "ring_wf 2048 (tty_read_queue (tty s)) (tty_read_head (tty s)) (tty_read_tail (tty s))"
    using assms by (simp add: io_inv_def tty_inv_def)
  show "tty_sink_pop s = None" if "tty_sink s = []"
  proof (cases "attached s")
    case True
    then show ?thesis using that m2s_queue.pop_empty [OF r [OF True]] by (simp add: tty_sink_def tty_sink_pop_def)
  next
    case False
    then show ?thesis using that ring_list_empty_iff [OF wf]
      by (auto simp: tty_sink_def tty_sink_pop_def tty_pop_char_def tty_reads_def Let_def)
  qed
  show "\<exists>s'. tty_sink_pop s = Some (b, s') \<and> tty_sink s' = bs \<and> io_inv s'" if "tty_sink s = b # bs"
  proof (cases "attached s")
    case True
    then obtain p where p: "m2s_pop ?i (ptys s) = Some (b, p)" "to_slave ?i p = bs" "pty_ready ?i p"
      using m2s_queue.pop_front [OF r [OF True], of b bs] \<open>tty_sink s = b # bs\<close> by (auto simp: tty_sink_def)
    then show ?thesis
      using True assms by (simp add: tty_sink_pop_def tty_sink_def attached_def pty_ready_def io_inv_def)
  next
    case False
    then have ne: "tty_read_head (tty s) \<noteq> tty_read_tail (tty s)"
      using that ring_list_empty_iff [OF wf] by (auto simp: tty_sink_def tty_reads_def)
    let ?s = "s\<lparr>tty := (tty s)\<lparr>tty_read_tail := Suc (tty_read_tail (tty s)) mod 2048\<rparr>\<rparr>"
    show ?thesis
      using False that assms ne ring_list_pop [OF wf ne] ring_wf_pop [OF wf]
      by (intro exI [of _ ?s]) (simp add: tty_sink_def tty_sink_pop_def tty_pop_char_def tty_reads_def Let_def
          io_inv_def tty_inv_def)
  qed
qed

interpretation tty_queue: counting_fifo io_inv tty_sink 2047 tty_put tty_sink_pop "\<lambda>s. tty_drop_count (tty s)"
proof (unfold_locales, goal_cases)
  case (6 s x xs)
  then show ?case by (rule tty_sink_pop_spec(2))
qed (simp_all add: tty_sink_le tty_put_spec tty_sink_pop_spec)

lemma tty_puts_delivers: "io_inv s \<Longrightarrow> delivers s (fold tty_put bs s)"
proof (induction bs arbitrary: s)
  case (Cons b bs)
  then show ?case using tty_put_spec [OF Cons.prems, of b] Cons.IH [of "tty_put b s"]
    by (auto intro: delivers_trans)
qed simp

lemma tty_flush_eq:
  assumes "io_inv s"
  shows "tty_flush_line_buffer s =
    on_tty (\<lambda>t. t\<lparr>tty_line_len := 0\<rparr>) (fold tty_put (snd (tty_editor s)) s)"
proof -
  let ?body = "\<lambda>i s. tty_put (tty_line_buffer (tty s) ! i) s"
  let ?l = "tty_line_buffer (tty s)"
  have "for_range 0 n ?body s = fold tty_put (take n ?l) s \<and> io_inv (for_range 0 n ?body s) \<and>
      tty_line_buffer (tty (for_range 0 n ?body s)) = ?l" if "n \<le> length ?l" for n
    using that
  proof (induction n)
    case (Suc n)
    let ?s = "for_range 0 n ?body s"
    have ih: "?s = fold tty_put (take n ?l) s" "io_inv ?s" "tty_line_buffer (tty ?s) = ?l" using Suc by auto
    have e: "for_range 0 (Suc n) ?body s = tty_put (?l ! n) ?s" using ih(3) by simp
    have "fold tty_put (take (Suc n) ?l) s = tty_put (?l ! n) ?s"
      using Suc.prems by (simp add: take_Suc_conv_app_nth ih(1))
    then show ?case using e tty_put_spec [OF ih(2)] ih(3) by (simp add: delivers_def same_line_def)
  qed (simp add: assms)
  moreover have "tty_line_len (tty s) \<le> length ?l" using assms by (simp add: io_inv_def tty_inv_def)
  ultimately show ?thesis by (simp add: tty_flush_line_buffer_def tty_editor_def)
qed

text \<open>The effect of a byte in terms of the editor: the next editor state, what readers get, the invariant.\<close>

definition edits :: "'a io_sys_scheme \<Rightarrow> 'a io_sys_scheme \<Rightarrow> editor \<Rightarrow> u8 list \<Rightarrow> bool" where
  "edits s s' ed out \<longleftrightarrow> io_inv s' \<and> tty_editor s' = ed \<and> tty_sink s' = take 2047 (tty_sink s @ out) \<and>
     kbd s' = kbd s \<and> io_sys.more s' = io_sys.more s \<and> attached s' = attached s \<and>
     tty_canonical (tty s') = tty_canonical (tty s) \<and> tty_echo (tty s') = tty_echo (tty s) \<and>
     tty_session_pty (tty s') = tty_session_pty (tty s) \<and> tty_rx_count (tty s') = tty_rx_count (tty s)"

lemma edits_trans:
  "edits s s' ed out \<Longrightarrow> edits s' s'' ed' out' \<Longrightarrow> io_inv s \<Longrightarrow> edits s s'' ed' (out @ out')"
  unfolding edits_def using tty_sink_le [of s]
  by (auto simp: take_append min_def)

lemma edits_puts:
  assumes "io_inv s"
  shows "edits s (fold tty_put bs s) (tty_editor s) bs"
  using tty_puts_delivers [OF assms, of bs] tty_queue.pushes_contents [OF assms, of bs]
    tty_queue.pushes_invar [OF assms, of bs]
  by (simp add: edits_def delivers_def same_line_def tty_editor_def)

text \<open>A change of the line, the escape filter or the counters only.\<close>

lemma edits_tty:
  assumes "io_inv s" "tty_inv (f (tty s))" "tty_reads (f (tty s)) = tty_reads (tty s)"
    "tty_session_pty (f (tty s)) = tty_session_pty (tty s)" "tty_canonical (f (tty s)) = tty_canonical (tty s)"
    "tty_echo (f (tty s)) = tty_echo (tty s)" "tty_rx_count (f (tty s)) = tty_rx_count (tty s)"
  shows "edits s (on_tty f s) (tty_escape_state (f (tty s)), take (tty_line_len (f (tty s))) (tty_line_buffer (f (tty s)))) []"
  using assms tty_sink_le [OF assms(1)]
  by (auto simp: edits_def on_tty_def io_inv_def tty_editor_def tty_sink_def)

lemma edits_echo:
  assumes "io_inv s" "console_inv (con s) \<Longrightarrow> console_inv (f (con s))"
  shows "edits s (tty_echo_with f s) (tty_editor s) []"
  using assms tty_sink_le [OF assms(1)]
  by (auto simp: edits_def tty_echo_with_def on_con_def io_inv_def tty_editor_def tty_sink_def)

lemma edits_inv: "edits s s' ed out \<Longrightarrow> io_inv s'"
  by (simp add: edits_def)

lemma edits_editor: "edits s s' ed out \<Longrightarrow> tty_editor s' = ed"
  by (simp add: edits_def)

section \<open>Refinement of the line editor\<close>

lemma console_write_inv: "console_inv s \<Longrightarrow> console_inv (console_write str s)"
  using console_machine.run_inv [of s s] by (simp add: console_write_def)

lemma console_backspace_inv: "console_inv s \<Longrightarrow> console_inv (console_backspace s)"
  using console_backspace_safe by (simp add: safe_step_def)

lemma console_putc_inv: "console_inv s \<Longrightarrow> console_inv (console_putc c s)"
  using console_putc_confined by blast

lemma edits_clear_line:
  assumes "io_inv s"
  shows "edits s (on_tty (\<lambda>t. t\<lparr>tty_line_len := 0\<rparr>) s) (fst (tty_editor s), []) []"
  using edits_tty [of s "\<lambda>t. t\<lparr>tty_line_len := 0\<rparr>"] assms
  by (simp add: io_inv_def tty_inv_def tty_reads_def tty_editor_def)

lemma edits_flush:
  assumes "io_inv s"
  shows "edits s (tty_flush_line_buffer s) (fst (tty_editor s), []) (snd (tty_editor s))"
proof -
  note p = edits_puts [OF assms, of "snd (tty_editor s)"]
  from edits_trans [OF p edits_clear_line [OF edits_inv [OF p]] assms] edits_editor [OF p]
  show ?thesis by (simp add: tty_flush_eq [OF assms])
qed

lemma edits_flags:
  assumes "io_inv s"
  shows "edits s (on_tty (\<lambda>t. t\<lparr>tty_line_truncated := v\<rparr>) s) (tty_editor s) []"
    and "edits s (on_tty tty_overflow s) (tty_editor s) []"
    and "edits s (on_tty (\<lambda>t. (tty_overflow t)\<lparr>tty_line_truncated := v\<rparr>) s) (tty_editor s) []"
  using assms edits_tty [OF assms, of "\<lambda>t. t\<lparr>tty_line_truncated := v\<rparr>"] edits_tty [OF assms, of tty_overflow]
    edits_tty [OF assms, of "\<lambda>t. (tty_overflow t)\<lparr>tty_line_truncated := v\<rparr>"]
  by (simp_all add: io_inv_def tty_inv_def tty_reads_def tty_editor_def tty_overflow_def)

lemma edits_append:
  assumes "io_inv s" "tty_line_len (tty s) < 511"
  shows "edits s (on_tty (tty_append b) s) (fst (tty_editor s), snd (tty_editor s) @ [b]) []"
  using assms edits_tty [OF assms(1), of "tty_append b"]
  by (simp add: io_inv_def tty_inv_def tty_reads_def tty_editor_def tty_append_def take_Suc_conv_app_nth)

lemma edits_erase:
  assumes "io_inv s" "0 < tty_line_len (tty s)"
  shows "edits s (on_tty (\<lambda>t. t\<lparr>tty_line_len := tty_line_len t - 1\<rparr>) s)
    (fst (tty_editor s), butlast (snd (tty_editor s))) []"
  using assms edits_tty [OF assms(1), of "\<lambda>t. t\<lparr>tty_line_len := tty_line_len t - 1\<rparr>"]
  by (auto simp: io_inv_def tty_inv_def tty_reads_def tty_editor_def butlast_take)

lemma edits_refl: "io_inv s \<Longrightarrow> edits s s (tty_editor s) []"
  using edits_puts [of s "[]"] by simp

text \<open>Two steps one after the other, the second given for the state the first one leaves.\<close>

lemma edits_then:
  assumes "edits s s' ed out" "io_inv s" "io_inv s' \<Longrightarrow> tty_editor s' = ed \<Longrightarrow> edits s' s'' ed' out'"
    "out'' = out @ out'"
  shows "edits s s'' ed' out''"
  using edits_trans [OF assms(1) assms(3) assms(2)] assms(4) edits_inv [OF assms(1)] edits_editor [OF assms(1)]
  by simp

lemma tty_editor_length: "io_inv s \<Longrightarrow> length (snd (tty_editor s)) = tty_line_len (tty s)"
  by (simp add: tty_editor_def io_inv_def tty_inv_def)

lemma edits_escape:
  assumes "io_inv s" "tty_handle_escape_filter b (tty s) = (consumed, t)"
  shows "consumed \<longleftrightarrow> tty_escape_state (tty s) \<noteq> 0 \<or> b = 0x1B"
    and "consumed \<Longrightarrow> edits s (s\<lparr>tty := t\<rparr>) (escape_next b (fst (tty_editor s)), snd (tty_editor s)) []"
    and "\<not> consumed \<Longrightarrow> t = tty s"
proof -
  show c: "consumed \<longleftrightarrow> tty_escape_state (tty s) \<noteq> 0 \<or> b = 0x1B" "\<not> consumed \<Longrightarrow> t = tty s"
    using assms(2) by (auto simp: tty_handle_escape_filter_def Let_def split: if_splits)
  assume consumed
  have e: "tty_escape_state (tty s) \<le> 2" using assms(1) by (simp add: io_inv_def tty_inv_def)
  have t: "tty_escape_state t = escape_next b (tty_escape_state (tty s))" "tty_escape_state t \<le> 2"
    using assms(2) \<open>consumed\<close> e
    by (auto simp: tty_handle_escape_filter_def Let_def escape_next_def split: if_splits)
  moreover have "tty_read_queue t = tty_read_queue (tty s)" "tty_read_head t = tty_read_head (tty s)"
    "tty_read_tail t = tty_read_tail (tty s)" "tty_line_buffer t = tty_line_buffer (tty s)"
    "tty_line_len t = tty_line_len (tty s)" "tty_session_pty t = tty_session_pty (tty s)"
    "tty_canonical t = tty_canonical (tty s)" "tty_echo t = tty_echo (tty s)" "tty_rx_count t = tty_rx_count (tty s)"
    using assms(2) by (auto simp: tty_handle_escape_filter_def Let_def split: if_splits)
  ultimately show "edits s (s\<lparr>tty := t\<rparr>) (escape_next b (fst (tty_editor s)), snd (tty_editor s)) []"
    using assms(1) edits_tty [OF assms(1), of "\<lambda>_. t"]
    by (auto simp: on_tty_def io_inv_def tty_inv_def tty_reads_def tty_editor_def)
qed

lemma edits_echoed:
  assumes "edits s s' ed out" "io_inv s" "\<And>c. console_inv c \<Longrightarrow> console_inv (f c)"
  shows "edits s (tty_echo_with f s') ed out"
proof (rule edits_then [OF assms(1,2)])
  assume i: "io_inv s'" and e: "tty_editor s' = ed"
  show "edits s' (tty_echo_with f s') ed []"
    using edits_echo [OF i, of f] assms(3) e by simp
qed simp

lemma edits_put: "io_inv s \<Longrightarrow> edits s (tty_put b s) (tty_editor s) [b]"
  using edits_puts [of s "[b]"] by simp

lemma edits_interrupt:
  assumes i: "io_inv s"
  shows "edits s (tty_put b (on_tty (\<lambda>t. t\<lparr>tty_line_len := 0\<rparr>) s)) (fst (tty_editor s), []) [b]"
proof (rule edits_then [OF edits_clear_line [OF i] i])
  let ?s = "on_tty (\<lambda>t. t\<lparr>tty_line_len := 0\<rparr>) s"
  assume "io_inv ?s" "tty_editor ?s = (fst (tty_editor s), [])"
  then show "edits ?s (tty_put b ?s) (fst (tty_editor s), []) [b]" using edits_put [of ?s b] by simp
qed simp

lemma edits_flushed:
  assumes "edits s s' (e, l) []" "io_inv s"
  shows "edits s (tty_flush_line_buffer s') (e, []) l"
proof (rule edits_then [OF assms])
  assume "io_inv s'" "tty_editor s' = (e, l)"
  then show "edits s' (tty_flush_line_buffer s') (e, []) l" using edits_flush [of s'] by simp
qed simp

lemma edits_newline:
  assumes "edits s s' (e, l) []" "io_inv s"
  shows "edits s (on_tty (\<lambda>t. t\<lparr>tty_line_truncated := v\<rparr>)
    (tty_flush_line_buffer (tty_echo_with (console_putc c) s'))) (e, []) l"
proof (rule edits_then)
  let ?s1 = "tty_flush_line_buffer (tty_echo_with (console_putc c) s')"
  show "edits s ?s1 (e, []) l"
    using edits_echoed [OF assms console_putc_inv] assms(2) by (rule edits_flushed)
  assume "io_inv ?s1" "tty_editor ?s1 = (e, [])"
  then show "edits ?s1 (on_tty (\<lambda>t. t\<lparr>tty_line_truncated := v\<rparr>) ?s1) (e, []) []"
    using edits_flags(1) [of ?s1] by simp
qed (simp_all add: assms)

lemma edits_too_long:
  assumes i: "io_inv s"
  shows "edits s (on_tty (\<lambda>t. t\<lparr>tty_line_truncated := True\<rparr>)
    (if \<not> tty_line_truncated (tty (on_tty tty_overflow s)) then tty_echo_with (console_putc 0x07) (on_tty tty_overflow s)
     else on_tty tty_overflow s)) (tty_editor s) []"
proof (rule edits_then)
  let ?s1 = "if \<not> tty_line_truncated (tty (on_tty tty_overflow s))
    then tty_echo_with (console_putc 0x07) (on_tty tty_overflow s) else on_tty tty_overflow s"
  show "edits s ?s1 (tty_editor s) []"
    using edits_echoed [OF edits_flags(2) [OF i] i console_putc_inv] edits_flags(2) [OF i] by simp
  assume "io_inv ?s1" "tty_editor ?s1 = tty_editor s"
  then show "edits ?s1 (on_tty (\<lambda>t. t\<lparr>tty_line_truncated := True\<rparr>) ?s1) (tty_editor s) []"
    using edits_flags(1) [of ?s1] by metis
qed (simp_all add: i)

lemma tty_handle_canonical_ground:
  assumes "tty_escape_state (tty s) = 0" "b \<noteq> 0x1B"
  shows "tty_handle_canonical b s =
      (if b = 0x03 then tty_echo_with (console_write (bytes ''^C'' @ [0x0A]))
         (tty_put b (on_tty (\<lambda>t. t\<lparr>tty_line_len := 0\<rparr>) s))
       else if b = 0x0C then tty_put b s
       else if b = 0x08 \<or> b = 0x7F then
         (if tty_line_len (tty s) > 0 then tty_echo_with console_backspace
            (on_tty (\<lambda>t. t\<lparr>tty_line_len := tty_line_len t - 1\<rparr>) s) else s)
       else if b = 0x0A then on_tty (\<lambda>t. t\<lparr>tty_line_truncated := False\<rparr>) (tty_flush_line_buffer
         (tty_echo_with (console_putc 0x0A) (if tty_line_len (tty s) < 511 then on_tty (tty_append 0x0A) s
            else on_tty (\<lambda>t. (tty_overflow t)\<lparr>tty_line_truncated := True\<rparr>) s)))
       else if b = 0x04 then (if tty_line_len (tty s) = 0 then tty_put b s else tty_flush_line_buffer s)
       else if \<not> tty_is_printable b then s
       else if tty_line_len (tty s) \<ge> 511 then
         on_tty (\<lambda>t. t\<lparr>tty_line_truncated := True\<rparr>)
           (if \<not> tty_line_truncated (tty (on_tty tty_overflow s))
            then tty_echo_with (console_putc 0x07) (on_tty tty_overflow s) else on_tty tty_overflow s)
       else tty_echo_with (console_putc b) (on_tty (tty_append b) s))"
proof -
  have "tty_handle_escape_filter b (tty s) = (False, tty s)"
    using assms by (simp add: tty_handle_escape_filter_def)
  moreover have "s\<lparr>tty := tty s\<rparr> = s" by simp
  moreover have "n + 1 < 512 \<longleftrightarrow> n < 511" "n + 1 \<ge> 512 \<longleftrightarrow> n \<ge> 511" for n :: nat by auto
  ultimately show ?thesis
    unfolding tty_handle_canonical_def by (simp only: Let_def prod.case if_False)
qed

lemma tty_handle_canonical_edits:
  assumes i: "io_inv s"
  shows "edits s (tty_handle_canonical b s) (fst (editor_step b (tty_editor s))) (snd (editor_step b (tty_editor s)))"
proof (cases "tty_escape_state (tty s) \<noteq> 0 \<or> b = 0x1B")
  case True
  obtain t where f: "tty_handle_escape_filter b (tty s) = (True, t)"
    using edits_escape(1) [OF i, of b] True by (metis surj_pair)
  show ?thesis
    using edits_escape(2) [OF i f] True
    by (simp add: tty_handle_canonical_def f editor_step_def tty_editor_def)
next
  case False
  obtain l where ed: "tty_editor s = (0, l)" using False by (simp add: tty_editor_def)
  have len: "tty_line_len (tty s) = length l" using tty_editor_length [OF i] ed by simp
  have c: "tty_escape_state (tty s) = 0" "b \<noteq> 0x1B" using False by auto
  note h = tty_handle_canonical_ground [OF c, unfolded len]
  have intr: "edits s (tty_echo_with (console_write (bytes ''^C'' @ [0x0A]))
      (tty_put b (on_tty (\<lambda>t. t\<lparr>tty_line_len := 0\<rparr>) s))) (0, []) [b]"
    using edits_echoed [OF edits_interrupt [OF i, of b] i, of "console_write (bytes ''^C'' @ [0x0A])"]
      console_write_inv ed by simp
  have erase: "edits s (tty_echo_with console_backspace (on_tty (\<lambda>t. t\<lparr>tty_line_len := tty_line_len t - 1\<rparr>) s))
      (0, butlast l) []" if "l \<noteq> []"
    using edits_echoed [OF edits_erase [OF i] i console_backspace_inv] that len ed by simp
  have app: "edits s (on_tty (tty_append c) s) (0, l @ [c]) []" if "length l < 511" for c
    using edits_append [OF i, of c] that len ed by simp
  have over: "edits s (on_tty (\<lambda>t. (tty_overflow t)\<lparr>tty_line_truncated := True\<rparr>) s) (0, l) []"
    using edits_flags(3) [OF i] ed by simp
  have ins: "edits s (tty_echo_with (console_putc b) (on_tty (tty_append b) s)) (0, l @ [b]) []" if "length l < 511"
    using edits_echoed [OF app [OF that] i console_putc_inv] .
  show ?thesis
    using False intr erase ins edits_newline [OF app i] edits_newline [OF over i] edits_put [OF i, of b]
      edits_flush [OF i] edits_refl [OF i] edits_too_long [OF i]
    unfolding h editor_step_def ed prod.case
    by (auto simp: not_less)
qed

lemma tty_run_edits:
  assumes "io_inv s"
  shows "edits s (fold tty_handle_canonical bs s) (fst (editor_run bs (tty_editor s))) (snd (editor_run bs (tty_editor s)))"
  using assms
proof (induction bs arbitrary: s)
  case Nil
  then show ?case by (simp add: edits_refl)
next
  case (Cons b bs)
  note e = tty_handle_canonical_edits [OF Cons.prems, of b]
  from edits_trans [OF e Cons.IH [OF edits_inv [OF e]] Cons.prems] edits_editor [OF e]
  show ?case by (simp add: split_beta Let_def)
qed

text \<open>A concrete system: terminal 0 open and attached, everything empty.\<close>

definition tty_zero :: tty_state where
  "tty_zero = \<lparr>tty_read_queue = replicate TTY_READ_QUEUE_SIZE 0, tty_read_head = 0, tty_read_tail = 0,
     tty_line_buffer = replicate TTY_LINE_BUFFER_SIZE 0, tty_line_len = 0, tty_canonical = True,
     tty_echo = True, tty_escape_state = 0, tty_rx_count = 0, tty_drop_count = 0,
     tty_line_overflow_count = 0, tty_escape_discard_count = 0, tty_line_truncated = False,
     tty_session_id = 0, tty_session_pty = 0\<rparr>"

definition io_zero :: io_sys where
  "io_zero = \<lparr>kbd = keyboard_zero, ptys = pty_open0, con = console_zero, tty = tty_zero\<rparr>"

lemma io_zero_facts:
  "io_inv io_zero" "tty_editor io_zero = (0, [])" "tty_sink io_zero = []" "tty_escape_state (tty io_zero) = 0"
  "kbd_inv (kbd io_zero)" "kbd_bytes (kbd io_zero) = []" "tty_canonical (tty io_zero)"
  using pty_open0_ready keyboard_zero_facts
  by (simp_all add: io_zero_def io_inv_def tty_inv_def tty_zero_def ring_wf_zero tty_editor_def tty_sink_def
      attached_def)

text \<open>
  C13: In canonical mode the line discipline is the line editor: whatever bytes arrive, the line
  buffer and the escape filter follow the editor on lists, and readers receive exactly what the
  editor delivers, in order, as long as their queue has room.
\<close>

theorem tty_refines_line_editor:
  assumes "io_inv s" "s' = fold tty_handle_canonical bs s"
  shows "tty_editor s' = fst (editor_run bs (tty_editor s)) \<and> io_inv s' \<and>
    tty_sink s' = take 2047 (tty_sink s @ snd (editor_run bs (tty_editor s)))"
  using tty_run_edits [OF assms(1), of bs] assms(2) by (simp add: edits_def)

lemma tty_refines_line_editor_witness:
  "tty_sink (fold tty_handle_canonical [0x61, 0x62, 0x08, 0x63, 0x0A] io_zero) = [0x61, 0x63, 0x0A]"
  using tty_refines_line_editor [OF io_zero_facts(1) refl, of "[0x61, 0x62, 0x08, 0x63, 0x0A]"]
  by (simp add: io_zero_facts editor_step_def tty_is_printable_def del: fold_simps)

lemma editor_run_append:
  "editor_run (xs @ ys) ed =
     (fst (editor_run ys (fst (editor_run xs ed))), snd (editor_run xs ed) @ snd (editor_run ys (fst (editor_run xs ed))))"
  by (induction xs arbitrary: ed) (simp_all add: split_beta Let_def)

definition line_byte :: "u8 \<Rightarrow> bool" where
  "line_byte b \<longleftrightarrow> tty_is_printable b \<and> b \<noteq> 0x7F"

lemma editor_line_step:
  "line_byte b \<Longrightarrow> editor_step b (0, l) = ((0, if length l < 511 then l @ [b] else l), [])"
proof -
  assume "line_byte b"
  then have "b \<noteq> 0x1B" "b \<noteq> 0x03" "b \<noteq> 0x0C" "b \<noteq> 0x08" "b \<noteq> 0x7F" "b \<noteq> 0x0A" "b \<noteq> 0x04" "tty_is_printable b"
    by (auto simp: line_byte_def tty_is_printable_def)
  then show ?thesis by (simp add: editor_step_def)
qed

lemma editor_run_line:
  "list_all line_byte bs \<Longrightarrow> length l \<le> 511 \<Longrightarrow> editor_run bs (0, l) = ((0, take 511 (l @ bs)), [])"
proof (induction bs arbitrary: l)
  case (Cons b bs)
  then show ?case
    using Cons.IH [of "l @ [b]"] Cons.IH [of l] by (cases "length l < 511") (simp_all add: editor_line_step)
qed simp

text \<open>
  C26: A typed line of up to 510 printable bytes is delivered whole with its newline. From 511 bytes
  on the reader gets the first 511 bytes and no newline: the newline itself is dropped, although
  the line is handed over.
\<close>

theorem tty_line_delivery:
  assumes "io_inv s" "tty_editor s = (0, [])" "list_all line_byte line"
    and "s' = fold tty_handle_canonical (line @ [0x0A]) s"
  shows "tty_editor s' = (0, []) \<and>
    tty_sink s' = take 2047 (tty_sink s @ (if length line < 511 then line @ [0x0A] else take 511 line))"
proof -
  have e: "editor_run (line @ [0x0A]) (0, []) =
      ((0, []), if length line < 511 then line @ [0x0A] else take 511 line)"
    using editor_run_line [OF assms(3), of "[]"] by (simp add: editor_run_append editor_step_def)
  from tty_run_edits [OF assms(1), of "line @ [0x0A]"] show ?thesis
    by (simp only: assms(2,4) e edits_def fst_conv snd_conv)
qed

lemma tty_line_delivery_witness:
  "tty_sink (fold tty_handle_canonical (bytes ''ls'' @ [0x0A]) io_zero) = [0x6C, 0x73, 0x0A]"
  using tty_line_delivery [OF io_zero_facts(1,2) _ refl, of "bytes ''ls''"]
  by (simp add: bytes_def line_byte_def tty_is_printable_def io_zero_facts del: fold_simps)

lemma special_sequence_shape:
  "kbd_special_sequence k = [] \<or>
    (\<exists>i r. kbd_special_sequence k = 0x1B # i # r \<and> (i = of_char CHR ''['' \<or> i = of_char CHR ''O'') \<and> list_all line_byte (i # r))"
  by (simp add: kbd_special_sequence_def bytes_def line_byte_def tty_is_printable_def)

lemma special_sequence_idle: "editor_run (kbd_special_sequence k) (0, l) = ((0, l), [])"
  by (simp add: kbd_special_sequence_def editor_step_def escape_next_def bytes_def)

text \<open>
  C24: The escape sequence of a cursor, editing or function key delivers nothing to a canonical-mode
  reader. When the escape filter is idle it does not disturb the line being edited either. When
  the filter still waits for the rest of an earlier sequence, as after the escape key, or after Alt
  with \<^verbatim>\<open>[\<close> or \<^verbatim>\<open>O\<close>, the sequence is not recognised: its bytes from the second on, or from the third on when the earlier sequence
  is past its introducer, are typed into the line as far as it has room.
\<close>

theorem special_keys_filtered:
  assumes "io_inv s" "s' = fold tty_handle_canonical (kbd_special_sequence k) s"
  shows "tty_sink s' = tty_sink s \<and>
    (kbd_special_sequence k \<noteq> [] \<longrightarrow> tty_editor s' = (0, take 511 (snd (tty_editor s) @
       (if tty_escape_state (tty s) = 0 then [] else drop (tty_escape_state (tty s)) (kbd_special_sequence k)))))"
proof -
  define e l q where "e = tty_escape_state (tty s)" and "l = snd (tty_editor s)" and "q = kbd_special_sequence k"
  have ed: "tty_editor s = (e, l)" by (simp add: tty_editor_def e_def l_def)
  have b: "length l \<le> 511" "e = 0 \<or> e = 1 \<or> e = 2"
    using assms(1) by (auto simp: io_inv_def tty_inv_def l_def e_def tty_editor_def)
  have "snd (editor_run q (e, l)) = [] \<and>
      (q \<noteq> [] \<longrightarrow> fst (editor_run q (e, l)) = (0, take 511 (l @ (if e = 0 then [] else drop e q))))"
  proof (cases "e = 0 \<or> q = []")
    case True
    then show ?thesis using b(1) special_sequence_idle [of k l] by (auto simp: q_def)
  next
    case False
    then obtain i r where q: "q = 0x1B # i # r" "i = of_char CHR ''['' \<or> i = of_char CHR ''O''" "list_all line_byte (i # r)"
      using special_sequence_shape [of k] by (auto simp: q_def)
    have "editor_run q (1, l) = editor_run (i # r) (0, l)" "editor_run q (2, l) = editor_run r (0, l)"
      using q(1,2) by (auto simp: editor_step_def escape_next_def)
    then show ?thesis
      using False b editor_run_line [of "i # r" l] editor_run_line [of r l] q by auto
  qed
  then show ?thesis
    using tty_run_edits [OF assms(1), of "kbd_special_sequence k"] tty_sink_le [OF assms(1)] ed
    by (simp add: assms(2) edits_def flip: e_def l_def q_def)
qed

text \<open>The escape key and then the up key leave \<^verbatim>\<open>[A\<close> in the line.\<close>

lemma special_keys_filtered_witness:
  "tty_sink (fold tty_handle_canonical (kbd_special_sequence KEY_UP) io_zero) = [] \<and>
   tty_editor (fold tty_handle_canonical (kbd_special_sequence KEY_UP) io_zero) = (0, []) \<and>
   tty_editor (fold tty_handle_canonical (kbd_special_sequence KEY_UP) (tty_handle_canonical 0x1B io_zero)) = (0, bytes ''[A'')"
proof -
  have q: "kbd_special_sequence KEY_UP = 0x1B # bytes ''[A''" by (simp add: kbd_special_sequence_def)
  have "edits io_zero (tty_handle_canonical 0x1B io_zero) (1, []) []"
    using tty_run_edits [OF io_zero_facts(1), of "[0x1B]"] io_zero_facts(1-7)
    by (auto simp: editor_step_def escape_next_def tty_editor_def)
  then have e: "io_inv (tty_handle_canonical 0x1B io_zero)" "tty_editor (tty_handle_canonical 0x1B io_zero) = (1, [])"
    by (simp_all add: edits_def)
  then have "tty_escape_state (tty (tty_handle_canonical 0x1B io_zero)) = 1" by (simp add: tty_editor_def)
  then show ?thesis
    using special_keys_filtered [OF io_zero_facts(1) refl, of KEY_UP] special_keys_filtered [OF e(1) refl, of KEY_UP] e(2)
    by (simp add: q io_zero_facts del: fold_simps) (simp add: bytes_def tty_editor_def io_zero_facts)
qed

section \<open>What the discipline leaves alone in the pseudo-terminals\<close>

text \<open>No byte opens or closes a pseudo-terminal.\<close>

lemma update_allocated:
  "allocated slot = allocated (xs ! i) \<Longrightarrow> allocated (xs[i := slot] ! j) = allocated (xs ! j)"
  by (cases "i < length xs") (auto simp: nth_list_update list_update_beyond)

lemma pty_master_write_open: "pty_is_valid j (snd (pty_master_write i b n p)) = pty_is_valid j p"
  by (simp add: pty_master_write_def pty_is_valid_def pty_bad_op_def Let_def update_allocated split_beta
      split: option.split)

lemma tty_put_open: "pty_is_valid j (ptys (tty_put b s)) = pty_is_valid j (ptys s)"
  using pty_master_write_open [of j "tty_session_pty (tty s)" "Some [b]" 1 "ptys s"]
  by (simp add: tty_put_def tty_enqueue_read_def on_tty_def Let_def split_beta)

lemma tty_flush_open: "pty_is_valid j (ptys (tty_flush_line_buffer s)) = pty_is_valid j (ptys s)"
proof -
  have "pty_is_valid j (ptys (for_range 0 n (\<lambda>i s. tty_put (tty_line_buffer (tty s) ! i) s) s)) = pty_is_valid j (ptys s)" for n
    by (induction n) (simp_all add: tty_put_open)
  then show ?thesis by (simp add: tty_flush_line_buffer_def on_tty_def)
qed

lemma tty_step_open:
  "pty_is_valid j (ptys (on_tty f s)) = pty_is_valid j (ptys s)"
  "pty_is_valid j (ptys (tty_echo_with g s)) = pty_is_valid j (ptys s)"
  by (simp_all add: on_tty_def tty_echo_with_def on_con_def)

lemma tty_receive_open: "pty_is_valid j (ptys (tty_receive b s)) = pty_is_valid j (ptys s)"
  by (simp add: tty_receive_def tty_handle_canonical_def tty_handle_noncanonical_def Let_def split_beta
      tty_put_open tty_flush_open tty_step_open)

section \<open>Polling the keyboard\<close>

text \<open>The received-byte counter is not read by the handlers.\<close>

lemma on_tty_rx:
  assumes "io_inv s"
  shows "io_inv (on_tty (\<lambda>t. t\<lparr>tty_rx_count := n\<rparr>) s)" "tty_editor (on_tty (\<lambda>t. t\<lparr>tty_rx_count := n\<rparr>) s) = tty_editor s"
    "tty_sink (on_tty (\<lambda>t. t\<lparr>tty_rx_count := n\<rparr>) s) = tty_sink s"
  using assms by (simp_all add: on_tty_def io_inv_def tty_inv_def tty_editor_def tty_sink_def tty_reads_def)

lemma tty_receive_spec:
  assumes i: "io_inv s"
  shows "io_inv (tty_receive b s) \<and> kbd (tty_receive b s) = kbd s \<and>
    tty_rx_count (tty (tty_receive b s)) = tty_rx_count (tty s) + 1 \<and>
    tty_canonical (tty (tty_receive b s)) = tty_canonical (tty s) \<and>
    io_sys.more (tty_receive b s) = io_sys.more s \<and>
    tty_session_pty (tty (tty_receive b s)) = tty_session_pty (tty s) \<and>
    (if tty_canonical (tty s)
     then tty_editor (tty_receive b s) = fst (editor_step b (tty_editor s)) \<and>
       tty_sink (tty_receive b s) = take 2047 (tty_sink s @ snd (editor_step b (tty_editor s)))
     else tty_editor (tty_receive b s) = tty_editor s \<and> tty_sink (tty_receive b s) = take 2047 (tty_sink s @ [b]))"
proof -
  let ?s = "on_tty (\<lambda>t. t\<lparr>tty_rx_count := tty_rx_count t + 1\<rparr>) s"
  have s: "?s = on_tty (\<lambda>t. t\<lparr>tty_rx_count := tty_rx_count (tty s) + 1\<rparr>) s" by (simp add: on_tty_def)
  note r = on_tty_rx [OF i, of "tty_rx_count (tty s) + 1", folded s]
  have f: "tty_canonical (tty ?s) = tty_canonical (tty s)" "tty_rx_count (tty ?s) = tty_rx_count (tty s) + 1"
    "kbd ?s = kbd s" "io_sys.more ?s = io_sys.more s" "tty_session_pty (tty ?s) = tty_session_pty (tty s)"
    by (simp_all add: on_tty_def)
  have raw: "edits ?s (tty_handle_noncanonical b ?s) (tty_editor s) [b]"
    unfolding tty_handle_noncanonical_def
    using edits_echoed [OF edits_put [OF r(1), of b] r(1) console_putc_inv] r(2) by simp
  show ?thesis
    using tty_handle_canonical_edits [OF r(1), of b] raw
    by (simp add: tty_receive_def edits_def r f)
qed

lemma tty_poll_spec:
  assumes "io_inv s" "kbd_inv (kbd s)"
  shows "\<exists>s'. tty_poll_input s = Some s' \<and> io_inv s' \<and> kbd_inv (kbd s') \<and> kbd_bytes (kbd s') = [] \<and>
    tty_rx_bytes s' = tty_rx_bytes s + of_nat (length (kbd_bytes (kbd s))) \<and>
    io_sys.more s' = io_sys.more s \<and> tty_session_pty (tty s') = tty_session_pty (tty s) \<and>
    (\<forall>j. pty_is_valid j (ptys s') = pty_is_valid j (ptys s)) \<and>
    (tty_canonical (tty s) \<longrightarrow> tty_editor s' = fst (editor_run (kbd_bytes (kbd s)) (tty_editor s)) \<and>
       tty_sink s' = take 2047 (tty_sink s @ snd (editor_run (kbd_bytes (kbd s)) (tty_editor s))))"
  using assms
proof (induction "kbd_bytes (kbd s)" arbitrary: s)
  case Nil
  then have "keyboard_pop_char (kbd s) = None" by (simp add: keyboard_pop_char_spec(1))
  then have "tty_poll_input s = Some s" by (simp add: tty_poll_input.simps [of s])
  then show ?case using Nil tty_sink_le [OF Nil.prems(1)] by (simp flip: Nil.hyps)
next
  case (Cons b bs)
  then obtain k where p: "keyboard_pop_char (kbd s) = Some (b, k)" "kbd_bytes k = bs" "kbd_inv k"
    using keyboard_pop_char_spec [OF Cons.prems(2)] by (cases "keyboard_pop_char (kbd s)") fastforce+
  let ?s = "tty_receive b (s\<lparr>kbd := k\<rparr>)"
  have i: "io_inv (s\<lparr>kbd := k\<rparr>)" using Cons.prems(1) by (simp add: io_inv_def)
  have same: "tty_editor (s\<lparr>kbd := k\<rparr>) = tty_editor s" "tty_sink (s\<lparr>kbd := k\<rparr>) = tty_sink s"
    by (simp_all add: tty_editor_def tty_sink_def)
  note r = tty_receive_spec [OF i, of b, unfolded same]
  have o: "pty_is_valid j (ptys ?s) = pty_is_valid j (ptys s)" for j by (simp add: tty_receive_open)
  have u: "tty_poll_input s = tty_poll_input ?s" by (simp add: tty_poll_input.simps [of s] p)
  have "bs = kbd_bytes (kbd ?s)" "io_inv ?s" "kbd_inv (kbd ?s)" using r p by simp_all
  from Cons.hyps(1) [OF this] obtain s' where s': "tty_poll_input ?s = Some s'" "io_inv s'" "kbd_inv (kbd s')"
      "kbd_bytes (kbd s') = []" "tty_rx_bytes s' = tty_rx_bytes ?s + of_nat (length bs)"
      "io_sys.more s' = io_sys.more ?s" "tty_session_pty (tty s') = tty_session_pty (tty ?s)"
      "\<forall>j. pty_is_valid j (ptys s') = pty_is_valid j (ptys ?s)"
      "tty_canonical (tty ?s) \<longrightarrow> tty_editor s' = fst (editor_run bs (tty_editor ?s)) \<and>
         tty_sink s' = take 2047 (tty_sink ?s @ snd (editor_run bs (tty_editor ?s)))"
    using r p by auto
  have "tty_editor s' = fst (editor_run (b # bs) (tty_editor s)) \<and>
      tty_sink s' = take 2047 (tty_sink s @ snd (editor_run (b # bs) (tty_editor s)))" if "tty_canonical (tty s)"
    using s'(9) r that by (simp add: split_beta Let_def take_append min_def)
  then show ?case
    using s' r u o by (intro exI [of _ s']) (simp add: tty_rx_bytes_def flip: Cons.hyps(2))
qed

text \<open>
  C25: \<^verbatim>\<open>tty_poll_input\<close> returns: it takes every byte that is in the keyboard queue, counts them, and
  leaves the queue empty; in canonical mode readers then have what the line editor delivers for
  these bytes.
\<close>

theorem tty_poll_drains:
  assumes "io_inv s" "kbd_inv (kbd s)"
  shows "\<exists>s'. tty_poll_input s = Some s' \<and> io_inv s' \<and> kbd_inv (kbd s') \<and> kbd_bytes (kbd s') = [] \<and>
    tty_rx_bytes s' = tty_rx_bytes s + of_nat (length (kbd_bytes (kbd s))) \<and>
    (tty_canonical (tty s) \<longrightarrow>
       tty_sink s' = take 2047 (tty_sink s @ snd (editor_run (kbd_bytes (kbd s)) (tty_editor s))))"
  using tty_poll_spec [OF assms] by auto

lemma tty_poll_drains_witness:
  "\<exists>s'. tty_poll_input io_zero = Some s' \<and> kbd_bytes (kbd s') = [] \<and> tty_sink s' = []"
  using tty_poll_drains [OF io_zero_facts(1,5)] by (auto simp: io_zero_facts)

end
