(* ===== verification/Multiboot.thy ===== *)
theory Multiboot
  imports Prelude
begin

unbundle bit_operations_syntax

text \<open>
  The Multiboot2 information structure of \<^verbatim>\<open>kernel/include/kernel/multiboot2.h\<close>, as the boot loader
  leaves it in memory: memory is a function from addresses to bytes, fields are read little
  endian. The tag walk that \<^verbatim>\<open>pmm.c\<close> (twice) and \<^verbatim>\<open>video.c\<close> write out, and the walk over the
  entries of a memory map, are loops over their bodies; \<^const>\<open>None\<close> is a walk that never ends.
\<close>

type_synonym memory = "u64 \<Rightarrow> u8"

abbreviation (input) MULTIBOOT2_BOOTLOADER_MAGIC :: u32 where "MULTIBOOT2_BOOTLOADER_MAGIC \<equiv> 0x36D76289"
abbreviation (input) MULTIBOOT_TAG_TYPE_END :: u32 where "MULTIBOOT_TAG_TYPE_END \<equiv> 0"
abbreviation (input) MULTIBOOT_TAG_TYPE_MMAP :: u32 where "MULTIBOOT_TAG_TYPE_MMAP \<equiv> 6"
abbreviation (input) MULTIBOOT_TAG_TYPE_FRAMEBUFFER :: u32 where "MULTIBOOT_TAG_TYPE_FRAMEBUFFER \<equiv> 8"
abbreviation (input) MULTIBOOT_MEMORY_AVAILABLE :: u32 where "MULTIBOOT_MEMORY_AVAILABLE \<equiv> 1"

definition read32 :: "memory \<Rightarrow> u64 \<Rightarrow> u32" where
  "read32 m a = ucast (m a) OR push_bit 8 (ucast (m (a + 1))) OR push_bit 16 (ucast (m (a + 2)))
     OR push_bit 24 (ucast (m (a + 3)))"

definition read64 :: "memory \<Rightarrow> u64 \<Rightarrow> u64" where
  "read64 m a = ucast (read32 m a) OR push_bit 32 (ucast (read32 m (a + 4)))"

definition tag_type :: "memory \<Rightarrow> u64 \<Rightarrow> u32" where
  "tag_type m t = read32 m t"

definition tag_size :: "memory \<Rightarrow> u64 \<Rightarrow> u32" where
  "tag_size m t = read32 m (t + 4)"

text \<open>\<^verbatim>\<open>(uint8_t *)tag + ((tag->size + 7) & ~7U)\<close>: the rounding is 32-bit and can wrap to 0.\<close>

definition tag_next :: "memory \<Rightarrow> u64 \<Rightarrow> u64" where
  "tag_next m t = t + ucast ((tag_size m t + 7) AND NOT 7)"

record mmap_entry =
  entry_addr :: u64
  entry_len :: u64
  entry_type :: u32

definition read_entry :: "memory \<Rightarrow> u64 \<Rightarrow> mmap_entry" where
  "read_entry m p = \<lparr>entry_addr = read64 m p, entry_len = read64 m (p + 8), entry_type = read32 m (p + 16)\<rparr>"

partial_function (option) walk_entries ::
    "memory \<Rightarrow> u64 \<Rightarrow> u64 \<Rightarrow> u64 \<Rightarrow> (mmap_entry \<Rightarrow> 's \<Rightarrow> 's) \<Rightarrow> 's \<Rightarrow> 's option" where
  "walk_entries m entry_size entry_ptr entry_end f s =
     (if entry_ptr < entry_end
      then walk_entries m entry_size (entry_ptr + entry_size) entry_end f (f (read_entry m entry_ptr) s)
      else Some s)"

definition walk_mmap :: "memory \<Rightarrow> u64 \<Rightarrow> (mmap_entry \<Rightarrow> 's \<Rightarrow> 's) \<Rightarrow> 's \<Rightarrow> 's option" where
  "walk_mmap m tag f s =
     walk_entries m (ucast (read32 m (tag + 8))) (tag + 16) (tag + ucast (tag_size m tag)) f s"

partial_function (option) walk_tags ::
    "memory \<Rightarrow> u64 \<Rightarrow> u64 \<Rightarrow> (u64 \<Rightarrow> 's \<Rightarrow> 's option) \<Rightarrow> 's \<Rightarrow> 's option" where
  "walk_tags m info_end tag visit s =
     (if tag < info_end \<and> tag_type m tag \<noteq> MULTIBOOT_TAG_TYPE_END
      then case visit tag s of None \<Rightarrow> None
           | Some s' \<Rightarrow> walk_tags m info_end (tag_next m tag) visit s'
      else Some s)"

declare walk_entries.simps [code] walk_tags.simps [code]

section \<open>Chains of tags and entries\<close>

text \<open>
  The tags a walk visits, as a list: from \<open>tag\<close> on until the end tag or the end of the
  information. A walk over a chain is a fold over that list.
\<close>

inductive tag_chain :: "memory \<Rightarrow> u64 \<Rightarrow> u64 \<Rightarrow> u64 list \<Rightarrow> bool" for m info_end where
  chain_end: "\<not> (tag < info_end \<and> tag_type m tag \<noteq> MULTIBOOT_TAG_TYPE_END) \<Longrightarrow> tag_chain m info_end tag []"
| chain_tag: "tag < info_end \<Longrightarrow> tag_type m tag \<noteq> MULTIBOOT_TAG_TYPE_END \<Longrightarrow>
    tag_chain m info_end (tag_next m tag) ts \<Longrightarrow> tag_chain m info_end tag (tag # ts)"

inductive_cases tag_chainE: "tag_chain m info_end tag ts"

fun fold_option :: "('a \<Rightarrow> 's \<Rightarrow> 's option) \<Rightarrow> 'a list \<Rightarrow> 's \<Rightarrow> 's option" where
  "fold_option f [] s = Some s"
| "fold_option f (x # xs) s = (case f x s of None \<Rightarrow> None | Some s' \<Rightarrow> fold_option f xs s')"

lemma walk_tags_chain:
  "tag_chain m info_end tag ts \<Longrightarrow> walk_tags m info_end tag visit s = fold_option visit ts s"
proof (induction arbitrary: s rule: tag_chain.induct)
  case (chain_end tag)
  then show ?case by (subst walk_tags.simps) auto
next
  case (chain_tag tag ts)
  then show ?case by (subst walk_tags.simps) (auto split: option.split)
qed

lemma fold_option_Some: "fold_option (\<lambda>x s. Some (f x s)) xs s = Some (fold f xs s)"
  by (induction xs arbitrary: s) auto

lemma fold_option_inv:
  "fold_option f xs s = Some s' \<Longrightarrow> P s \<Longrightarrow> (\<And>x s s'. f x s = Some s' \<Longrightarrow> P s \<Longrightarrow> P s') \<Longrightarrow> P s'"
  by (induction xs arbitrary: s) (auto split: option.splits)

text \<open>A tag of size 1 to \<open>0xFFFFFFF8\<close> moves the walk forward by 8 bytes at least.\<close>

lemma tag_round:
  assumes "1 \<le> (n :: u32)" "n \<le> 0xFFFFFFF8"
  shows "8 \<le> unat ((n + 7) AND NOT 7)" "8 dvd unat ((n + 7) AND NOT 7)"
proof -
  have n: "1 \<le> unat n" "unat n \<le> 4294967288" using assms by (simp_all add: word_le_nat_alt)
  then have u: "unat (n + 7) = unat n + 7" by (simp add: unat_word_ariths)
  have "(7 :: u32) = mask 3" by (simp add: mask_eq_exp_minus_1)
  then have e: "unat ((n + 7) AND NOT 7) = (unat n + 7) div 8 * 8"
    using unat_and_not_mask [of "n + 7" 3] u by simp
  have "1 \<le> (unat n + 7) div 8" using n by (simp add: Suc_le_eq div_greater_zero_iff)
  then show "8 \<le> unat ((n + 7) AND NOT 7)" "8 dvd unat ((n + 7) AND NOT 7)" unfolding e by simp_all
qed

lemma tag_round_zero: "(((n :: u32) + 7) AND NOT 7) = 0" if "n = 0 \<or> n > 0xFFFFFFF8"
  using that
proof
  assume "n = 0" then show ?thesis by simp
next
  assume "n > 0xFFFFFFF8"
  then have n: "4294967288 < unat n" by (simp add: word_less_nat_alt)
  have "unat n < 4294967296" using unsigned_less [of n, where ?'a = nat] by simp
  then have "(unat n + 7) mod 4294967296 = unat n + 7 - 4294967296" using n by (subst le_mod_geq) simp_all
  then have "unat (n + 7) < 8" using n \<open>unat n < 4294967296\<close> by (simp add: unat_word_ariths)
  moreover have "(7 :: u32) = mask 3" by (simp add: mask_eq_exp_minus_1)
  ultimately have "unat ((n + 7) AND NOT 7) = 0" using unat_and_not_mask [of "n + 7" 3] by simp
  then show ?thesis by (simp only: unat_eq_zero)
qed

text \<open>
  The tags a walk comes to, whether or not it ends, and sound information: no tag the walk comes to
  has a size that is 0 or wraps in the rounding.
\<close>

inductive tag_reached :: "memory \<Rightarrow> u64 \<Rightarrow> u64 \<Rightarrow> u64 \<Rightarrow> bool" for m info_end start where
  reached_start: "tag_reached m info_end start start"
| reached_next: "tag_reached m info_end start tag \<Longrightarrow> tag < info_end \<Longrightarrow>
    tag_type m tag \<noteq> MULTIBOOT_TAG_TYPE_END \<Longrightarrow> tag_reached m info_end start (tag_next m tag)"

definition tags_sound :: "memory \<Rightarrow> u64 \<Rightarrow> u64 \<Rightarrow> bool" where
  "tags_sound m start info_end \<longleftrightarrow> (\<forall>tag. tag_reached m info_end start tag \<and> tag < info_end \<and>
     tag_type m tag \<noteq> MULTIBOOT_TAG_TYPE_END \<longrightarrow> 1 \<le> tag_size m tag \<and> tag_size m tag \<le> 0xFFFFFFF8)"

lemma tag_next_forward:
  assumes "tag < info_end" "unat info_end < 2 ^ 63" "1 \<le> tag_size m tag" "tag_size m tag \<le> 0xFFFFFFF8"
  shows "unat info_end - unat (tag_next m tag) < unat info_end - unat tag"
proof -
  define d where "d = (tag_size m tag + 7) AND NOT 7"
  have d: "8 \<le> unat d" unfolding d_def using tag_round assms(3,4) by blast
  have d32: "unat d < 2 ^ 32" using unsigned_less [of d, where ?'a = nat] by simp
  have lt: "unat tag < unat info_end" using assms(1) by (simp add: word_less_nat_alt)
  have "unat (ucast d :: u64) = unat d" using d32 by (simp add: unsigned_ucast_eq take_bit_eq_mod)
  moreover have "tag_next m tag = tag + ucast d" by (simp only: tag_next_def d_def)
  ultimately have "unat (tag_next m tag) = unat tag + unat d"
    using lt d32 assms(2) by (simp add: unat_word_ariths)
  then show ?thesis using d lt by simp
qed

lemma tag_chain_exists:
  assumes "tags_sound m start info_end" "tag_reached m info_end start tag" "unat info_end < 2 ^ 63"
  shows "\<exists>ts. tag_chain m info_end tag ts \<and> (\<forall>t \<in> set ts. tag_reached m info_end start t)"
  using assms(2)
proof (induction "unat info_end - unat tag" arbitrary: tag rule: less_induct)
  case less
  show ?case
  proof (cases "tag < info_end \<and> tag_type m tag \<noteq> MULTIBOOT_TAG_TYPE_END")
    case False
    then show ?thesis using chain_end by (intro exI [of _ "[]"]) auto
  next
    case True
    have "1 \<le> tag_size m tag" "tag_size m tag \<le> 0xFFFFFFF8"
      using assms(1) True less.prems by (auto simp: tags_sound_def)
    then have "unat info_end - unat (tag_next m tag) < unat info_end - unat tag"
      using tag_next_forward assms(3) True by simp
    moreover have "tag_reached m info_end start (tag_next m tag)" using True less.prems reached_next by blast
    ultimately obtain ts where "tag_chain m info_end (tag_next m tag) ts"
      "\<forall>t \<in> set ts. tag_reached m info_end start t" using less.hyps by blast
    then show ?thesis using True chain_tag less.prems by (intro exI [of _ "tag # ts"]) auto
  qed
qed

inductive entry_chain :: "memory \<Rightarrow> u64 \<Rightarrow> u64 \<Rightarrow> u64 \<Rightarrow> mmap_entry list \<Rightarrow> bool" for m esz fin where
  entries_end: "\<not> p < fin \<Longrightarrow> entry_chain m esz fin p []"
| entries_next: "p < fin \<Longrightarrow> entry_chain m esz fin (p + esz) es \<Longrightarrow>
    entry_chain m esz fin p (read_entry m p # es)"

inductive_simps entry_chain_iffs:
  "entry_chain m esz fin p []"
  "entry_chain m esz fin p (e # es)"

lemma walk_entries_chain:
  "entry_chain m esz fin p es \<Longrightarrow> walk_entries m esz p fin f s = Some (fold f es s)"
proof (induction arbitrary: s rule: entry_chain.induct)
  case (entries_end p)
  then show ?case by (subst walk_entries.simps) simp
next
  case (entries_next p es)
  then show ?case by (subst walk_entries.simps) simp
qed

lemma entry_chain_exists:
  assumes "0 < unat esz" "unat esz < 2 ^ 32" "unat fin < 2 ^ 63"
  shows "\<exists>es. entry_chain m esz fin p es"
proof (induction "unat fin - unat p" arbitrary: p rule: less_induct)
  case less
  show ?case
  proof (cases "p < fin")
    case False
    then show ?thesis using entries_end by blast
  next
    case True
    then have lt: "unat p < unat fin" by (simp add: word_less_nat_alt)
    then have "unat (p + esz) = unat p + unat esz" using assms by (simp add: unat_word_ariths)
    then have "unat fin - unat (p + esz) < unat fin - unat p" using lt assms(1) by simp
    then obtain es where "entry_chain m esz fin (p + esz) es" using less by blast
    then show ?thesis using True entries_next by blast
  qed
qed

text \<open>A walk that stands still never ends: the defining equation has no other solution to reach.\<close>

lemma walk_tags_stuck:
  assumes "tag < info_end" "tag_type m tag \<noteq> MULTIBOOT_TAG_TYPE_END" "tag_next m tag = tag"
    and "\<And>s. P s \<Longrightarrow> \<exists>s'. visit tag s = Some s' \<and> P s'" "P s"
  shows "walk_tags m info_end tag visit s = None"
proof (rule ccontr)
  let ?Q = "\<lambda>m info_end tag visit s r. tag < info_end \<longrightarrow> tag_type m tag \<noteq> MULTIBOOT_TAG_TYPE_END \<longrightarrow>
      tag_next m tag = tag \<longrightarrow> (\<forall>s. P s \<longrightarrow> (\<exists>s'. visit tag s = Some s' \<and> P s')) \<longrightarrow> \<not> P s"
  have "?Q m info_end tag visit s r" if "walk_tags m info_end tag visit s = Some r" for r
  proof (rule walk_tags.raw_induct [where P = ?Q, OF _ that], intro impI notI)
    fix w :: "memory \<Rightarrow> u64 \<Rightarrow> u64 \<Rightarrow> (u64 \<Rightarrow> 'a \<Rightarrow> 'a option) \<Rightarrow> 'a \<Rightarrow> 'a option"
      and m info_end tag and visit :: "u64 \<Rightarrow> 'a \<Rightarrow> 'a option" and s r
    assume ih: "\<And>m info_end tag visit s r. w m info_end tag visit s = Some r \<Longrightarrow> ?Q m info_end tag visit s r"
      and step: "(if tag < info_end \<and> tag_type m tag \<noteq> MULTIBOOT_TAG_TYPE_END
        then case visit tag s of None \<Rightarrow> None | Some s' \<Rightarrow> w m info_end (tag_next m tag) visit s'
        else Some s) = Some r"
      and a: "tag < info_end" "tag_type m tag \<noteq> MULTIBOOT_TAG_TYPE_END" "tag_next m tag = tag"
        "\<forall>s. P s \<longrightarrow> (\<exists>s'. visit tag s = Some s' \<and> P s')" "P s"
    obtain s' where s': "visit tag s = Some s'" "P s'" using a(4,5) by blast
    then have "w m info_end tag visit s' = Some r" using step a by simp
    from ih [OF this] a s' show False by blast
  qed
  moreover assume "walk_tags m info_end tag visit s \<noteq> None"
  ultimately show False using assms by blast
qed

section \<open>The memory map\<close>

text \<open>The entries of the memory maps of the boot information at \<open>mb\<close>, in the order they are read.\<close>

definition mmap_of :: "memory \<Rightarrow> u64 \<Rightarrow> mmap_entry list \<Rightarrow> bool" where
  "mmap_of m tag es \<longleftrightarrow> entry_chain m (ucast (read32 m (tag + 8))) (tag + ucast (tag_size m tag)) (tag + 16) es"

definition memory_map :: "memory \<Rightarrow> u64 \<Rightarrow> mmap_entry list \<Rightarrow> bool" where
  "memory_map m mb es \<longleftrightarrow> (\<exists>ts ess. tag_chain m (mb + ucast (read32 m mb)) (mb + 8) ts \<and>
     list_all2 (mmap_of m) (filter (\<lambda>t. tag_type m t = MULTIBOOT_TAG_TYPE_MMAP) ts) ess \<and> es = concat ess)"

definition boot_info_sound :: "memory \<Rightarrow> u64 \<Rightarrow> bool" where
  "boot_info_sound m mb \<longleftrightarrow> (let info_end = mb + ucast (read32 m mb) in tags_sound m (mb + 8) info_end \<and>
     (\<forall>tag. tag_reached m info_end (mb + 8) tag \<and> tag_type m tag = MULTIBOOT_TAG_TYPE_MMAP \<longrightarrow>
        read32 m (tag + 8) \<noteq> 0))"

lemma walk_mmap_of: "mmap_of m tag es \<Longrightarrow> walk_mmap m tag f s = Some (fold f es s)"
  by (simp add: mmap_of_def walk_mmap_def walk_entries_chain)

lemma walk_maps:
  "list_all2 (mmap_of m) (filter (\<lambda>t. tag_type m t = MULTIBOOT_TAG_TYPE_MMAP) ts) ess \<Longrightarrow>
   fold_option (\<lambda>tag s. if tag_type m tag = MULTIBOOT_TAG_TYPE_MMAP then walk_mmap m tag f s else Some s) ts s =
     Some (fold f (concat ess) s)"
  by (induction ts arbitrary: ess s) (auto simp: list_all2_Cons1 walk_mmap_of)

lemma unat_ucast_u32 [simp]: "unat (ucast (n :: u32) :: u64) = unat n"
  using unsigned_less [of n, where ?'a = nat] by (simp add: unsigned_ucast_eq take_bit_eq_mod)

lemma tag_chain_bound: "tag_chain m info_end tag ts \<Longrightarrow> t \<in> set ts \<Longrightarrow> t < info_end"
  by (induction rule: tag_chain.induct) auto

lemma info_end_bound: "unat (ucast (addr :: u32) + ucast (n :: u32) :: u64) < 2 ^ 33"
  using unsigned_less [of addr, where ?'a = nat] unsigned_less [of n, where ?'a = nat]
  by (simp add: unat_word_ariths)

lemma memory_map_exists:
  assumes "boot_info_sound m (ucast (addr :: u32))"
  shows "\<exists>es. memory_map m (ucast addr) es"
proof -
  let ?mb = "ucast addr :: u64"
  let ?fin = "?mb + ucast (read32 m ?mb)"
  have small: "unat n < 2 ^ 32" for n :: u32 using unsigned_less [of n, where ?'a = nat] by simp
  have e: "unat ?fin < 2 ^ 33" by (rule info_end_bound)
  then obtain ts where ts: "tag_chain m ?fin (?mb + 8) ts" and reach: "\<forall>t \<in> set ts. tag_reached m ?fin (?mb + 8) t"
    using tag_chain_exists [of m "?mb + 8" ?fin "?mb + 8"] assms reached_start
    by (auto simp: boot_info_sound_def Let_def)
  have "\<exists>es. mmap_of m t es" if "t \<in> set ts" "tag_type m t = MULTIBOOT_TAG_TYPE_MMAP" for t
  proof -
    have "unat t < 2 ^ 33" using tag_chain_bound [OF ts that(1)] e by (simp add: word_less_nat_alt)
    then have "unat (t + ucast (tag_size m t)) < 2 ^ 63"
      using small [of "tag_size m t"] by (simp add: unat_word_ariths)
    moreover have "read32 m (t + 8) \<noteq> 0"
      using assms that reach by (simp add: boot_info_sound_def Let_def)
    ultimately show ?thesis
      unfolding mmap_of_def using small [of "read32 m (t + 8)"]
      by (intro entry_chain_exists) (simp_all add: unat_gt_0)
  qed
  then have "\<exists>ess. list_all2 (mmap_of m) (filter (\<lambda>t. tag_type m t = MULTIBOOT_TAG_TYPE_MMAP) ts) ess"
    by (intro exI [of _ "map (\<lambda>t. SOME es. mmap_of m t es) (filter (\<lambda>t. tag_type m t = MULTIBOOT_TAG_TYPE_MMAP) ts)"])
      (auto simp: list_all2_map2 list_all2_same intro: someI_ex)
  then show ?thesis using ts by (auto simp: memory_map_def)
qed

section \<open>A sample\<close>

text \<open>
  Boot information as a loader writes it, at address 0x1000: a memory map with a region below
  640 KiB and 31 MiB from 1 MiB on, then the end tag.
\<close>

definition sample_info :: "u8 list" where
  "sample_info =
    [0x50, 0, 0, 0, 0, 0, 0, 0, 6, 0, 0, 0, 0x40, 0, 0, 0, 0x18, 0, 0, 0, 0, 0, 0, 0,
     0, 0, 0, 0, 0, 0, 0, 0, 0, 0xFC, 9, 0, 0, 0, 0, 0, 1, 0, 0, 0, 0, 0, 0, 0,
     0, 0, 0x10, 0, 0, 0, 0, 0, 0, 0, 0xF0, 1, 0, 0, 0, 0, 1, 0, 0, 0, 0, 0, 0, 0,
     0, 0, 0, 0, 8, 0, 0, 0]"

definition sample_memory :: memory where
  "sample_memory a = (if 0x1000 \<le> a \<and> a < 0x1050 then sample_info ! unat (a - 0x1000) else 0)"

definition sample_map :: "mmap_entry list" where
  "sample_map = [\<lparr>entry_addr = 0, entry_len = 0x9FC00, entry_type = 1\<rparr>,
     \<lparr>entry_addr = 0x100000, entry_len = 0x1F00000, entry_type = 1\<rparr>]"

lemma sample_fields:
  "read32 sample_memory 0x1000 = 80" "tag_type sample_memory 0x1008 = 6" "tag_size sample_memory 0x1008 = 64"
  "read32 sample_memory 0x1010 = 24" "tag_next sample_memory 0x1008 = 0x1048"
  "tag_type sample_memory 0x1048 = 0"
  "read_entry sample_memory 0x1018 = sample_map ! 0" "read_entry sample_memory 0x1030 = sample_map ! 1"
  by (simp_all add: tag_type_def tag_size_def tag_next_def read_entry_def read64_def read32_def sample_memory_def
      sample_info_def sample_map_def)

lemma sample_memory_map: "memory_map sample_memory 0x1000 sample_map"
proof -
  have "tag_chain sample_memory 0x1050 0x1008 [0x1008]"
    by (intro chain_tag chain_end) (simp_all add: sample_fields)
  moreover have "mmap_of sample_memory 0x1008 [sample_map ! 0, sample_map ! 1]"
    by (simp add: mmap_of_def sample_fields entry_chain_iffs)
  ultimately show ?thesis
    unfolding memory_map_def
    by (intro exI [of _ "[0x1008]"] exI [of _ "[sample_map]"]) (simp add: sample_fields sample_map_def)
qed

lemma sample_sound: "boot_info_sound sample_memory 0x1000"
proof -
  have "tag = 0x1008 \<or> tag = 0x1048" if "tag_reached sample_memory 0x1050 0x1008 tag" for tag
    using that by induction (auto simp: sample_fields)
  then show ?thesis
    unfolding boot_info_sound_def tags_sound_def Let_def using sample_fields by fastforce
qed

end
