(* ===== verification/Pmm.thy ===== *)
theory Pmm
  imports Multiboot
begin

unbundle bit_operations_syntax

text \<open>
  The physical frame allocator of \<^verbatim>\<open>kernel/src/core/pmm.c\<close>: one bit per 4 KiB frame below 1 GiB, a
  count of used frames, initialisation from the memory map of the boot loader, lowest-free
  allocation. The linker symbols of the kernel image are arguments of \<^verbatim>\<open>pmm_init\<close>, and so is the
  memory that holds the boot information.
\<close>

section \<open>State and operations\<close>

abbreviation (input) FRAME_SIZE :: u64 where "FRAME_SIZE \<equiv> 4096"
abbreviation (input) PMM_MAX_MEMORY :: u64 where "PMM_MAX_MEMORY \<equiv> 0x40000000"
abbreviation (input) PMM_MAX_FRAMES :: u64 where "PMM_MAX_FRAMES \<equiv> 262144"
abbreviation (input) BITMAP_BYTES :: nat where "BITMAP_BYTES \<equiv> 32768"

record pmm_state =
  frame_bitmap :: "u8 list"
  total_frames :: u64
  used_frames :: u64

definition frame_mask :: "u64 \<Rightarrow> u8" where
  "frame_mask frame = push_bit (unat (frame mod 8)) 1"

definition bitmap_set :: "u64 \<Rightarrow> pmm_state \<Rightarrow> pmm_state" where
  "bitmap_set frame s =
     (if frame \<ge> total_frames s then s
      else let i = unat (frame div 8); cell = frame_bitmap s ! i
           in if cell AND frame_mask frame = 0
              then s\<lparr>frame_bitmap := (frame_bitmap s)[i := cell OR frame_mask frame],
                     used_frames := used_frames s + 1\<rparr>
              else s)"

definition bitmap_clear :: "u64 \<Rightarrow> pmm_state \<Rightarrow> pmm_state" where
  "bitmap_clear frame s =
     (if frame \<ge> total_frames s then s
      else let i = unat (frame div 8); cell = frame_bitmap s ! i
           in if cell AND frame_mask frame \<noteq> 0
              then s\<lparr>frame_bitmap := (frame_bitmap s)[i := cell AND NOT (frame_mask frame)],
                     used_frames := (if used_frames s > 0 then used_frames s - 1 else used_frames s)\<rparr>
              else s)"

definition bitmap_test :: "u64 \<Rightarrow> pmm_state \<Rightarrow> bool" where
  "bitmap_test frame s =
     (if frame \<ge> total_frames s then True
      else frame_bitmap s ! unat (frame div 8) AND frame_mask frame \<noteq> 0)"

definition mark_region :: "u64 \<Rightarrow> u64 \<Rightarrow> bool \<Rightarrow> pmm_state \<Rightarrow> pmm_state" where
  "mark_region addr len available s =
     (if len = 0 \<or> addr \<ge> PMM_MAX_MEMORY then s
      else
        let fin = (if addr + len > PMM_MAX_MEMORY then PMM_MAX_MEMORY else addr + len);
            first = addr div FRAME_SIZE;
            last = (fin + FRAME_SIZE - 1) div FRAME_SIZE
        in for_range (unat first) (unat last) (\<lambda>f.
             if available then bitmap_clear (of_nat f) else bitmap_set (of_nat f)) s)"

definition mmap_highest :: "mmap_entry \<Rightarrow> u64 \<Rightarrow> u64" where
  "mmap_highest e highest =
     (if entry_type e = MULTIBOOT_MEMORY_AVAILABLE
      then let candidate_end = entry_addr e + entry_len e
           in if candidate_end > highest then candidate_end else highest
      else highest)"

definition mmap_release :: "mmap_entry \<Rightarrow> pmm_state \<Rightarrow> pmm_state" where
  "mmap_release e s =
     (if entry_type e = MULTIBOOT_MEMORY_AVAILABLE then mark_region (entry_addr e) (entry_len e) True s else s)"

text \<open>One of the two passes over the memory-map tags of the boot information.\<close>

definition mmap_pass :: "memory \<Rightarrow> u32 \<Rightarrow> (mmap_entry \<Rightarrow> 's \<Rightarrow> 's) \<Rightarrow> 's \<Rightarrow> 's option" where
  "mmap_pass m multiboot_info_addr f s =
     (let mb = ucast multiboot_info_addr; mb_total_size = read32 m mb
      in walk_tags m (mb + ucast mb_total_size) (mb + 8) (\<lambda>tag s.
           if tag_type m tag = MULTIBOOT_TAG_TYPE_MMAP then walk_mmap m tag f s else Some s) s)"

definition pmm_reset :: "u64 \<Rightarrow> pmm_state" where
  "pmm_reset highest =
     (let highest' = (if highest > PMM_MAX_MEMORY then PMM_MAX_MEMORY else highest);
          n = highest' div FRAME_SIZE; total = (if n = 0 then 1 else n)
      in \<lparr>frame_bitmap = replicate BITMAP_BYTES 0xFF, total_frames = total, used_frames = total\<rparr>)"

definition pmm_init :: "memory \<Rightarrow> u64 \<Rightarrow> u64 \<Rightarrow> u32 \<Rightarrow> pmm_state option" where
  "pmm_init m kstart kend multiboot_info_addr =
     (case mmap_pass m multiboot_info_addr mmap_highest (16 * 1024 * 1024) of
        None \<Rightarrow> None
      | Some highest \<Rightarrow>
          (case mmap_pass m multiboot_info_addr mmap_release (pmm_reset highest) of
             None \<Rightarrow> None
           | Some s \<Rightarrow> Some (mark_region kstart (kend - kstart) False (mark_region 0 (1024 * 1024) False s))))"

text \<open>The search loop of the two allocation functions: the first clear bit below the limit.\<close>

definition alloc_below :: "u64 \<Rightarrow> pmm_state \<Rightarrow> u64 \<times> pmm_state" where
  "alloc_below limit s =
     (case find (\<lambda>f. \<not> bitmap_test (of_nat f) s) [0..<unat limit] of
        Some f \<Rightarrow> (of_nat f * FRAME_SIZE, bitmap_set (of_nat f) s)
      | None \<Rightarrow> (0, s))"

definition pmm_alloc_frame :: "pmm_state \<Rightarrow> u64 \<times> pmm_state" where
  "pmm_alloc_frame s = alloc_below (total_frames s) s"

definition pmm_alloc_frame_low :: "u64 \<Rightarrow> pmm_state \<Rightarrow> u64 \<times> pmm_state" where
  "pmm_alloc_frame_low max_phys_addr s =
     (let max_frame = max_phys_addr div FRAME_SIZE
      in alloc_below (if max_frame > total_frames s then total_frames s else max_frame) s)"

definition pmm_free_frame :: "u64 \<Rightarrow> pmm_state \<Rightarrow> pmm_state" where
  "pmm_free_frame phys_addr s = bitmap_clear (phys_addr div FRAME_SIZE) s"

definition pmm_total_kib :: "pmm_state \<Rightarrow> u64" where
  "pmm_total_kib s = (total_frames s * FRAME_SIZE) div 1024"

definition pmm_used_kib :: "pmm_state \<Rightarrow> u64" where
  "pmm_used_kib s = (used_frames s * FRAME_SIZE) div 1024"

definition pmm_free_kib :: "pmm_state \<Rightarrow> u64" where
  "pmm_free_kib s =
     (if used_frames s > total_frames s then 0
      else ((total_frames s - used_frames s) * FRAME_SIZE) div 1024)"

section \<open>Specification\<close>

text \<open>
  The allocator's promise: a set of used frames. The invariant ties the counter to it and keeps
  every frame number inside the bitmap.
\<close>

definition frame_used :: "pmm_state \<Rightarrow> nat \<Rightarrow> bool" where
  "frame_used s f = bit (frame_bitmap s ! (f div 8)) (f mod 8)"

definition used_set :: "pmm_state \<Rightarrow> nat set" where
  "used_set s = {f. f < unat (total_frames s) \<and> frame_used s f}"

definition pmm_inv :: "pmm_state \<Rightarrow> bool" where
  "pmm_inv s \<longleftrightarrow> length (frame_bitmap s) = BITMAP_BYTES \<and> total_frames s \<le> PMM_MAX_FRAMES \<and>
     used_frames s = of_nat (card (used_set s))"

section \<open>The bitmap\<close>

lemma used_set_finite [simp]: "finite (used_set s)"
  by (simp add: used_set_def)

lemma used_set_bound: "used_set s \<subseteq> {..<unat (total_frames s)}"
  by (auto simp: used_set_def)

lemma pmm_inv_total: "pmm_inv s \<Longrightarrow> unat (total_frames s) \<le> 262144"
  by (simp add: pmm_inv_def word_le_nat_alt)

lemma used_card: "pmm_inv s \<Longrightarrow> card (used_set s) \<le> unat (total_frames s)"
  using card_mono [OF finite_lessThan used_set_bound] by simp

lemma frame_mask_bit: "bit (frame_mask frame) k \<longleftrightarrow> k = unat frame mod 8"
  by (auto simp: frame_mask_def bit_simps unat_mod)

lemma frame_mask_test: "c AND frame_mask frame = 0 \<longleftrightarrow> \<not> bit c (unat frame mod 8)"
proof -
  have "frame_mask frame = 2 ^ (unat frame mod 8)" by (simp add: frame_mask_def unat_mod push_bit_of_1)
  then show ?thesis by (simp add: and_exp_eq_0_iff_not_bit)
qed

lemma bitmap_test_iff:
  "bitmap_test frame s \<longleftrightarrow> unat (total_frames s) \<le> unat frame \<or> frame_used s (unat frame)"
  by (simp add: bitmap_test_def frame_mask_test frame_used_def unat_div word_le_nat_alt)

lemma same_cell: "(g :: nat) div 8 = f div 8 \<Longrightarrow> g mod 8 = f mod 8 \<longleftrightarrow> g = f"
  by (metis div_mult_mod_eq)

lemma bitmap_set_spec:
  assumes "pmm_inv s" "unat frame < unat (total_frames s)"
  shows "frame_used (bitmap_set frame s) g \<longleftrightarrow> frame_used s g \<or> g = unat frame"
    and "pmm_inv (bitmap_set frame s)" "total_frames (bitmap_set frame s) = total_frames s"
proof -
  let ?f = "unat frame"
  have lt: "\<not> total_frames s \<le> frame" using assms(2) by (simp add: word_le_nat_alt not_le)
  have len: "?f div 8 < length (frame_bitmap s)"
    using assms pmm_inv_total [OF assms(1)] by (simp add: pmm_inv_def)
  have c: "frame_bitmap s ! unat (frame div 8) AND frame_mask frame = 0 \<longleftrightarrow> \<not> frame_used s ?f"
    by (simp add: frame_mask_test frame_used_def unat_div)
  show used: "frame_used (bitmap_set frame s) g \<longleftrightarrow> frame_used s g \<or> g = ?f" for g
    using lt len c same_cell [of g ?f]
    by (auto simp: bitmap_set_def Let_def frame_used_def unat_div nth_list_update bit_or_iff frame_mask_bit)
  show tot: "total_frames (bitmap_set frame s) = total_frames s" by (simp add: bitmap_set_def Let_def)
  have us: "used_set (bitmap_set frame s) = insert ?f (used_set s)"
    using used tot assms(2) by (auto simp: used_set_def)
  show "pmm_inv (bitmap_set frame s)"
  proof (cases "frame_used s ?f")
    case True
    then have "bitmap_set frame s = s" using c lt by (simp add: bitmap_set_def Let_def)
    then show ?thesis using assms(1) by simp
  next
    case False
    then have "used_frames (bitmap_set frame s) = used_frames s + 1"
      using c lt by (simp add: bitmap_set_def Let_def)
    moreover have "?f \<notin> used_set s" using False by (simp add: used_set_def)
    moreover have "length (frame_bitmap (bitmap_set frame s)) = length (frame_bitmap s)"
      by (simp add: bitmap_set_def Let_def)
    ultimately show ?thesis using assms(1) us tot by (simp add: pmm_inv_def)
  qed
qed

lemma bitmap_clear_spec:
  assumes "pmm_inv s" "unat frame < unat (total_frames s)"
  shows "frame_used (bitmap_clear frame s) g \<longleftrightarrow> frame_used s g \<and> g \<noteq> unat frame"
    and "pmm_inv (bitmap_clear frame s)" "total_frames (bitmap_clear frame s) = total_frames s"
proof -
  let ?f = "unat frame"
  have lt: "\<not> total_frames s \<le> frame" using assms(2) by (simp add: word_le_nat_alt not_le)
  have len: "?f div 8 < length (frame_bitmap s)"
    using assms pmm_inv_total [OF assms(1)] by (simp add: pmm_inv_def)
  have c: "frame_bitmap s ! unat (frame div 8) AND frame_mask frame = 0 \<longleftrightarrow> \<not> frame_used s ?f"
    by (simp add: frame_mask_test frame_used_def unat_div)
  have bnd: "g mod 8 < LENGTH(8)" for g :: nat by simp
  show used: "frame_used (bitmap_clear frame s) g \<longleftrightarrow> frame_used s g \<and> g \<noteq> ?f" for g
    using lt len c same_cell [of g ?f]
    by (auto simp: bitmap_clear_def Let_def frame_used_def unat_div nth_list_update bit_and_iff bit_not_iff
        frame_mask_bit)
  show tot: "total_frames (bitmap_clear frame s) = total_frames s" by (simp add: bitmap_clear_def Let_def)
  have us: "used_set (bitmap_clear frame s) = used_set s - {?f}"
    using used tot by (auto simp: used_set_def)
  show "pmm_inv (bitmap_clear frame s)"
  proof (cases "frame_used s ?f")
    case False
    then have "bitmap_clear frame s = s" using c lt by (simp add: bitmap_clear_def Let_def)
    then show ?thesis using assms(1) by simp
  next
    case True
    then have m: "?f \<in> used_set s" using assms(2) by (simp add: used_set_def)
    then have k: "0 < card (used_set s)" by (auto simp: card_gt_0_iff)
    have "card (used_set s) < 2 ^ 64" using used_card [OF assms(1)] pmm_inv_total [OF assms(1)] by simp
    then have "unat (used_frames s) = card (used_set s)" using assms(1) by (simp add: pmm_inv_def unat_of_nat)
    then have "0 < used_frames s" using k by (simp add: word_less_nat_alt)
    then have "used_frames (bitmap_clear frame s) = of_nat (card (used_set s)) - 1"
      using True c lt assms(1) by (simp add: bitmap_clear_def Let_def pmm_inv_def)
    also have "\<dots> = of_nat (card (used_set s) - 1)" using k by (simp add: of_nat_diff)
    finally have "used_frames (bitmap_clear frame s) = of_nat (card (used_set (bitmap_clear frame s)))"
      using us m by (simp add: card_Diff_singleton)
    moreover have "length (frame_bitmap (bitmap_clear frame s)) = length (frame_bitmap s)"
      by (simp add: bitmap_clear_def Let_def)
    ultimately show ?thesis using assms(1) tot by (simp add: pmm_inv_def)
  qed
qed

lemma bitmap_set_total:
  assumes "pmm_inv s"
  shows "pmm_inv (bitmap_set frame s) \<and> total_frames (bitmap_set frame s) = total_frames s \<and>
    (\<forall>g < unat (total_frames s). frame_used (bitmap_set frame s) g \<longleftrightarrow> frame_used s g \<or> g = unat frame)"
proof (cases "unat frame < unat (total_frames s)")
  case True
  then show ?thesis using bitmap_set_spec [OF assms True] by simp
next
  case False
  then have "bitmap_set frame s = s" by (simp add: bitmap_set_def word_le_nat_alt)
  then show ?thesis using assms False by auto
qed

lemma bitmap_clear_total:
  assumes "pmm_inv s"
  shows "pmm_inv (bitmap_clear frame s) \<and> total_frames (bitmap_clear frame s) = total_frames s \<and>
    (\<forall>g < unat (total_frames s). frame_used (bitmap_clear frame s) g \<longleftrightarrow> frame_used s g \<and> g \<noteq> unat frame)"
proof (cases "unat frame < unat (total_frames s)")
  case True
  then show ?thesis using bitmap_clear_spec [OF assms True] by simp
next
  case False
  then have "bitmap_clear frame s = s" by (simp add: bitmap_clear_def word_le_nat_alt)
  then show ?thesis using assms False by auto
qed

section \<open>Regions\<close>

definition region_covers :: "u64 \<Rightarrow> u64 \<Rightarrow> nat \<Rightarrow> bool" where
  "region_covers addr len g \<longleftrightarrow> len \<noteq> 0 \<and> addr < PMM_MAX_MEMORY \<and>
     unat addr div 4096 \<le> g \<and> g < (min (unat (addr + len)) 0x40000000 + 4095) div 4096"

lemma mark_loop:
  assumes "pmm_inv s" "hi \<le> 262144"
    and "r = for_range lo hi (\<lambda>f. if available then bitmap_clear (of_nat f) else bitmap_set (of_nat f)) s"
  shows "pmm_inv r \<and> total_frames r = total_frames s \<and>
    (\<forall>g < unat (total_frames s). frame_used r g \<longleftrightarrow> (if lo \<le> g \<and> g < hi then \<not> available else frame_used s g))"
  using assms(2) unfolding assms(3)
proof (induction hi)
  case (Suc hi)
  let ?r = "for_range lo hi (\<lambda>f. if available then bitmap_clear (of_nat f) else bitmap_set (of_nat f)) s"
  have u: "unat (of_nat hi :: u64) = hi" using Suc.prems by (simp add: unat_of_nat)
  have ih: "pmm_inv ?r" "total_frames ?r = total_frames s"
    "\<forall>g < unat (total_frames s). frame_used ?r g \<longleftrightarrow> (if lo \<le> g \<and> g < hi then \<not> available else frame_used s g)"
    using Suc by auto
  show ?case
  proof (cases "lo \<le> hi")
    case True
    then show ?thesis
      using ih u bitmap_set_total [OF ih(1), of "of_nat hi"] bitmap_clear_total [OF ih(1), of "of_nat hi"]
      by (auto simp: less_Suc_eq)
  next
    case False
    then show ?thesis using assms(1) by auto
  qed
qed (simp add: assms(1))

lemma mark_region_spec:
  assumes "pmm_inv s"
  shows "pmm_inv (mark_region addr len available s) \<and>
    total_frames (mark_region addr len available s) = total_frames s \<and>
    (\<forall>g < unat (total_frames s). frame_used (mark_region addr len available s) g \<longleftrightarrow>
       (if region_covers addr len g then \<not> available else frame_used s g))"
proof (cases "len = 0 \<or> addr \<ge> PMM_MAX_MEMORY")
  case True
  then show ?thesis using assms by (auto simp: mark_region_def region_covers_def)
next
  case False
  define fin :: u64 where "fin = (if addr + len > PMM_MAX_MEMORY then PMM_MAX_MEMORY else addr + len)"
  have f: "unat fin = min (unat (addr + len)) 0x40000000"
    by (auto simp: fin_def min_def word_less_nat_alt)
  then have "unat (fin + FRAME_SIZE - 1) = unat fin + 4095" by (simp add: unat_word_ariths)
  then have l: "unat ((fin + FRAME_SIZE - 1) div FRAME_SIZE) = (unat fin + 4095) div 4096"
    by (simp only: unat_div) simp
  have "(unat fin + 4095) div 4096 \<le> (0x40000000 + 4095) div 4096" using f by (intro div_le_mono) simp
  then have b: "(unat fin + 4095) div 4096 \<le> 262144" by simp
  have a: "unat (addr div FRAME_SIZE) = unat addr div 4096" by (simp add: unat_div)
  have m: "mark_region addr len available s = for_range (unat addr div 4096) ((unat fin + 4095) div 4096)
      (\<lambda>f. if available then bitmap_clear (of_nat f) else bitmap_set (of_nat f)) s"
    using False by (simp only: mark_region_def Let_def fin_def [symmetric] l a if_False)
  show ?thesis
    using mark_loop [OF assms b m] False f by (auto simp: region_covers_def not_le)
qed

lemma region_covers_iff:
  assumes "unat addr + unat len < 2 ^ 64" "unat addr < 0x40000000" "0 < unat len" "g < 262144"
  shows "region_covers addr len g \<longleftrightarrow> unat addr < (g + 1) * 4096 \<and> g * 4096 < unat addr + unat len"
proof -
  have "unat (addr + len) = unat addr + unat len" using assms(1) by (simp add: unat_word_ariths)
  moreover have "len \<noteq> 0" using assms(3) by auto
  moreover have "unat addr div 4096 \<le> g \<longleftrightarrow> unat addr < (g + 1) * 4096"
    by (simp add: less_Suc_eq_le [symmetric] div_less_iff_less_mult)
  moreover have "g < (n + 4095) div 4096 \<longleftrightarrow> g * 4096 < n" for n :: nat
    by (simp add: Suc_le_eq [symmetric] less_eq_div_iff_mult_less_eq) 
  ultimately show ?thesis
    using assms(2,4) by (auto simp: region_covers_def word_less_nat_alt min_def)
qed

section \<open>Allocation\<close>

lemma alloc_below_spec:
  assumes "pmm_inv s" "limit \<le> total_frames s" "alloc_below limit s = (a, s')"
  shows "pmm_inv s' \<and> total_frames s' = total_frames s \<and>
    ((\<exists>f < unat limit. \<not> frame_used s f \<and> (\<forall>g < f. frame_used s g) \<and> unat a = f * 4096 \<and>
        used_set s' = insert f (used_set s)) \<or>
     ((\<forall>f < unat limit. frame_used s f) \<and> a = 0 \<and> s' = s))"
proof -
  have lim: "unat limit \<le> unat (total_frames s)" using assms(2) by (simp add: word_le_nat_alt)
  have small: "unat (of_nat f :: u64) = f" if "f < unat limit" for f
    using that lim pmm_inv_total [OF assms(1)] by (simp add: unat_of_nat)
  have test: "bitmap_test (of_nat f) s \<longleftrightarrow> frame_used s f" if "f < unat limit" for f
    using that lim small [OF that] by (auto simp: bitmap_test_iff)
  show ?thesis
  proof (cases "find (\<lambda>f. \<not> bitmap_test (of_nat f) s) [0..<unat limit]")
    case None
    have r: "a = 0" "s' = s" using None assms(3) by (simp_all add: alloc_below_def)
    have "\<forall>f < unat limit. bitmap_test (of_nat f) s" using None by (simp add: find_upt_None)
    then show ?thesis using assms(1) test r by auto
  next
    case (Some f)
    then have f: "f < unat limit" "\<not> bitmap_test (of_nat f) s" "\<forall>g < f. bitmap_test (of_nat g) s"
      by (auto simp: find_upt_Some)
    have r: "a = of_nat f * FRAME_SIZE" "s' = bitmap_set (of_nat f) s"
      using Some assms(3) by (simp_all add: alloc_below_def)
    have "unat (of_nat f :: u64) < unat (total_frames s)" using small [OF f(1)] f(1) lim by simp
    note sp = bitmap_set_spec [OF assms(1) this, unfolded small [OF f(1)]]
    have "unat a = f * 4096"
      using f(1) lim pmm_inv_total [OF assms(1)] by (simp add: r unat_word_ariths unat_of_nat)
    moreover have "used_set s' = insert f (used_set s)"
      using sp f(1) lim by (auto simp: used_set_def r)
    ultimately show ?thesis
      using f test sp(2,3) r by auto
  qed
qed

text \<open>
  The interface a client of the allocator relies on: the addresses in use grow by exactly the
  address handed out, and that address was not in use. Zero is the failure value.
\<close>

locale frame_allocator =
  fixes alloc :: "'s \<Rightarrow> u64 \<times> 's" and in_use :: "'s \<Rightarrow> u64 set" and ok :: "'s \<Rightarrow> bool"
  assumes alloc_ok: "ok s \<Longrightarrow> ok (snd (alloc s))"
    and alloc_fresh: "ok s \<Longrightarrow> fst (alloc s) \<noteq> 0 \<Longrightarrow> fst (alloc s) \<notin> in_use s"
    and alloc_uses: "ok s \<Longrightarrow> fst (alloc s) \<noteq> 0 \<Longrightarrow> in_use (snd (alloc s)) = insert (fst (alloc s)) (in_use s)"
    and alloc_zero: "ok s \<Longrightarrow> fst (alloc s) = 0 \<Longrightarrow> in_use s \<subseteq> in_use (snd (alloc s))"
begin

fun allocs :: "nat \<Rightarrow> 's \<Rightarrow> u64 list \<times> 's" where
  "allocs 0 s = ([], s)"
| "allocs (Suc n) s = (let (a, s1) = alloc s; (as, s2) = allocs n s1 in (a # as, s2))"

lemma allocs_keep: "ok s \<Longrightarrow> in_use s \<subseteq> in_use (snd (alloc s))"
  using alloc_uses alloc_zero by (cases "fst (alloc s) = 0") auto

lemma allocs_fresh:
  "ok s \<Longrightarrow> allocs n s = (as, s') \<Longrightarrow>
     distinct (filter (\<lambda>a. a \<noteq> 0) as) \<and> set (filter (\<lambda>a. a \<noteq> 0) as) \<inter> in_use s = {} \<and> ok s'"
proof (induction n arbitrary: s as)
  case (Suc n)
  obtain a s1 where a: "alloc s = (a, s1)" by fastforce
  obtain bs s2 where b: "allocs n s1 = (bs, s2)" by fastforce
  then have bs: "allocs n s1 = (bs, s')" "as = a # bs" using Suc.prems(2) a by auto
  have ih: "distinct (filter (\<lambda>a. a \<noteq> 0) bs)" "set (filter (\<lambda>a. a \<noteq> 0) bs) \<inter> in_use s1 = {}" "ok s'"
    using Suc.IH [OF _ bs(1)] alloc_ok [OF Suc.prems(1)] a by auto
  have "in_use s \<subseteq> in_use s1" using allocs_keep [OF Suc.prems(1)] a by simp
  moreover have "a \<noteq> 0 \<Longrightarrow> a \<in> in_use s1 \<and> a \<notin> in_use s"
    using alloc_uses [OF Suc.prems(1)] alloc_fresh [OF Suc.prems(1)] a by simp
  ultimately show ?case using ih bs(2) by auto
qed simp

end

definition frames_in_use :: "pmm_state \<Rightarrow> u64 set" where
  "frames_in_use s = (\<lambda>f. of_nat (f * 4096)) ` used_set s"

lemma frames_in_use_iff:
  assumes "pmm_inv s" "f < 262144"
  shows "of_nat (f * 4096) \<in> frames_in_use s \<longleftrightarrow> f \<in> used_set s"
proof -
  have inj: "f = g" if "(of_nat (f * 4096) :: u64) = of_nat (g * 4096)" "g \<in> used_set s" for g
  proof -
    have "g < 262144" using that(2) used_set_bound [of s] pmm_inv_total [OF assms(1)] by (auto simp: used_set_def)
    then have "unat (of_nat (f * 4096) :: u64) = f * 4096" "unat (of_nat (g * 4096) :: u64) = g * 4096"
      using assms(2) by (simp_all only: unat_of_nat) simp_all
    with that(1) show ?thesis by simp
  qed
  then show ?thesis by (auto simp: frames_in_use_def dest: inj)
qed

lemma alloc_below_frames:
  assumes "pmm_inv s" "limit \<le> total_frames s"
  shows "pmm_inv (snd (alloc_below limit s))"
    and "fst (alloc_below limit s) \<noteq> 0 \<Longrightarrow> fst (alloc_below limit s) \<notin> frames_in_use s"
    and "fst (alloc_below limit s) \<noteq> 0 \<Longrightarrow>
      frames_in_use (snd (alloc_below limit s)) = insert (fst (alloc_below limit s)) (frames_in_use s)"
    and "frames_in_use s \<subseteq> frames_in_use (snd (alloc_below limit s))"
proof -
  obtain a s' where r: "alloc_below limit s = (a, s')" by fastforce
  note sp = alloc_below_spec [OF assms r]
  have lim: "unat limit \<le> 262144"
    using assms(2) pmm_inv_total [OF assms(1)] by (simp add: word_le_nat_alt)
  show "pmm_inv (snd (alloc_below limit s))" using sp r by simp
  have "a \<notin> frames_in_use s \<and> frames_in_use s' = insert a (frames_in_use s)" if nz: "a \<noteq> 0"
  proof -
    obtain f where f: "f < unat limit" "\<not> frame_used s f" "unat a = f * 4096" "used_set s' = insert f (used_set s)"
      using sp nz by blast
    have a: "a = of_nat (f * 4096)" using f(3) by (metis of_nat_unat ucast_id)
    have "f \<notin> used_set s" using f(2) by (simp add: used_set_def)
    then show ?thesis
      using frames_in_use_iff [OF assms(1), of f] f(1,4) lim by (simp add: a frames_in_use_def)
  qed
  then show "fst (alloc_below limit s) \<noteq> 0 \<Longrightarrow> fst (alloc_below limit s) \<notin> frames_in_use s"
    "fst (alloc_below limit s) \<noteq> 0 \<Longrightarrow>
      frames_in_use (snd (alloc_below limit s)) = insert (fst (alloc_below limit s)) (frames_in_use s)"
    using r by auto
  show "frames_in_use s \<subseteq> frames_in_use (snd (alloc_below limit s))"
    using sp r by (auto simp: frames_in_use_def)
qed

interpretation pmm: frame_allocator pmm_alloc_frame frames_in_use pmm_inv
  unfolding pmm_alloc_frame_def by unfold_locales (rule alloc_below_frames; simp)+

lemma low_limit: "(if k > n then n else k) \<le> (n :: u64)"
  by (simp add: not_less)

interpretation pmm_low: frame_allocator "pmm_alloc_frame_low limit" frames_in_use pmm_inv for limit
  unfolding pmm_alloc_frame_low_def Let_def
  by unfold_locales (rule alloc_below_frames [OF _ low_limit]; assumption)+

section \<open>Initialisation\<close>

lemma mmap_pass_map:
  "memory_map m (ucast addr) es \<Longrightarrow> mmap_pass m addr f s = Some (fold f es s)"
  by (auto simp: memory_map_def mmap_pass_def Let_def walk_tags_chain walk_maps)

lemma pmm_reset_spec:
  assumes "0x1000 \<le> unat highest" "r = pmm_reset highest"
  shows "pmm_inv r \<and> unat (total_frames r) = min (unat highest) 0x40000000 div 4096 \<and>
    (\<forall>g < unat (total_frames r). frame_used r g)"
proof -
  define h :: u64 where "h = (if highest > PMM_MAX_MEMORY then PMM_MAX_MEMORY else highest)"
  have h: "unat h = min (unat highest) 0x40000000" by (auto simp: h_def min_def word_less_nat_alt)
  have d: "unat (h div FRAME_SIZE) = unat h div 4096" by (simp add: unat_div)
  have "unat h div 4096 \<noteq> 0" using h assms(1) by (simp add: div_eq_0_iff)
  then have "h div FRAME_SIZE \<noteq> 0" using d by (metis unat_0)
  then have r: "r = \<lparr>frame_bitmap = replicate BITMAP_BYTES 0xFF, total_frames = h div FRAME_SIZE,
      used_frames = h div FRAME_SIZE\<rparr>"
    by (simp add: assms(2) pmm_reset_def Let_def h_def)
  have "unat h div 4096 \<le> 0x40000000 div 4096" using h by (intro div_le_mono) simp
  then have b: "unat (h div FRAME_SIZE) \<le> 262144" using d by simp
  have "(0xFF :: u8) = mask 8" by (simp add: mask_eq_exp_minus_1)
  then have ff: "bit (0xFF :: u8) k" if "k < 8" for k
    using that by (simp only: bit_mask_iff) simp
  have u: "frame_used r g" if "g < unat (h div FRAME_SIZE)" for g
  proof -
    have "g div 8 < BITMAP_BYTES" using that b by simp
    moreover have "bit (0xFF :: u8) (g mod 8)" by (rule ff) simp
    ultimately show ?thesis by (simp add: r frame_used_def)
  qed
  then have "used_set r = {..<unat (h div FRAME_SIZE)}" by (auto simp: used_set_def r)
  then have "pmm_inv r" using b by (simp add: pmm_inv_def r word_le_nat_alt)
  then show ?thesis using u d h by (simp add: r)
qed

text \<open>The frames an entry of the memory map releases, and the address its pass computes.\<close>

definition entry_covers :: "mmap_entry \<Rightarrow> nat \<Rightarrow> bool" where
  "entry_covers e g \<longleftrightarrow> entry_type e = MULTIBOOT_MEMORY_AVAILABLE \<and> region_covers (entry_addr e) (entry_len e) g"

definition mmap_end :: "mmap_entry list \<Rightarrow> nat" where
  "mmap_end es = Max (insert 0x1000000 ((\<lambda>e. unat (entry_addr e + entry_len e)) `
     {e \<in> set es. entry_type e = MULTIBOOT_MEMORY_AVAILABLE}))"

lemma mmap_release_spec:
  "pmm_inv s \<Longrightarrow> pmm_inv (fold mmap_release es s) \<and> total_frames (fold mmap_release es s) = total_frames s \<and>
     (\<forall>g < unat (total_frames s). frame_used (fold mmap_release es s) g \<longleftrightarrow>
        frame_used s g \<and> \<not> (\<exists>e \<in> set es. entry_covers e g))"
proof (induction es arbitrary: s)
  case (Cons e es)
  show ?case
    using Cons.IH [of "mmap_release e s"] Cons.prems mark_region_spec [OF Cons.prems, of "entry_addr e" "entry_len e" True]
    by (auto simp: mmap_release_def entry_covers_def)
qed simp

lemma mmap_highest_max:
  "unat (mmap_highest e h) = (if entry_type e = MULTIBOOT_MEMORY_AVAILABLE
     then max (unat (entry_addr e + entry_len e)) (unat h) else unat h)"
  by (simp add: mmap_highest_def Let_def max_def word_less_nat_alt)

lemma mmap_highest_fold:
  "unat (fold mmap_highest es h) = Max (insert (unat h) ((\<lambda>e. unat (entry_addr e + entry_len e)) `
     {e \<in> set es. entry_type e = MULTIBOOT_MEMORY_AVAILABLE}))"
proof (induction es arbitrary: h)
  case (Cons e es)
  have s: "{x. (x = e \<or> x \<in> set es) \<and> entry_type x = MULTIBOOT_MEMORY_AVAILABLE} =
     (if entry_type e = MULTIBOOT_MEMORY_AVAILABLE then insert e {x \<in> set es. entry_type x = MULTIBOOT_MEMORY_AVAILABLE}
      else {x \<in> set es. entry_type x = MULTIBOOT_MEMORY_AVAILABLE})" by auto
  have m: "Max (insert (max a b) A) = Max (insert b (insert a A))" if "finite A" for a b :: nat and A
    using that by (cases "A = {}") (auto simp: max.assoc max.left_commute max.commute)
  show ?case by (simp add: Cons.IH mmap_highest_max s m)
qed simp

lemma mmap_end_lower: "0x1000000 \<le> mmap_end es"
  by (simp add: mmap_end_def)

lemma pmm_init_map:
  assumes "memory_map m (ucast addr) es"
  shows "\<exists>s. pmm_init m kstart kend addr = Some s \<and> pmm_inv s \<and>
    unat (total_frames s) = min (mmap_end es) 0x40000000 div 4096 \<and>
    (\<forall>g < unat (total_frames s). frame_used s g \<longleftrightarrow>
       region_covers kstart (kend - kstart) g \<or> g < 256 \<or> \<not> (\<exists>e \<in> set es. entry_covers e g))"
proof -
  let ?h = "fold mmap_highest es 0x1000000"
  let ?s = "fold mmap_release es (pmm_reset ?h)"
  have h: "unat ?h = mmap_end es" by (simp add: mmap_highest_fold mmap_end_def)
  then have "0x1000 \<le> unat ?h" using mmap_end_lower [of es] by simp
  note r = pmm_reset_spec [OF this refl]
  note rel = mmap_release_spec [of "pmm_reset ?h" es]
  have low: "region_covers 0 (1024 * 1024) g \<longleftrightarrow> g < 256" for g
    by (simp add: region_covers_def)
  have i: "pmm_init m kstart kend addr =
      Some (mark_region kstart (kend - kstart) False (mark_region 0 (1024 * 1024) False ?s))"
    by (simp add: pmm_init_def mmap_pass_map [OF assms])
  show ?thesis
    using r rel mark_region_spec [of ?s 0 "1024 * 1024" False]
      mark_region_spec [of "mark_region 0 (1024 * 1024) False ?s" kstart "kend - kstart" False]
    unfolding i low by (simp add: h)
qed

section \<open>Properties\<close>

text \<open>
  A client that frees only what it was given: it asks for frames, with or without an address limit,
  keeps the addresses it got, and hands some of them back.
\<close>

datatype pmm_op = Alloc | Alloc_low u64 | Free nat

definition take_frame :: "u64 \<times> pmm_state \<Rightarrow> u64 list \<Rightarrow> u64 list \<times> pmm_state" where
  "take_frame r owned = (if fst r = 0 then owned else fst r # owned, snd r)"

fun pmm_run :: "pmm_op list \<Rightarrow> u64 list \<times> pmm_state \<Rightarrow> u64 list \<times> pmm_state" where
  "pmm_run [] (owned, s) = (owned, s)"
| "pmm_run (Alloc # ops) (owned, s) = pmm_run ops (take_frame (pmm_alloc_frame s) owned)"
| "pmm_run (Alloc_low n # ops) (owned, s) = pmm_run ops (take_frame (pmm_alloc_frame_low n s) owned)"
| "pmm_run (Free i # ops) (owned, s) =
     (if i < length owned then pmm_run ops (take i owned @ drop (Suc i) owned, pmm_free_frame (owned ! i) s)
      else pmm_run ops (owned, s))"

text \<open>What holds all along: the frames in use are those at the start and the ones the client owns.\<close>

definition ownership :: "pmm_state \<Rightarrow> u64 list \<times> pmm_state \<Rightarrow> bool" where
  "ownership s0 r \<longleftrightarrow> (case r of (owned, s) \<Rightarrow> pmm_inv s \<and> total_frames s = total_frames s0 \<and> distinct owned \<and>
     set owned \<inter> frames_in_use s0 = {} \<and> frames_in_use s = frames_in_use s0 \<union> set owned)"

lemma alloc_below_zero:
  assumes "pmm_inv s" "0 \<in> frames_in_use s" "limit \<le> total_frames s" "fst (alloc_below limit s) = 0"
  shows "snd (alloc_below limit s) = s"
proof -
  obtain a s' where r: "alloc_below limit s = (a, s')" by fastforce
  have "frame_used s 0" using frames_in_use_iff [OF assms(1), of 0] assms(2) by (simp add: used_set_def)
  then show ?thesis using alloc_below_spec [OF assms(1,3) r] assms(4) r by auto
qed

lemma take_frame_ownership:
  assumes "ownership s0 (owned, s)" "0 \<in> frames_in_use s0" "limit \<le> total_frames s"
  shows "ownership s0 (take_frame (alloc_below limit s) owned)"
proof (cases "fst (alloc_below limit s) = 0")
  case True
  then have "snd (alloc_below limit s) = s"
    using assms alloc_below_zero by (auto simp: ownership_def)
  then show ?thesis using True assms(1) by (simp add: take_frame_def)
next
  case False
  obtain a s' where r: "alloc_below limit s = (a, s')" by fastforce
  have i: "pmm_inv s" using assms(1) by (simp add: ownership_def)
  show ?thesis
    using assms(1) alloc_below_frames [OF i assms(3)] alloc_below_spec [OF i assms(3) r] False r
    by (auto simp: ownership_def take_frame_def)
qed

lemma free_frame_frames:
  assumes "pmm_inv s" "a \<in> frames_in_use s"
  shows "pmm_inv (pmm_free_frame a s)" "frames_in_use (pmm_free_frame a s) = frames_in_use s - {a}"
    "total_frames (pmm_free_frame a s) = total_frames s"
proof -
  obtain f where f: "f \<in> used_set s" "a = of_nat (f * 4096)" using assms(2) by (auto simp: frames_in_use_def)
  have b: "f < unat (total_frames s)" using f(1) by (simp add: used_set_def)
  then have small: "f < 262144" using pmm_inv_total [OF assms(1)] by simp
  then have "unat a = f * 4096" unfolding f(2) by (simp only: unat_of_nat) simp
  then have d: "unat (a div FRAME_SIZE) = f" by (simp add: unat_div)
  note c = bitmap_clear_spec [OF assms(1), of "a div FRAME_SIZE", unfolded d, OF b]
  show i: "pmm_inv (pmm_free_frame a s)" and "total_frames (pmm_free_frame a s) = total_frames s"
    using c by (simp_all add: pmm_free_frame_def)
  have u: "used_set (pmm_free_frame a s) = used_set s - {f}"
    using c by (auto simp: used_set_def pmm_free_frame_def)
  let ?at = "\<lambda>f :: nat. of_nat (f * 4096) :: u64"
  have "g = f" if "g \<in> used_set s" "(of_nat (g * 4096) :: u64) = of_nat (f * 4096)" for g
  proof -
    have "g < 262144" using that(1) pmm_inv_total [OF assms(1)] by (auto simp: used_set_def)
    then have "unat (of_nat (g * 4096) :: u64) = g * 4096" by (simp only: unat_of_nat) simp
    then show ?thesis using that(2) \<open>unat a = f * 4096\<close> f(2) by simp
  qed
  then have "?at ` (used_set s - {f}) = ?at ` used_set s - {?at f}"
    using f(1) by (intro image_remove) simp_all
  then show "frames_in_use (pmm_free_frame a s) = frames_in_use s - {a}"
    unfolding frames_in_use_def u by (simp only: f(2))
qed

lemma pmm_run_ownership:
  "ownership s0 r \<Longrightarrow> 0 \<in> frames_in_use s0 \<Longrightarrow> ownership s0 (pmm_run ops r)"
proof (induction ops r rule: pmm_run.induct)
  case (2 ops owned s)
  then show ?case using take_frame_ownership [OF 2(2,3), of "total_frames s"]
    by (simp add: pmm_alloc_frame_def)
next
  case (3 n ops owned s)
  then show ?case
    using take_frame_ownership [OF 3(2,3) low_limit] by (simp add: pmm_alloc_frame_low_def Let_def)
next
  case (4 i ops owned s)
  show ?case
  proof (cases "i < length owned")
    case True
    let ?a = "owned ! i" and ?rest = "take i owned @ drop (Suc i) owned"
    have d: "distinct owned" "pmm_inv s" "?a \<in> frames_in_use s" using 4(3) True by (auto simp: ownership_def)
    have "ownership s0 (?rest, pmm_free_frame ?a s)"
      using 4(3) free_frame_frames [OF d(2,3)] remove_nth [OF d(1) True] nth_mem [OF True] by (auto simp: ownership_def)
    then show ?thesis using 4 True by simp
  qed (use 4 in simp)
qed simp_all

text \<open>
  C15: \<^verbatim>\<open>pmm_init\<close> builds the allocator from the memory map: for every map the boot loader passes, it
  returns, the frames it manages end at the highest available address (16 MiB at least, 1 GiB at
  most), and a frame is free exactly when an available region covers it and it lies neither in the
  first megabyte nor in the kernel image.
\<close>

theorem pmm_init_frames:
  assumes "memory_map m (ucast addr) es" and "unat kstart < unat kend" "unat kstart < 0x40000000"
  shows "\<exists>s. pmm_init m kstart kend addr = Some s \<and> pmm_inv s \<and>
    unat (total_frames s) = min (mmap_end es) 0x40000000 div 4096 \<and>
    (\<forall>g < unat (total_frames s). \<not> frame_used s g \<longleftrightarrow>
       0x100000 \<le> g * 4096 \<and> \<not> (unat kstart < (g + 1) * 4096 \<and> g * 4096 < unat kend) \<and>
       (\<exists>e \<in> set es. entry_covers e g))"
proof -
  have k: "kstart \<le> kend" using assms(2) by (simp add: word_le_nat_alt)
  have d: "unat (kend - kstart) = unat kend - unat kstart" using k by (simp add: unat_sub)
  have "unat kend < 2 ^ 64" using unsigned_less [of kend, where ?'a = nat] by simp
  then have c: "region_covers kstart (kend - kstart) g \<longleftrightarrow> unat kstart < (g + 1) * 4096 \<and> g * 4096 < unat kend"
    if "g < 262144" for g
    using region_covers_iff [of kstart "kend - kstart" g] that assms(2,3) d by simp
  obtain s where s: "pmm_init m kstart kend addr = Some s" "pmm_inv s"
      "unat (total_frames s) = min (mmap_end es) 0x40000000 div 4096"
    and u: "\<And>g. g < unat (total_frames s) \<Longrightarrow> frame_used s g \<longleftrightarrow>
       region_covers kstart (kend - kstart) g \<or> g < 256 \<or> \<not> (\<exists>e \<in> set es. entry_covers e g)"
    using pmm_init_map [OF assms(1), of kstart kend] by blast
  have "\<not> frame_used s g \<longleftrightarrow> 0x100000 \<le> g * 4096 \<and>
      \<not> (unat kstart < (g + 1) * 4096 \<and> g * 4096 < unat kend) \<and> (\<exists>e \<in> set es. entry_covers e g)"
    if "g < unat (total_frames s)" for g
  proof -
    have "g < 262144" using that pmm_inv_total [OF s(2)] by simp
    then show ?thesis using u [OF that] c by (auto simp: not_less)
  qed
  then show ?thesis using s by blast
qed

theorem pmm_init_frames_witness:
  "\<exists>s. pmm_init sample_memory 0x100000 0x120000 0x1000 = Some s \<and> pmm_inv s \<and>
    unat (total_frames s) = 8192 \<and> \<not> frame_used s 0x120 \<and> frame_used s 0x11F \<and> frame_used s 0"
proof -
  have e: "mmap_end sample_map = 0x2000000"
  proof -
    have "{e \<in> set sample_map. entry_type e = MULTIBOOT_MEMORY_AVAILABLE} = set sample_map"
      by (auto simp: sample_map_def)
    then show ?thesis by (simp add: mmap_end_def) (simp add: sample_map_def)
  qed
  have "entry_covers (sample_map ! 1) 0x120" "sample_map ! 1 \<in> set sample_map"
    by (simp_all add: entry_covers_def region_covers_def sample_map_def)
  then have c: "\<exists>e \<in> set sample_map. entry_covers e 0x120" by blast
  obtain s where s: "pmm_init sample_memory 0x100000 0x120000 0x1000 = Some s" "pmm_inv s"
    "unat (total_frames s) = 8192"
    and f: "\<forall>g < 8192. \<not> frame_used s g \<longleftrightarrow> 0x100000 \<le> g * 4096 \<and>
      \<not> (0x100000 < (g + 1) * 4096 \<and> g * 4096 < 0x120000) \<and> (\<exists>e \<in> set sample_map. entry_covers e g)"
    using pmm_init_frames [of sample_memory "0x1000" sample_map "0x100000" "0x120000"] sample_memory_map e by auto
  have "\<not> frame_used s 0x120" "frame_used s 0x11F" "frame_used s 0"
    using f [rule_format, of "0x120"] f [rule_format, of "0x11F"] f [rule_format, of 0] c by simp_all
  then show ?thesis using s by blast
qed

text \<open>
  \<^verbatim>\<open>pmm_init\<close> returns for sound boot information: when every tag its walk comes to has a size
  that is neither 0 nor wraps when rounded up to 8 bytes, and the entry size of every memory map is
  not 0, both passes over the information end.
\<close>

theorem pmm_init_returns:
  assumes "boot_info_sound m (ucast addr)"
  shows "\<exists>s. pmm_init m kstart kend addr = Some s \<and> pmm_inv s"
  using memory_map_exists [OF assms] pmm_init_map by blast

theorem pmm_init_returns_witness:
  "\<exists>s. pmm_init sample_memory 0x100000 0x120000 0x1000 = Some s \<and> pmm_inv s"
  using pmm_init_returns [of sample_memory "0x1000" "0x100000" "0x120000"] sample_sound by simp

text \<open>
  C40: A first tag whose size is 0, or within 7 of the largest 32-bit number, hangs \<^verbatim>\<open>pmm_init\<close>: the
  rounded size is 0 and the walk stays on the tag.
\<close>

theorem pmm_init_hangs:
  assumes "tag = ucast addr + 8" "tag < ucast addr + ucast (read32 m (ucast addr))"
    and "tag_type m tag \<noteq> MULTIBOOT_TAG_TYPE_END" "tag_type m tag \<noteq> MULTIBOOT_TAG_TYPE_MMAP"
    and "tag_size m tag = 0 \<or> tag_size m tag > 0xFFFFFFF8"
  shows "pmm_init m kstart kend addr = None"
proof -
  have "tag_next m tag = tag" using tag_round_zero [OF assms(5)] by (simp add: tag_next_def)
  then have "mmap_pass m addr f s = None" for f and s :: u64
    unfolding mmap_pass_def Let_def assms(1) [symmetric]
    by (rule walk_tags_stuck [where P = "\<lambda>_. True", OF assms(2,3)]) (simp_all add: assms(4))
  then show ?thesis by (simp add: pmm_init_def)
qed

theorem pmm_init_hangs_witness:
  "pmm_init (\<lambda>a. if a = 0x1000 then 64 else if a = 0x1008 then 1 else 0) 0x100000 0x120000 0x1000 = None"
  by (rule pmm_init_hangs [where tag = "0x1008"]) (simp_all add: read32_def tag_type_def tag_size_def)

text \<open>
  C14: Frames are never handed out twice: whatever sequence of allocations and frees a client makes,
  freeing only what it was given, the frames it owns are distinct, were free at the start, and are
  with the frames in use at the start exactly the ones in use now; the used-frame counter stays
  exact.
\<close>

theorem pmm_ownership:
  assumes "pmm_inv s0" "0 \<in> frames_in_use s0" "pmm_run ops ([], s0) = (owned, s)"
  shows "pmm_inv s \<and> distinct owned \<and> set owned \<inter> frames_in_use s0 = {} \<and>
    frames_in_use s = frames_in_use s0 \<union> set owned"
  using pmm_run_ownership [of s0 "([], s0)" ops] assms by (simp add: ownership_def)

text \<open>An allocator of 16 MiB with three free frames at 1 MiB.\<close>

definition sample_pmm :: pmm_state where
  "sample_pmm = mark_region 0x100000 0x3000 True (pmm_reset 0x1000000)"

lemma sample_pmm_facts:
  "pmm_inv sample_pmm" "total_frames sample_pmm = 4096"
  "g < 4096 \<Longrightarrow> frame_used sample_pmm g \<longleftrightarrow> g \<notin> {256, 257, 258}"
proof -
  have r: "pmm_inv (pmm_reset 0x1000000)" "unat (total_frames (pmm_reset 0x1000000)) = 4096"
    "\<forall>g < 4096. frame_used (pmm_reset 0x1000000) g"
    using pmm_reset_spec [of "0x1000000", OF _ refl] by simp_all
  have "total_frames (pmm_reset 0x1000000) = 4096" using r(2) by (metis of_nat_numeral of_nat_unat ucast_id)
  moreover have "region_covers 0x100000 0x3000 g \<longleftrightarrow> g \<in> {256, 257, 258}" for g
    by (auto simp: region_covers_def)
  ultimately show "pmm_inv sample_pmm" "total_frames sample_pmm = 4096"
    "g < 4096 \<Longrightarrow> frame_used sample_pmm g \<longleftrightarrow> g \<notin> {256, 257, 258}"
    using mark_region_spec [OF r(1), of "0x100000" "0x3000" True] r by (auto simp: sample_pmm_def)
qed

lemma sample_pmm_zero: "frame_used sample_pmm 0" "0 \<in> frames_in_use sample_pmm"
proof -
  show u: "frame_used sample_pmm 0" by (simp add: sample_pmm_facts)
  then have "0 \<in> used_set sample_pmm" by (simp add: used_set_def sample_pmm_facts)
  then show "0 \<in> frames_in_use sample_pmm" using frames_in_use_iff [OF sample_pmm_facts(1), of 0] by simp
qed

theorem pmm_ownership_witness:
  "\<exists>owned s. pmm_run [Alloc, Alloc_low 0x200000, Free 0, Alloc] ([], sample_pmm) = (owned, s) \<and> pmm_inv s \<and>
     distinct owned \<and> frames_in_use s = frames_in_use sample_pmm \<union> set owned"
proof -
  obtain owned s where "pmm_run [Alloc, Alloc_low 0x200000, Free 0, Alloc] ([], sample_pmm) = (owned, s)" by fastforce
  then show ?thesis using pmm_ownership [OF sample_pmm_facts(1) sample_pmm_zero(2)] by blast
qed

text \<open>
  An allocation returns the lowest free frame below the limit and marks it used; it fails, with
  0 and the state unchanged, exactly when no frame below the limit is free.
\<close>

theorem pmm_alloc_lowest:
  assumes "pmm_inv s" "frame_used s 0"
  shows "case pmm_alloc_frame_low limit s of (a, s') \<Rightarrow>
    if \<exists>f < min (unat limit div 4096) (unat (total_frames s)). \<not> frame_used s f
    then a \<noteq> 0 \<and> unat a = (LEAST f. \<not> frame_used s f) * 4096 \<and> unat a + 4096 \<le> unat limit \<and>
      used_set s' = insert (LEAST f. \<not> frame_used s f) (used_set s)
    else a = 0 \<and> s' = s"
proof -
  define k where "k = (if limit div FRAME_SIZE > total_frames s then total_frames s else limit div FRAME_SIZE)"
  have k: "unat k = min (unat limit div 4096) (unat (total_frames s))"
    by (simp add: k_def word_less_nat_alt unat_div min_def)
  have le: "k \<le> total_frames s" unfolding k_def by (rule low_limit)
  obtain a s' where r: "alloc_below k s = (a, s')" by fastforce
  have al: "pmm_alloc_frame_low limit s = (a, s')"
    using r by (simp add: pmm_alloc_frame_low_def k_def)
  show ?thesis
  proof (cases "\<forall>f < unat k. frame_used s f")
    case True
    then show ?thesis using alloc_below_spec [OF assms(1) le r] al k by auto
  next
    case False
    then obtain f where f: "f < unat k" "\<not> frame_used s f" "\<forall>g < f. frame_used s g" "unat a = f * 4096"
      "used_set s' = insert f (used_set s)"
      using alloc_below_spec [OF assms(1) le r] by blast
    have "(LEAST f. \<not> frame_used s f) = f" using f(2,3) by (intro Least_equality) (auto simp: not_less [symmetric])
    moreover have "f \<noteq> 0" using f(2) assms(2) by (cases f) auto
    moreover have "f * 4096 + 4096 \<le> unat limit"
    proof -
      have "Suc f \<le> unat limit div 4096" using f(1) k by simp
      then have "Suc f * 4096 \<le> unat limit" by (simp only: less_eq_div_iff_mult_less_eq)
      then show ?thesis by simp
    qed
    ultimately show ?thesis using f al k by (auto simp: unat_eq_0 [symmetric])
  qed
qed

theorem pmm_alloc_lowest_witness: "fst (pmm_alloc_frame_low 0x200000 sample_pmm) = 0x100000"
proof -
  obtain a s' where r: "pmm_alloc_frame_low 0x200000 sample_pmm = (a, s')" by fastforce
  have "\<not> frame_used sample_pmm 256" by (simp add: sample_pmm_facts)
  moreover have "(LEAST f. \<not> frame_used sample_pmm f) = 256"
  proof (rule Least_equality)
    show "\<not> frame_used sample_pmm 256" by (simp add: sample_pmm_facts)
    fix f assume "\<not> frame_used sample_pmm f"
    then show "256 \<le> f" using sample_pmm_facts(3) [of f] by (cases "f < 256") auto
  qed
  moreover have "256 < min (unat (0x200000 :: u64) div 4096) (unat (total_frames sample_pmm))"
    by (simp add: sample_pmm_facts)
  ultimately have ex: "\<exists>f < min (unat (0x200000 :: u64) div 4096) (unat (total_frames sample_pmm)).
      \<not> frame_used sample_pmm f" and l: "(LEAST f. \<not> frame_used sample_pmm f) = 256" by blast+
  have "unat a = 0x100000"
    using pmm_alloc_lowest [OF sample_pmm_facts(1) sample_pmm_zero(1), of "0x200000"]
    unfolding r prod.case if_P [OF ex] l by simp
  then show ?thesis using r by (simp add: word_unat_eq_iff)
qed

text \<open>
  C27: The memory statistics are exact: the total, the used and the free KiB are four times the
  number of managed, used and free frames, with no wrap-around, and the used and the free KiB add
  up to the total.
\<close>

theorem pmm_accounting:
  assumes "pmm_inv s"
  shows "unat (pmm_total_kib s) = 4 * unat (total_frames s) \<and> unat (pmm_used_kib s) = 4 * card (used_set s) \<and>
    unat (pmm_free_kib s) = 4 * card {f. f < unat (total_frames s) \<and> \<not> frame_used s f} \<and>
    pmm_used_kib s + pmm_free_kib s = pmm_total_kib s"
proof -
  let ?t = "unat (total_frames s)" and ?u = "card (used_set s)"
  note t = pmm_inv_total [OF assms] and u = used_card [OF assms]
  have us: "unat (used_frames s) = ?u" using assms t u by (simp add: pmm_inv_def unat_of_nat)
  have kib: "unat ((n * FRAME_SIZE) div 1024) = 4 * unat n" if "unat n \<le> 262144" for n :: u64
    using that by (simp add: unat_div unat_word_ariths)
  have "{f. f < ?t \<and> \<not> frame_used s f} = {..<?t} - used_set s" by (auto simp: used_set_def)
  then have free: "card {f. f < ?t \<and> \<not> frame_used s f} = ?t - ?u"
    using used_set_bound by (simp add: card_Diff_subset)
  have le: "used_frames s \<le> total_frames s" using us u by (simp add: word_le_nat_alt)
  then have d: "unat (total_frames s - used_frames s) = ?t - ?u" using us by (simp add: unat_sub)
  have a: "unat (pmm_total_kib s) = 4 * ?t" "unat (pmm_used_kib s) = 4 * ?u"
    using kib [of "total_frames s"] kib [of "used_frames s"] t u us
    by (simp_all add: pmm_total_kib_def pmm_used_kib_def)
  have "pmm_free_kib s = ((total_frames s - used_frames s) * FRAME_SIZE) div 1024"
    unfolding pmm_free_kib_def by (rule if_not_P) (simp add: le not_less)
  moreover have "unat (total_frames s - used_frames s) \<le> 262144" using d t by simp
  ultimately have b: "unat (pmm_free_kib s) = 4 * (?t - ?u)" using kib d by metis
  have "pmm_used_kib s + pmm_free_kib s = pmm_total_kib s"
    using a b t u by (simp add: word_unat_eq_iff unat_word_ariths)
  then show ?thesis using a b free by simp
qed

theorem pmm_accounting_witness: "unat (pmm_total_kib sample_pmm) = 16384 \<and> unat (pmm_free_kib sample_pmm) = 12"
proof -
  have "{f. f < 4096 \<and> \<not> frame_used sample_pmm f} = {256, 257, 258}"
    by (auto simp: sample_pmm_facts)
  then show ?thesis using pmm_accounting [OF sample_pmm_facts(1)] by (simp add: sample_pmm_facts(2))
qed

text \<open>
  Frame 0 is ambiguous: once frame 0 has been freed, the next allocation takes it and returns
  the address 0, which every caller reads as failure, while the frame counts as used.
\<close>

theorem frame_zero_lost:
  assumes "pmm_inv s" "0 < total_frames s"
  shows "case pmm_alloc_frame (pmm_free_frame 0 s) of (a, s') \<Rightarrow> a = 0 \<and> frame_used s' 0 \<and> pmm_inv s'"
proof -
  let ?s = "pmm_free_frame 0 s"
  have "0 < unat (total_frames s)" using assms(2) by (simp add: word_less_nat_alt)
  then have c: "pmm_inv ?s" "total_frames ?s = total_frames s" "\<not> frame_used ?s 0"
    using bitmap_clear_spec [OF assms(1), of 0] by (simp_all add: pmm_free_frame_def)
  obtain a s' where r: "pmm_alloc_frame ?s = (a, s')" by fastforce
  have "\<not> (\<forall>f < unat (total_frames ?s). frame_used ?s f)" using c \<open>0 < unat (total_frames s)\<close> by auto
  then obtain f where f: "\<forall>g < f. frame_used ?s g" "unat a = f * 4096" "used_set s' = insert f (used_set ?s)"
    and "pmm_inv s'"
    using alloc_below_spec [OF c(1) order_refl r [unfolded pmm_alloc_frame_def]] by blast
  moreover have "f = 0" using f(1) c(3) by (cases f) auto
  ultimately show ?thesis using r by (auto simp: used_set_def unat_eq_0)
qed

theorem frame_zero_lost_witness: "fst (pmm_alloc_frame (pmm_free_frame 0 sample_pmm)) = 0"
  using frame_zero_lost [OF sample_pmm_facts(1)] by (auto simp: sample_pmm_facts(2))

end
