(* ===== verification/Vmm.thy ===== *)
theory Vmm
  imports Pmm
begin

unbundle bit_operations_syntax

text \<open>
  The page tables of \<^verbatim>\<open>kernel/src/core/vmm.c\<close>: three levels of 512 entries, the last one of 2 MiB pages.
  Table memory is a function from the byte address of an entry to its 64 bits; tables are reached
  through the identity map, so \<^verbatim>\<open>phys_to_virt\<close> is the identity. The frames of new tables come from the
  frame allocator, and \<^verbatim>\<open>invlpg\<close> is recorded.
\<close>

section \<open>Operations\<close>

abbreviation (input) PAGE_PRESENT :: u64 where "PAGE_PRESENT \<equiv> 1"
abbreviation (input) PAGE_WRITABLE :: u64 where "PAGE_WRITABLE \<equiv> 2"
abbreviation (input) PAGE_USER :: u64 where "PAGE_USER \<equiv> 4"
abbreviation (input) PAGE_HUGE :: u64 where "PAGE_HUGE \<equiv> 0x80"
abbreviation (input) PAGE_NX :: u64 where "PAGE_NX \<equiv> 0x8000000000000000"
abbreviation (input) VMM_FLAG_WRITABLE :: u64 where "VMM_FLAG_WRITABLE \<equiv> 2"
abbreviation (input) VMM_FLAG_USER :: u64 where "VMM_FLAG_USER \<equiv> 4"
abbreviation (input) VMM_FLAG_NX :: u64 where "VMM_FLAG_NX \<equiv> 0x8000000000000000"
abbreviation (input) IDENTITY_WINDOW_LIMIT :: u64 where "IDENTITY_WINDOW_LIMIT \<equiv> 0x40000000"

record vm_state =
  pmm :: pmm_state
  tables :: "u64 \<Rightarrow> u64"
  pml4_table :: u64
  invlpg_log :: "u64 list"

definition phys_to_virt :: "u64 \<Rightarrow> u64" where
  "phys_to_virt phys_addr = phys_addr"

text \<open>The address of \<^verbatim>\<open>table[index]\<close>.\<close>

definition slot :: "u64 \<Rightarrow> u16 \<Rightarrow> u64" where
  "slot table index = table + 8 * ucast index"

definition memset_page :: "u64 \<Rightarrow> vm_state \<Rightarrow> vm_state" where
  "memset_page frame s = s\<lparr>tables := (\<lambda>a. if frame \<le> a \<and> a < frame + 4096 then 0 else tables s a)\<rparr>"

definition ensure_table :: "u64 \<Rightarrow> u16 \<Rightarrow> vm_state \<Rightarrow> u64 option \<times> vm_state" where
  "ensure_table parent index s =
     (let found = (\<lambda>s. (Some (phys_to_virt (tables s (slot parent index) AND 0x000FFFFFFFFFF000)), s))
      in if tables s (slot parent index) AND PAGE_PRESENT = 0
         then case pmm_alloc_frame_low IDENTITY_WINDOW_LIMIT (pmm s) of (frame, p) \<Rightarrow>
                if frame = 0 then (None, s\<lparr>pmm := p\<rparr>)
                else let s1 = memset_page frame (s\<lparr>pmm := p\<rparr>)
                     in found (s1\<lparr>tables := (tables s1)(slot parent index := frame OR PAGE_PRESENT OR PAGE_WRITABLE)\<rparr>)
         else found s)"

definition entry_flags :: "u64 \<Rightarrow> u64" where
  "entry_flags flags =
     (let f0 = PAGE_PRESENT OR PAGE_HUGE;
          f1 = (if flags AND VMM_FLAG_WRITABLE \<noteq> 0 then f0 OR PAGE_WRITABLE else f0);
          f2 = (if flags AND VMM_FLAG_USER \<noteq> 0 then f1 OR PAGE_USER else f1)
      in if flags AND VMM_FLAG_NX \<noteq> 0 then f2 OR PAGE_NX else f2)"

definition pml4_index :: "u64 \<Rightarrow> u16" where
  "pml4_index virt_addr = ucast (drop_bit 39 virt_addr AND 0x1FF)"

definition pdpt_index :: "u64 \<Rightarrow> u16" where
  "pdpt_index virt_addr = ucast (drop_bit 30 virt_addr AND 0x1FF)"

definition pd_index :: "u64 \<Rightarrow> u16" where
  "pd_index virt_addr = ucast (drop_bit 21 virt_addr AND 0x1FF)"

definition vmm_map_2m :: "u64 \<Rightarrow> u64 \<Rightarrow> u64 \<Rightarrow> vm_state \<Rightarrow> bool \<times> vm_state" where
  "vmm_map_2m virt_addr phys_addr flags s =
     (if virt_addr AND 0x1FFFFF \<noteq> 0 \<or> phys_addr AND 0x1FFFFF \<noteq> 0 then (False, s)
      else case ensure_table (pml4_table s) (pml4_index virt_addr) s of
          (None, s1) \<Rightarrow> (False, s1)
        | (Some pdpt, s1) \<Rightarrow>
            (case ensure_table pdpt (pdpt_index virt_addr) s1 of
               (None, s2) \<Rightarrow> (False, s2)
             | (Some pd, s2) \<Rightarrow>
                 (True, s2\<lparr>tables := (tables s2)(slot pd (pd_index virt_addr) :=
                             (phys_addr AND 0x000FFFFFFFE00000) OR entry_flags flags),
                           invlpg_log := virt_addr # invlpg_log s2\<rparr>)))"

definition vmm_init :: "vm_state \<Rightarrow> vm_state" where
  "vmm_init s = snd (vmm_map_2m 0x40000000 0x40000000 VMM_FLAG_WRITABLE s)"

section \<open>The page map\<close>

text \<open>
  What the tables mean: the table an index path leads to, and the entry of a page, as the processor
  looks it up. The invariant says that the tables form a tree of frames in use: no two paths of at
  most two indices lead to the same table.
\<close>

definition child :: "(u64 \<Rightarrow> u64) \<Rightarrow> u64 \<Rightarrow> u16 \<Rightarrow> u64 option" where
  "child q t i = (if q (slot t i) AND PAGE_PRESENT = 0 then None else Some (q (slot t i) AND 0x000FFFFFFFFFF000))"

fun table_of :: "(u64 \<Rightarrow> u64) \<Rightarrow> u64 \<Rightarrow> u16 list \<Rightarrow> u64 option" where
  "table_of q t [] = Some t"
| "table_of q t (i # is) = (case child q t i of None \<Rightarrow> None | Some u \<Rightarrow> table_of q u is)"

definition table_path :: "u16 list \<Rightarrow> bool" where
  "table_path p \<longleftrightarrow> length p \<le> 2 \<and> (\<forall>i \<in> set p. i < 512)"

type_synonym page = "u16 \<times> u16 \<times> u16"

definition page_of :: "u64 \<Rightarrow> page" where
  "page_of virt_addr = (pml4_index virt_addr, pdpt_index virt_addr, pd_index virt_addr)"

definition page_entry :: "(u64 \<Rightarrow> u64) \<Rightarrow> u64 \<Rightarrow> page \<Rightarrow> u64 option" where
  "page_entry q root = (\<lambda>(i, j, k). case table_of q root [i, j] of None \<Rightarrow> None
     | Some pd \<Rightarrow> if q (slot pd k) AND PAGE_PRESENT = 0 then None else Some (q (slot pd k)))"

definition page_map :: "vm_state \<Rightarrow> page \<Rightarrow> u64 option" where
  "page_map s = (\<lambda>(i, j, k). if i < 512 \<and> j < 512 \<and> k < 512
     then page_entry (tables s) (pml4_table s) (i, j, k) else None)"

definition tree_inv :: "(u64 \<Rightarrow> u64) \<Rightarrow> u64 \<Rightarrow> u64 set \<Rightarrow> bool" where
  "tree_inv q root used \<longleftrightarrow>
     (\<forall>p t. table_path p \<longrightarrow> table_of q root p = Some t \<longrightarrow> t \<in> used) \<and>
     (\<forall>p p' t. table_path p \<longrightarrow> table_path p' \<longrightarrow> table_of q root p = Some t \<longrightarrow> table_of q root p' = Some t \<longrightarrow> p = p')"

definition vm_inv :: "vm_state \<Rightarrow> bool" where
  "vm_inv s \<longleftrightarrow> pmm_inv (pmm s) \<and> 0 \<in> frames_in_use (pmm s) \<and>
     tree_inv (tables s) (pml4_table s) (frames_in_use (pmm s))"

section \<open>Addresses of entries\<close>

lemma frames_in_use_aligned:
  assumes "pmm_inv s" "a \<in> frames_in_use s"
  shows "4096 dvd unat a" "unat a + 4096 \<le> 0x40000000"
proof -
  obtain f where f: "f \<in> used_set s" "a = of_nat (f * 4096)" using assms(2) by (auto simp: frames_in_use_def)
  then have "f < 262144" using pmm_inv_total [OF assms(1)] by (auto simp: used_set_def)
  moreover from this have "unat a = f * 4096" unfolding f(2) by (simp only: unat_of_nat) simp
  ultimately show "4096 dvd unat a" "unat a + 4096 \<le> 0x40000000" by simp_all
qed

lemma unat_slot:
  assumes "unat t + 4096 \<le> 0x40000000" "i < 512"
  shows "unat (slot t i) = unat t + 8 * unat i" "unat i < 512"
proof -
  show i: "unat i < 512" using assms(2) by (simp add: word_less_nat_alt)
  then have "unat (8 * ucast i :: u64) = 8 * unat i"
    by (simp add: unat_word_ariths unsigned_ucast_eq take_bit_eq_mod)
  then show "unat (slot t i) = unat t + 8 * unat i" using assms(1) i by (simp add: slot_def unat_word_ariths)
qed

lemma slot_inj:
  assumes "4096 dvd unat t" "4096 dvd unat u" "unat t + 4096 \<le> 0x40000000" "unat u + 4096 \<le> 0x40000000"
    and "i < 512" "j < 512" "slot t i = slot u j"
  shows "t = u \<and> i = j"
proof -
  have e: "unat t + 8 * unat i = unat u + 8 * unat j" "unat i < 512" "unat j < 512"
    using assms unat_slot by metis+
  obtain a b where "unat t = 4096 * a" "unat u = 4096 * b" using assms(1,2) by (auto elim!: dvdE)
  moreover from this have "a = b" using e by linarith
  ultimately show ?thesis using e by (simp add: word_unat_eq_iff)
qed

lemma slot_in_page:
  assumes "4096 dvd unat t" "4096 dvd unat f" "unat t + 4096 \<le> 0x40000000" "unat f + 4096 \<le> 0x40000000" "i < 512"
  shows "f \<le> slot t i \<and> slot t i < f + 4096 \<longleftrightarrow> t = f"
proof -
  note s = unat_slot [OF assms(3,5)]
  have f: "unat (f + 4096) = unat f + 4096" using assms(4) by (simp add: unat_word_ariths)
  obtain a b where ab: "unat t = 4096 * a" "unat f = 4096 * b" using assms(1,2) by (auto elim!: dvdE)
  have "f \<le> slot t i \<and> slot t i < f + 4096 \<longleftrightarrow> 4096 * b \<le> 4096 * a + 8 * unat i \<and> 4096 * a + 8 * unat i < 4096 * b + 4096"
    by (simp add: word_le_nat_alt word_less_nat_alt s f ab)
  also have "\<dots> \<longleftrightarrow> a = b" using s(2) by auto
  also have "\<dots> \<longleftrightarrow> t = f" using ab by (auto simp: word_unat_eq_iff)
  finally show ?thesis .
qed

section \<open>Building tables\<close>

lemma table_of_snoc:
  "table_of q t (p @ [i]) = (case table_of q t p of None \<Rightarrow> None | Some u \<Rightarrow> child q u i)"
  by (induction p arbitrary: t) (auto split: option.split)

lemma table_path_snoc: "table_path (p @ [i]) \<longleftrightarrow> table_path p \<and> length p \<le> 1 \<and> i < 512"
  by (auto simp: table_path_def)

lemma table_path_Nil [simp]: "table_path []"
  by (simp add: table_path_def)

lemma frame_bits:
  fixes f :: u64
  assumes "4096 dvd unat f" "unat f + 4096 \<le> 0x40000000" "bit f n"
  shows "12 \<le> n \<and> n < 30"
proof -
  have b: "bit (unat f) n" using assms(3) by (simp add: bit_unsigned_iff)
  obtain a where "unat f = push_bit 12 a" using assms(1) by (auto elim!: dvdE simp: push_bit_eq_mult)
  then have "12 \<le> n" using b by (simp add: bit_push_bit_iff_nat)
  moreover have "take_bit 30 (unat f) = unat f" using assms(2) by (simp add: take_bit_nat_eq_self_iff)
  then have "n < 30" using b by (metis bit_take_bit_iff)
  ultimately show ?thesis ..
qed

lemma table_mask_bit: "bit (0x000FFFFFFFFFF000 :: u64) n \<longleftrightarrow> 12 \<le> n \<and> n < 52"
proof -
  have "(0x000FFFFFFFFFF000 :: u64) = push_bit 12 (mask 40)" by (simp add: mask_eq_exp_minus_1)
  then show ?thesis by (simp only: bit_push_bit_iff bit_mask_iff) auto
qed

lemma bit_pow_u64: "k < 64 \<Longrightarrow> bit (2 ^ k :: u64) n \<longleftrightarrow> n = k"
  by (auto simp: bit_exp_iff)

lemma bit_2_u64: "bit (2 :: u64) n \<longleftrightarrow> n = 1"
  using bit_pow_u64 [of 1 n] by simp

lemma fresh_frame_bits:
  fixes f :: u64
  assumes "4096 dvd unat f" "unat f + 4096 \<le> 0x40000000"
  shows "(f OR PAGE_PRESENT OR PAGE_WRITABLE) AND PAGE_PRESENT \<noteq> 0"
    and "(f OR PAGE_PRESENT OR PAGE_WRITABLE) AND 0x000FFFFFFFFFF000 = f"
proof -
  have "bit ((f OR PAGE_PRESENT OR PAGE_WRITABLE) AND PAGE_PRESENT) 0" by (simp add: bit_and_iff bit_or_iff)
  then show "(f OR PAGE_PRESENT OR PAGE_WRITABLE) AND PAGE_PRESENT \<noteq> 0" by (metis bit_0_eq bot_apply bot_bool_def)
  show "(f OR PAGE_PRESENT OR PAGE_WRITABLE) AND 0x000FFFFFFFFFF000 = f"
    using frame_bits [OF assms]
    by (intro bit_eqI) (simp only: bit_and_iff bit_or_iff table_mask_bit bit_1_iff bit_2_u64, fastforce)
qed

lemma child_frame:
  assumes "q (slot t i) = q' (slot t i)"
  shows "child q t i = child q' t i"
  using assms by (simp add: child_def)

text \<open>
  A table added: \<open>f\<close> is a zeroed frame that was not in use, and entry \<open>i\<close> of the table at path \<open>p\<close>
  points to it. The other paths lead where they led.
\<close>

definition table_added ::
    "(u64 \<Rightarrow> u64) \<Rightarrow> (u64 \<Rightarrow> u64) \<Rightarrow> u64 \<Rightarrow> u64 \<Rightarrow> u64 \<Rightarrow> u64 set \<Rightarrow> u16 list \<Rightarrow> u16 \<Rightarrow> bool" where
  "table_added q q' root parent f used p i \<longleftrightarrow> tree_inv q root used \<and>
     (\<forall>t \<in> insert f used. 4096 dvd unat t \<and> unat t + 4096 \<le> 0x40000000) \<and>
     table_path (p @ [i]) \<and> table_of q root p = Some parent \<and> child q parent i = None \<and> f \<notin> used \<and>
     q' = (\<lambda>a. if f \<le> a \<and> a < f + 4096 then 0 else q a)(slot parent i := f OR PAGE_PRESENT OR PAGE_WRITABLE)"

lemma table_addedD:
  assumes "table_added q q' root parent f used p i"
  shows "tree_inv q root used" "t \<in> insert f used \<Longrightarrow> 4096 dvd unat t \<and> unat t + 4096 \<le> 0x40000000"
    "table_path (p @ [i])" "table_of q root p = Some parent" "child q parent i = None" "f \<notin> used"
    "q' = (\<lambda>a. if f \<le> a \<and> a < f + 4096 then 0 else q a)(slot parent i := f OR PAGE_PRESENT OR PAGE_WRITABLE)"
    "parent \<in> used" "table_path p" "i < 512"
  using assms by (auto simp: table_added_def tree_inv_def table_path_snoc)

lemma new_entries:
  assumes a: "table_added q q' root parent f used p i" and t: "t \<in> insert f used" "j < 512"
  shows "q' (slot t j) = (if t = parent \<and> j = i then f OR PAGE_PRESENT OR PAGE_WRITABLE
    else if t = f then 0 else q (slot t j))"
proof -
  note tree = table_addedD(1) [OF a] and frames = table_addedD(2) [OF a] and path = table_addedD(3-5) [OF a]
    and fresh = table_addedD(6) [OF a] and written = table_addedD(7) [OF a]
    and parent_used = table_addedD(8-10) [OF a]
  have "slot t j = slot parent i \<longleftrightarrow> t = parent \<and> j = i"
    using slot_inj [of t parent j i] frames [OF t(1)] frames [of parent] parent_used t(2) by blast
  moreover have "f \<le> slot t j \<and> slot t j < f + 4096 \<longleftrightarrow> t = f"
    using slot_in_page [of t f j] frames [OF t(1)] frames [of f] t(2) by blast
  ultimately show ?thesis by (auto simp: written)
qed

lemma new_child:
  assumes a: "table_added q q' root parent f used p i" and t: "t \<in> insert f used" "j < 512"
  shows "child q' t j = (if t = parent \<and> j = i then Some f else if t = f then None else child q t j)"
proof -
  note frames = table_addedD(2) [OF a]
  obtain e where e: "e = f OR PAGE_PRESENT OR PAGE_WRITABLE" by blast
  have "e AND PAGE_PRESENT \<noteq> 0" "e AND 0x000FFFFFFFFFF000 = f"
    unfolding e using fresh_frame_bits frames [of f] by blast+
  then show ?thesis unfolding child_def new_entries [OF a t] e [symmetric] by simp
qed

lemma new_table_of:
  assumes a: "table_added q q' root parent f used p i"
  shows "table_path p' \<Longrightarrow> table_of q' root p' = (if p' = p @ [i] then Some f else table_of q root p')"
proof (induction p' rule: rev_induct)
  case (snoc j p')
  note tree = table_addedD(1) [OF a] and frames = table_addedD(2) [OF a] and path = table_addedD(3-5) [OF a]
    and fresh = table_addedD(6) [OF a] and written = table_addedD(7) [OF a]
    and parent_used = table_addedD(8-10) [OF a]
  have p': "table_path p'" "length p' \<le> 1" "j < 512" using snoc.prems by (auto simp: table_path_snoc)
  note ih = snoc.IH [OF p'(1)]
  show ?case
  proof (cases "p' = p @ [i]")
    case True
    then have "table_of q' root p' = Some f" using ih by simp
    moreover have "f \<noteq> parent" using fresh parent_used by blast
    ultimately have "table_of q' root (p' @ [j]) = None" using new_child [OF a, of f j] p'(3) by (simp add: table_of_snoc)
    moreover have "table_of q root p' = None" using True path by (simp add: table_of_snoc)
    then have "table_of q root (p' @ [j]) = None" by (simp add: table_of_snoc)
    ultimately show ?thesis using True by simp
  next
    case False
    show ?thesis
    proof (cases "table_of q root p'")
      case None
      then show ?thesis using False ih path(2) by (auto simp: table_of_snoc)
    next
      case (Some t)
      then have t: "t \<in> used" "t \<noteq> f" using tree p' fresh by (auto simp: tree_inv_def)
      have "t = parent \<longleftrightarrow> p' = p" using tree Some path(2) p'(1) parent_used(2) by (auto simp: tree_inv_def)
      then show ?thesis
        using Some False ih new_child [OF a, of t j] t p'(3) by (auto simp: table_of_snoc)
    qed
  qed
qed simp

lemma new_tree:
  assumes a: "table_added q q' root parent f used p i"
  shows "tree_inv q' root (insert f used)"
proof -
  note tree = table_addedD(1) [OF a] and fresh = table_addedD(6) [OF a]
  have "table_of q root p' \<noteq> Some f" if "table_path p'" for p'
    using tree that fresh by (auto simp: tree_inv_def)
  then show ?thesis
    using tree new_table_of [OF a] unfolding tree_inv_def by (metis insert_iff option.inject)
qed

lemma new_page:
  assumes ad: "table_added q q' root parent f used p i" and "table_path [a, b]" "k < 512"
  shows "page_entry q' root (a, b, k) = page_entry q root (a, b, k)"
proof (cases "[a, b] = p @ [i]")
  case True
  note tree = table_addedD(1) [OF ad] and frames = table_addedD(2) [OF ad] and path = table_addedD(3-5) [OF ad]
    and fresh = table_addedD(6) [OF ad] and written = table_addedD(7) [OF ad]
    and parent_used = table_addedD(8-10) [OF ad]
  have "f \<noteq> parent" using fresh parent_used by blast
  moreover have "table_of q root (p @ [i]) = None" using path by (simp add: table_of_snoc)
  ultimately show ?thesis
    unfolding page_entry_def prod.case True using new_table_of [OF ad path(1)] new_entries [OF ad, of f k] assms(3) by simp
next
  case False
  note tree = table_addedD(1) [OF ad] and frames = table_addedD(2) [OF ad] and path = table_addedD(3-5) [OF ad]
    and fresh = table_addedD(6) [OF ad] and written = table_addedD(7) [OF ad]
    and parent_used = table_addedD(8-10) [OF ad]
  from False have e: "table_of q' root [a, b] = table_of q root [a, b]" using new_table_of [OF ad assms(2)] by metis
  show ?thesis
  proof (cases "table_of q root [a, b]")
    case None
    then show ?thesis unfolding page_entry_def prod.case e by simp
  next
    case (Some pd)
    then have pd: "pd \<in> used" "pd \<noteq> f" using tree assms(2) fresh by (auto simp: tree_inv_def)
    have "pd \<noteq> parent"
    proof
      assume "pd = parent"
      then have "[a, b] = p" using tree Some assms(2) path(2) parent_used(2) unfolding tree_inv_def by blast
      then show False using path(1) by (auto simp: table_path_def)
    qed
    then show ?thesis unfolding page_entry_def prod.case e using Some new_entries [OF ad, of pd k] pd assms(3) by simp
  qed
qed


lemma alloc_low_fresh:
  assumes "pmm_inv s" "0 \<in> frames_in_use s" "pmm_alloc_frame_low limit s = (f, s')"
  shows "pmm_inv s'" "f = 0 \<Longrightarrow> s' = s"
    and "f \<noteq> 0 \<Longrightarrow> f \<notin> frames_in_use s \<and> frames_in_use s' = insert f (frames_in_use s)"
proof -
  let ?k = "if limit div FRAME_SIZE > total_frames s then total_frames s else limit div FRAME_SIZE"
  have a: "alloc_below ?k s = (f, s')" using assms(3) by (simp add: pmm_alloc_frame_low_def Let_def)
  note fr = alloc_below_frames [OF assms(1) low_limit, of "limit div FRAME_SIZE"]
  show "pmm_inv s'" "f \<noteq> 0 \<Longrightarrow> f \<notin> frames_in_use s \<and> frames_in_use s' = insert f (frames_in_use s)"
    using fr a by simp_all
  show "f = 0 \<Longrightarrow> s' = s" using alloc_below_zero [OF assms(1,2) low_limit, of "limit div FRAME_SIZE"] a by simp
qed

lemma ensure_table_spec:
  assumes "vm_inv s" "table_of (tables s) (pml4_table s) p = Some parent" "table_path (p @ [i])"
    and r: "ensure_table parent i s = (c, s')"
  shows "vm_inv s' \<and> pml4_table s' = pml4_table s \<and> invlpg_log s' = invlpg_log s \<and> page_map s' = page_map s \<and>
    (case c of None \<Rightarrow> s' = s \<and> fst (pmm_alloc_frame_low IDENTITY_WINDOW_LIMIT (pmm s)) = 0
     | Some t \<Rightarrow> table_of (tables s') (pml4_table s') (p @ [i]) = Some t)"
proof (cases "tables s (slot parent i) AND PAGE_PRESENT = 0")
  case False
  then have "s' = s" "c = child (tables s) parent i"
    using r by (auto simp: ensure_table_def child_def phys_to_virt_def)
  moreover have "child (tables s) parent i \<noteq> None" using False by (simp add: child_def)
  ultimately show ?thesis using assms by (auto simp: table_of_snoc)
next
  case True
  obtain f m where f: "pmm_alloc_frame_low IDENTITY_WINDOW_LIMIT (pmm s) = (f, m)" by fastforce
  have inv: "pmm_inv (pmm s)" "0 \<in> frames_in_use (pmm s)"
    "tree_inv (tables s) (pml4_table s) (frames_in_use (pmm s))" using assms(1) by (auto simp: vm_inv_def)
  note al = alloc_low_fresh [OF inv(1,2) f]
  show ?thesis
  proof (cases "f = 0")
    case True
    then have "c = None" "s' = s" using r f al(2) \<open>tables s (slot parent i) AND PAGE_PRESENT = 0\<close>
      by (auto simp: ensure_table_def)
    then show ?thesis using assms(1) f True by simp
  next
    case False
    let ?q = "(\<lambda>a. if f \<le> a \<and> a < f + 4096 then 0 else tables s a)(slot parent i := f OR PAGE_PRESENT OR PAGE_WRITABLE)"
    have fr: "f \<notin> frames_in_use (pmm s)" "frames_in_use m = insert f (frames_in_use (pmm s))"
      using al(3) False by auto
    have "4096 dvd unat t \<and> unat t + 4096 \<le> 0x40000000" if "t \<in> insert f (frames_in_use (pmm s))" for t
      using frames_in_use_aligned [OF al(1), of t] that fr(2) by simp
    moreover have "child (tables s) parent i = None"
      using \<open>tables s (slot parent i) AND PAGE_PRESENT = 0\<close> by (simp add: child_def)
    ultimately have ta: "table_added (tables s) ?q (pml4_table s) parent f (frames_in_use (pmm s)) p i"
      using assms(2,3) inv(3) fr(1) unfolding table_added_def by blast
    have t: "tables s' = ?q" "pmm s' = m" "pml4_table s' = pml4_table s" "invlpg_log s' = invlpg_log s"
      and c: "c = Some (?q (slot parent i) AND 0x000FFFFFFFFFF000)"
      using r f False \<open>tables s (slot parent i) AND PAGE_PRESENT = 0\<close>
      by (auto simp: ensure_table_def memset_page_def phys_to_virt_def Let_def)
    have "c = Some f" using c fresh_frame_bits [of f] table_addedD(2) [OF ta, of f] by simp
    moreover have "page_map s' = page_map s"
      unfolding page_map_def t(1,3) using new_page [OF ta] by (auto simp: table_path_def fun_eq_iff)
    ultimately show ?thesis
      using new_tree [OF ta] new_table_of [OF ta assms(3)] al(1) inv(2) fr(2) t
      by (simp add: vm_inv_def)
  qed
qed

section \<open>Mapping a page\<close>

lemma index_bounds: "pml4_index v < 512" "pdpt_index v < 512" "pd_index v < 512"
proof -
  have "ucast (w AND 0x1FF :: u64) < (512 :: u16)" for w :: u64
  proof -
    have "0x1FF AND w < 512" by (rule word_and_less) simp
    then have "unat (w AND 0x1FF) < 512" by (simp add: and.commute word_less_nat_alt)
    then show ?thesis by (simp add: word_less_nat_alt unsigned_ucast_eq take_bit_eq_mod)
  qed
  then show "pml4_index v < 512" "pdpt_index v < 512" "pd_index v < 512"
    by (simp_all add: pml4_index_def pdpt_index_def pd_index_def)
qed

lemma entry_set:
  assumes "tree_inv q root used" "\<forall>t \<in> used. 4096 dvd unat t \<and> unat t + 4096 \<le> 0x40000000"
    and "table_of q root [i, j] = Some pd" "i < 512" "j < 512" "k < 512" "e AND PAGE_PRESENT \<noteq> 0"
    and q': "q' = q(slot pd k := e)"
  shows "tree_inv q' root used"
    and "a < 512 \<Longrightarrow> b < 512 \<Longrightarrow> c < 512 \<Longrightarrow>
      page_entry q' root (a, b, c) = (if (a, b, c) = (i, j, k) then Some e else page_entry q root (a, b, c))"
proof -
  have path: "table_path [i, j]" using assms(4,5) by (simp add: table_path_def)
  have pd: "pd \<in> used" using assms(1,3) path unfolding tree_inv_def by blast
  have other: "q' (slot t x) = (if t = pd \<and> x = k then e else q (slot t x))" if "t \<in> used" "x < 512" for t x
    using slot_inj [of t pd x k] assms(2,6) pd that by (auto simp: q')
  have tab: "table_of q' root p = table_of q root p" if "table_path p" for p
    using that
  proof (induction p rule: rev_induct)
    case (snoc x p)
    have p: "table_path p" "length p \<le> 1" "x < 512" using snoc.prems by (auto simp: table_path_snoc)
    show ?case
    proof (cases "table_of q root p")
      case None
      then show ?thesis using snoc.IH [OF p(1)] by (simp add: table_of_snoc)
    next
      case (Some t)
      then have t: "t \<in> used" "t = pd \<Longrightarrow> p = [i, j]"
        using assms(1,3) p(1) path unfolding tree_inv_def by blast+
      then have "t \<noteq> pd" using p(2) by auto
      then have "q' (slot t x) = q (slot t x)" using other [OF t(1) p(3)] by simp
      then show ?thesis using Some snoc.IH [OF p(1)] child_frame [of q' t x q] by (simp add: table_of_snoc)
    qed
  qed simp
  then show "tree_inv q' root used" using assms(1) unfolding tree_inv_def by metis
  assume abc: "a < 512" "b < 512" "c < 512"
  have ab: "table_path [a, b]" using abc by (simp add: table_path_def)
  show "page_entry q' root (a, b, c) = (if (a, b, c) = (i, j, k) then Some e else page_entry q root (a, b, c))"
  proof (cases "table_of q root [a, b]")
    case None
    then show ?thesis using tab [OF ab] assms(3) unfolding page_entry_def prod.case by auto
  next
    case (Some t)
    then have t: "t \<in> used" "t = pd \<longleftrightarrow> [a, b] = [i, j]"
      using assms(1,3) ab path unfolding tree_inv_def by (blast, metis option.inject)
    then show ?thesis
      using Some tab [OF ab] other [OF t(1) abc(3)] assms(7) unfolding page_entry_def prod.case by auto
  qed
qed

definition page_bits :: "u64 \<Rightarrow> u64 \<Rightarrow> u64" where
  "page_bits phys_addr flags = (phys_addr AND 0x000FFFFFFFE00000) OR entry_flags flags"

lemma entry_flags_present: "bit (entry_flags flags) 0"
  by (simp add: entry_flags_def Let_def bit_or_iff)

lemma page_bits_present: "page_bits phys_addr flags AND PAGE_PRESENT \<noteq> 0"
proof -
  have "bit (page_bits phys_addr flags AND PAGE_PRESENT) 0"
    using entry_flags_present by (simp add: page_bits_def bit_and_iff bit_or_iff)
  then show ?thesis by (metis bit_0_eq bot_apply bot_bool_def)
qed

lemma map_2m_spec:
  assumes "vm_inv s" "virt_addr AND 0x1FFFFF = 0" "phys_addr AND 0x1FFFFF = 0"
    and r: "vmm_map_2m virt_addr phys_addr flags s = (ok, s')"
  shows "vm_inv s' \<and> pml4_table s' = pml4_table s \<and>
    (if ok then page_map s' = (page_map s)(page_of virt_addr \<mapsto> page_bits phys_addr flags) \<and>
        invlpg_log s' = virt_addr # invlpg_log s
     else page_map s' = page_map s \<and> invlpg_log s' = invlpg_log s \<and>
        fst (pmm_alloc_frame_low IDENTITY_WINDOW_LIMIT (pmm s')) = 0)"
proof -
  let ?i = "pml4_index virt_addr" and ?j = "pdpt_index virt_addr" and ?k = "pd_index virt_addr"
  note ib = index_bounds [of virt_addr]
  obtain c1 s1 where e1: "ensure_table (pml4_table s) ?i s = (c1, s1)" by fastforce
  have p1: "table_path ([] @ [?i])" "table_path ([?i] @ [?j])" using ib by (simp_all add: table_path_def)
  note sp1 = ensure_table_spec [OF assms(1) _ p1(1) e1]
  show ?thesis
  proof (cases c1)
    case None
    then show ?thesis using sp1 r e1 assms(2,3) by (auto simp: vmm_map_2m_def)
  next
    case (Some pdpt)
    have s1: "vm_inv s1" "pml4_table s1 = pml4_table s" "page_map s1 = page_map s" "invlpg_log s1 = invlpg_log s"
      "table_of (tables s1) (pml4_table s1) [?i] = Some pdpt" using sp1 Some by auto
    obtain c2 s2 where e2: "ensure_table pdpt ?j s1 = (c2, s2)" by fastforce
    note sp2 = ensure_table_spec [OF s1(1,5) p1(2) e2]
    show ?thesis
    proof (cases c2)
      case None
      then show ?thesis using sp2 r e1 e2 Some s1 assms(2,3) by (auto simp: vmm_map_2m_def)
    next
      case (Some pd)
      have s2: "vm_inv s2" "pml4_table s2 = pml4_table s" "page_map s2 = page_map s" "invlpg_log s2 = invlpg_log s"
        and t2: "table_of (tables s2) (pml4_table s2) [?i, ?j] = Some pd" using sp2 Some s1 by auto
      let ?e = "page_bits phys_addr flags"
      have s': "ok" "tables s' = (tables s2)(slot pd ?k := ?e)" "pmm s' = pmm s2" "pml4_table s' = pml4_table s2"
        "invlpg_log s' = virt_addr # invlpg_log s2"
        using r e1 e2 \<open>c1 = Some pdpt\<close> Some assms(2,3) by (auto simp: vmm_map_2m_def page_bits_def)
      have inv: "pmm_inv (pmm s2)" "tree_inv (tables s2) (pml4_table s2) (frames_in_use (pmm s2))"
        using s2(1) by (simp_all add: vm_inv_def)
      have al: "\<forall>t \<in> frames_in_use (pmm s2). 4096 dvd unat t \<and> unat t + 4096 \<le> 0x40000000"
        using frames_in_use_aligned [OF inv(1)] by blast
      note es = entry_set [OF inv(2) al t2 ib page_bits_present s'(2)]
      have "page_map s' = (page_map s2)(page_of virt_addr \<mapsto> ?e)"
        using es(2) ib by (auto simp: page_map_def s'(4) fun_eq_iff page_of_def)
      then show ?thesis using s' s2 es(1) by (simp add: vm_inv_def)
    qed
  qed
qed

section \<open>Translation\<close>

text \<open>The physical address of a virtual one: the page the entry names and the offset in it.\<close>

definition translate :: "vm_state \<Rightarrow> u64 \<Rightarrow> u64 option" where
  "translate s a = (case page_map s (page_of a) of None \<Rightarrow> None
     | Some e \<Rightarrow> Some ((e AND 0x000FFFFFFFE00000) + (a AND 0x1FFFFF)))"

lemma unat_index:
  "unat (pml4_index a) = unat a div 2 ^ 39 mod 512" "unat (pdpt_index a) = unat a div 2 ^ 30 mod 512"
  "unat (pd_index a) = unat a div 2 ^ 21 mod 512"
proof -
  have m: "(0x1FF :: u64) = mask 9" by (simp add: mask_eq_exp_minus_1)
  have "unat (ucast (drop_bit n a AND 0x1FF) :: u16) = unat a div 2 ^ n mod 512" for n
  proof -
    have "unat (drop_bit n a AND 0x1FF) = unat a div 2 ^ n mod 512"
      unfolding m take_bit_eq_mask [symmetric]
      by (simp only: unsigned_take_bit_eq unat_drop_bit_eq) (simp add: take_bit_eq_mod drop_bit_eq_div)
    then show ?thesis by (simp add: unsigned_ucast_eq take_bit_eq_mod)
  qed
  then show "unat (pml4_index a) = unat a div 2 ^ 39 mod 512" "unat (pdpt_index a) = unat a div 2 ^ 30 mod 512"
    "unat (pd_index a) = unat a div 2 ^ 21 mod 512"
    unfolding pml4_index_def pdpt_index_def pd_index_def by blast+
qed

lemma page_number:
  assumes "unat a < 2 ^ 48"
  shows "unat a div 2 ^ 21 = unat (pd_index a) + 512 * (unat (pdpt_index a) + 512 * unat (pml4_index a))"
proof -
  have "unat a div 2 ^ 39 < 512" using assms by (simp add: div_less_iff_less_mult)
  moreover have "unat a div 2 ^ 30 = unat a div 2 ^ 21 div 512" "unat a div 2 ^ 39 = unat a div 2 ^ 21 div 512 div 512"
    by (simp_all add: div_mult2_eq [symmetric])
  moreover have "n = n mod 512 + 512 * (n div 512 mod 512 + 512 * (n div 512 div 512))" for n :: nat
    by (metis add.commute mult_div_mod_eq)
  ultimately show ?thesis unfolding unat_index by simp
qed

lemma page_of_inj:
  assumes "unat a < 2 ^ 48" "unat b < 2 ^ 48"
  shows "page_of a = page_of b \<longleftrightarrow> unat a div 2 ^ 21 = unat b div 2 ^ 21"
proof
  assume "page_of a = page_of b"
  then show "unat a div 2 ^ 21 = unat b div 2 ^ 21" unfolding page_number [OF assms(1)] page_number [OF assms(2)]
    by (simp add: page_of_def)
next
  assume e: "unat a div 2 ^ 21 = unat b div 2 ^ 21"
  then have "unat a div 2 ^ 21 div 512 = unat b div 2 ^ 21 div 512"
    "unat a div 2 ^ 21 div 262144 = unat b div 2 ^ 21 div 262144" by simp_all
  then have "unat a div 2 ^ 30 = unat b div 2 ^ 30" "unat a div 2 ^ 39 = unat b div 2 ^ 39"
    by (simp_all add: div_mult2_eq [symmetric])
  then show "page_of a = page_of b" using e by (simp add: page_of_def word_unat_eq_iff unat_index)
qed

lemma huge_mask_bit: "bit (0x000FFFFFFFE00000 :: u64) n \<longleftrightarrow> 21 \<le> n \<and> n < 52"
proof -
  have "(0x000FFFFFFFE00000 :: u64) = push_bit 21 (mask 31)" by (simp add: mask_eq_exp_minus_1)
  then show ?thesis by (simp only: bit_push_bit_iff bit_mask_iff) auto
qed

lemma entry_flags_bit: "bit (entry_flags flags) n \<longleftrightarrow> n = 0 \<or> n = 7 \<or> n \<in> {1, 2, 63} \<and> bit flags n"
proof -
  have p: "(w AND 2 ^ k :: u64) \<noteq> 0 \<longleftrightarrow> bit w k" for w :: u64 and k by (simp add: and_exp_eq_0_iff_not_bit)
  have c: "bit (1 :: u64) n \<longleftrightarrow> n = 0" "bit (2 :: u64) n \<longleftrightarrow> n = 1" "bit (4 :: u64) n \<longleftrightarrow> n = 2"
    "bit (0x80 :: u64) n \<longleftrightarrow> n = 7" "bit (0x8000000000000000 :: u64) n \<longleftrightarrow> n = 63"
    using bit_pow_u64 [of 0 n] bit_pow_u64 [of 1 n] bit_pow_u64 [of 2 n] bit_pow_u64 [of 7 n] bit_pow_u64 [of 63 n]
    by simp_all
  have t: "flags AND 2 \<noteq> 0 \<longleftrightarrow> bit flags 1" "flags AND 4 \<noteq> 0 \<longleftrightarrow> bit flags 2"
    "flags AND 0x8000000000000000 \<noteq> 0 \<longleftrightarrow> bit flags 63"
    using p [of flags 1] p [of flags 2] p [of flags 63] by simp_all
  have i: "bit (if P then a OR b else a) n \<longleftrightarrow> bit a n \<or> P \<and> bit b n" for P and a b :: u64
    by (simp add: bit_or_iff)
  have "bit (entry_flags flags) n \<longleftrightarrow> n = 0 \<or> n = 7 \<or> bit flags 1 \<and> n = 1 \<or> bit flags 2 \<and> n = 2 \<or> bit flags 63 \<and> n = 63"
    by (simp only: entry_flags_def Let_def i bit_or_iff c t) blast
  then show ?thesis by blast
qed

lemma page_bits_address:
  assumes "phys_addr AND 0x1FFFFF = 0" "unat phys_addr < 2 ^ 52"
  shows "page_bits phys_addr flags AND 0x000FFFFFFFE00000 = phys_addr"
proof (rule bit_eqI)
  fix n
  have m: "(0x1FFFFF :: u64) = mask 21" by (simp add: mask_eq_exp_minus_1)
  have lo: "21 \<le> n" if "bit phys_addr n"
  proof (rule ccontr)
    assume "\<not> 21 \<le> n"
    then have "bit (phys_addr AND 0x1FFFFF) n" using that unfolding m by (simp only: bit_and_iff bit_mask_iff) auto
    then show False using assms(1) by simp
  qed
  have hi: "n < 52" if "bit phys_addr n"
  proof -
    have "bit (unat phys_addr) n" using that by (simp add: bit_unsigned_iff)
    moreover have "take_bit 52 (unat phys_addr) = unat phys_addr" using assms(2) by (simp add: take_bit_nat_eq_self_iff)
    ultimately show ?thesis by (metis bit_take_bit_iff)
  qed
  show "bit (page_bits phys_addr flags AND 0x000FFFFFFFE00000) n \<longleftrightarrow> bit phys_addr n"
    using lo hi by (simp only: page_bits_def bit_and_iff bit_or_iff huge_mask_bit entry_flags_bit) auto
qed

section \<open>Properties\<close>

lemma alloc_low_exhausted:
  assumes "pmm_inv s" "0 \<in> frames_in_use s" "fst (pmm_alloc_frame_low IDENTITY_WINDOW_LIMIT s) = 0"
  shows "\<forall>f < unat (total_frames s). frame_used s f"
proof -
  have k: "(if IDENTITY_WINDOW_LIMIT div FRAME_SIZE > total_frames s then total_frames s
      else IDENTITY_WINDOW_LIMIT div FRAME_SIZE) = total_frames s"
    using pmm_inv_total [OF assms(1)] by (simp add: word_less_nat_alt word_unat_eq_iff)
  obtain a s' where r: "alloc_below (total_frames s) s = (a, s')" by fastforce
  have "a = 0" using assms(3) unfolding pmm_alloc_frame_low_def Let_def k r by simp
  moreover have "frame_used s 0" using frames_in_use_iff [OF assms(1), of 0] assms(2) by (simp add: used_set_def)
  ultimately show ?thesis using alloc_below_spec [OF assms(1) order_refl r] by auto
qed

text \<open>
  C4: \<^verbatim>\<open>vmm_map_2m\<close> implements a map from pages to entries: when it returns true, the map has the new
  entry for the page of \<^verbatim>\<open>virt_addr\<close>, with the physical address and exactly the permission bits asked
  for, and every other page is as before, although the call may have built tables; the translation
  buffer is flushed for the page. When it returns false no page has changed, and then either an
  address was not aligned or no frame was left for a table. The tables stay a tree of frames in use.
\<close>

theorem vmm_map_2m_refines:
  assumes "vm_inv s" "vmm_map_2m virt_addr phys_addr flags s = (ok, s')" "unat phys_addr < 2 ^ 52"
  shows "vm_inv s' \<and>
    (if ok then \<exists>e. page_map s' = (page_map s)(page_of virt_addr \<mapsto> e) \<and> e AND 0x000FFFFFFFE00000 = phys_addr \<and>
        (\<forall>n. n < 21 \<or> 52 \<le> n \<longrightarrow> bit e n \<longleftrightarrow> n = 0 \<or> n = 7 \<or> n \<in> {1, 2, 63} \<and> bit flags n) \<and>
        invlpg_log s' = virt_addr # invlpg_log s
     else page_map s' = page_map s \<and>
        (virt_addr AND 0x1FFFFF \<noteq> 0 \<or> phys_addr AND 0x1FFFFF \<noteq> 0 \<or>
         (\<forall>f < unat (total_frames (pmm s')). frame_used (pmm s') f)))"
proof (cases "virt_addr AND 0x1FFFFF \<noteq> 0 \<or> phys_addr AND 0x1FFFFF \<noteq> 0")
  case True
  then show ?thesis using assms(1,2) by (auto simp: vmm_map_2m_def)
next
  case False
  then have al: "virt_addr AND 0x1FFFFF = 0" "phys_addr AND 0x1FFFFF = 0" by simp_all
  note sp = map_2m_spec [OF assms(1) al assms(2)]
  have a: "page_bits phys_addr flags AND 0x000FFFFFFFE00000 = phys_addr"
    using page_bits_address [OF al(2) assms(3)] .
  have b: "\<forall>n. n < 21 \<or> 52 \<le> n \<longrightarrow>
      bit (page_bits phys_addr flags) n \<longleftrightarrow> n = 0 \<or> n = 7 \<or> n \<in> {1, 2, 63} \<and> bit flags n"
    by (simp only: page_bits_def bit_or_iff bit_and_iff huge_mask_bit entry_flags_bit) auto
  have "\<forall>f < unat (total_frames (pmm s')). frame_used (pmm s') f" if "\<not> ok"
    using alloc_low_exhausted [of "pmm s'"] sp that by (simp add: vm_inv_def)
  then show ?thesis using sp a b by (cases ok) auto
qed

text \<open>An empty top table in frame 1 of the sample allocator.\<close>

definition sample_vm :: vm_state where
  "sample_vm = \<lparr>pmm = sample_pmm, tables = (\<lambda>_. 0), pml4_table = 0x1000, invlpg_log = []\<rparr>"

lemma sample_vm_inv: "vm_inv sample_vm"
proof -
  have t: "table_of (\<lambda>_. 0) 0x1000 p = Some t \<longleftrightarrow> p = [] \<and> t = 0x1000" for p t
    by (cases p) (auto simp: child_def)
  have "frame_used sample_pmm 1" by (simp add: sample_pmm_facts)
  then have "0x1000 \<in> frames_in_use sample_pmm"
    using frames_in_use_iff [OF sample_pmm_facts(1), of 1] by (simp add: used_set_def sample_pmm_facts)
  then show ?thesis
    using sample_pmm_facts(1) sample_pmm_zero(2) by (auto simp: vm_inv_def tree_inv_def sample_vm_def t)
qed

theorem vmm_map_2m_refines_witness:
  "\<exists>ok s'. vmm_map_2m 0x40000000 0x40000000 2 sample_vm = (ok, s') \<and> vm_inv s' \<and>
    (ok \<or> (\<forall>f < unat (total_frames (pmm s')). frame_used (pmm s') f))"
proof -
  obtain ok s' where r: "vmm_map_2m 0x40000000 0x40000000 2 sample_vm = (ok, s')" by fastforce
  show ?thesis using vmm_map_2m_refines [OF sample_vm_inv r] r by (cases ok) auto
qed

end
