(* ===== verification/Video.thy ===== *)
theory Video
  imports Vmm Display
begin

unbundle bit_operations_syntax

text \<open>
  Framebuffer discovery and mapping, \<^verbatim>\<open>kernel/src/core/video.c\<close>: the framebuffer tag of the boot
  information, and the identity mapping of the framebuffer in 2 MiB pages. The walk over the tags
  differs from the one of the frame allocator in that it stops at a tag that is too small.
\<close>

section \<open>Operations\<close>

abbreviation (input) HUGE_PAGE_SIZE :: u64 where "HUGE_PAGE_SIZE \<equiv> 0x200000"
abbreviation (input) FRAMEBUFFER_MAP_MAX_BYTES :: u64 where "FRAMEBUFFER_MAP_MAX_BYTES \<equiv> 0x10000000"
abbreviation (input) MULTIBOOT_FRAMEBUFFER_TYPE_RGB :: u8 where "MULTIBOOT_FRAMEBUFFER_TYPE_RGB \<equiv> 1"
abbreviation (input) SIZEOF_TAG :: u32 where "SIZEOF_TAG \<equiv> 8"
abbreviation (input) SIZEOF_TAG_FRAMEBUFFER :: u32 where "SIZEOF_TAG_FRAMEBUFFER \<equiv> 32"
abbreviation (input) SIZEOF_TAG_FRAMEBUFFER_RGB :: u32 where "SIZEOF_TAG_FRAMEBUFFER_RGB \<equiv> 38"

record video_state =
  vmem :: vm_state
  g_fb :: video_framebuffer_info

definition align_down_2m :: "u64 \<Rightarrow> u64" where
  "align_down_2m value = value AND NOT (HUGE_PAGE_SIZE - 1)"

definition align_up_2m :: "u64 \<Rightarrow> u64" where
  "align_up_2m value = (value + HUGE_PAGE_SIZE - 1) AND NOT (HUGE_PAGE_SIZE - 1)"

definition fb_zero :: video_framebuffer_info where
  "fb_zero = \<lparr>fb_present = False, fb_mapped = False, fb_phys_addr = 0, fb_size_bytes = 0, fb_info_width = 0,
     fb_info_height = 0, fb_info_pitch = 0, fb_bpp = 0, fb_type = 0, fb_red_pos = 0, fb_red_size = 0,
     fb_green_pos = 0, fb_green_size = 0, fb_blue_pos = 0, fb_blue_size = 0\<rparr>"

text \<open>The fields a framebuffer tag sets; the colour layout only for an RGB tag that holds it.\<close>

definition fb_from_tag :: "memory \<Rightarrow> u64 \<Rightarrow> video_framebuffer_info \<Rightarrow> video_framebuffer_info" where
  "fb_from_tag m tag g =
     (let g1 = g\<lparr>fb_present := True, fb_mapped := False, fb_phys_addr := read64 m (tag + 8),
                 fb_info_width := read32 m (tag + 20), fb_info_height := read32 m (tag + 24),
                 fb_info_pitch := read32 m (tag + 16), fb_bpp := m (tag + 28), fb_type := m (tag + 29),
                 fb_size_bytes := ucast (read32 m (tag + 16)) * ucast (read32 m (tag + 24))\<rparr>
      in if m (tag + 29) = MULTIBOOT_FRAMEBUFFER_TYPE_RGB \<and> tag_size m tag \<ge> SIZEOF_TAG_FRAMEBUFFER_RGB
         then g1\<lparr>fb_red_pos := m (tag + 32), fb_red_size := m (tag + 33), fb_green_pos := m (tag + 34),
                 fb_green_size := m (tag + 35), fb_blue_pos := m (tag + 36), fb_blue_size := m (tag + 37)\<rparr>
         else g1)"

partial_function (option) probe_tags ::
    "memory \<Rightarrow> u64 \<Rightarrow> u64 \<Rightarrow> video_framebuffer_info \<Rightarrow> video_framebuffer_info option" where
  "probe_tags m info_end tag g =
     (if tag < info_end \<and> tag_type m tag \<noteq> MULTIBOOT_TAG_TYPE_END
      then if tag_size m tag < SIZEOF_TAG then Some g
           else if tag_type m tag = MULTIBOOT_TAG_TYPE_FRAMEBUFFER
           then if tag_size m tag < SIZEOF_TAG_FRAMEBUFFER then Some g
                else probe_tags m info_end (tag_next m tag) (fb_from_tag m tag g)
           else probe_tags m info_end (tag_next m tag) g
      else Some g)"

declare probe_tags.simps [code]

definition video_probe_multiboot :: "memory \<Rightarrow> u32 \<Rightarrow> video_state \<Rightarrow> video_state option" where
  "video_probe_multiboot m multiboot_info_addr s =
     (let mb = ucast multiboot_info_addr; mb_total_size = read32 m mb
      in if multiboot_info_addr = 0 \<or> mb_total_size < 16 then Some (s\<lparr>g_fb := fb_zero\<rparr>)
         else map_option (\<lambda>g. s\<lparr>g_fb := g\<rparr>) (probe_tags m (mb + ucast mb_total_size) (mb + 8) fb_zero))"

partial_function (option) map_pages :: "u64 \<Rightarrow> u64 \<Rightarrow> vm_state \<Rightarrow> (bool \<times> vm_state) option" where
  "map_pages addr map_end s =
     (if addr < map_end
      then case vmm_map_2m addr addr VMM_FLAG_WRITABLE s of (ok, s1) \<Rightarrow>
             if \<not> ok then Some (False, s1) else map_pages (addr + HUGE_PAGE_SIZE) map_end s1
      else Some (True, s))"

declare map_pages.simps [code]

definition video_map_framebuffer :: "video_state \<Rightarrow> (bool \<times> video_state) option" where
  "video_map_framebuffer s =
     (let fb = g_fb s
      in if \<not> fb_present fb \<or> fb_size_bytes fb = 0 then Some (False, s)
         else if fb_size_bytes fb > FRAMEBUFFER_MAP_MAX_BYTES then Some (False, s)
         else let map_start = align_down_2m (fb_phys_addr fb);
                  map_end = align_up_2m (fb_phys_addr fb + fb_size_bytes fb)
              in if map_end \<le> map_start then Some (False, s)
                 else map_option (\<lambda>(ok, v). (ok, s\<lparr>vmem := v, g_fb := fb\<lparr>fb_mapped := ok\<rparr>\<rparr>))
                        (map_pages map_start map_end (vmem s)))"

definition get_video_framebuffer_info :: "video_state \<Rightarrow> video_framebuffer_info" where
  "get_video_framebuffer_info s = g_fb s"

section \<open>Alignment\<close>

lemma huge_mask: "(HUGE_PAGE_SIZE - 1 :: u64) = mask 21"
  by (simp add: mask_eq_exp_minus_1)

lemma unat_align_down: "unat (align_down_2m a) = unat a div 2 ^ 21 * 2 ^ 21"
  unfolding align_down_2m_def huge_mask by (rule unat_and_not_mask)

lemma unat_align_up:
  assumes "unat a + 2 ^ 21 \<le> 2 ^ 64"
  shows "unat (align_up_2m a) = (unat a + (2 ^ 21 - 1)) div 2 ^ 21 * 2 ^ 21"
proof -
  have "unat (a + HUGE_PAGE_SIZE - 1) = unat a + (2 ^ 21 - 1)"
  proof -
    have "a + HUGE_PAGE_SIZE - 1 = a + 0x1FFFFF" by simp
    then show ?thesis using assms by (simp add: unat_word_ariths)
  qed
  then show ?thesis unfolding align_up_2m_def huge_mask unat_and_not_mask by simp
qed

lemma page_offset: "unat ((a :: u64) AND 0x1FFFFF) = unat a mod 2 ^ 21"
proof -
  have m: "(0x1FFFFF :: u64) = mask 21" by (simp add: mask_eq_exp_minus_1)
  show ?thesis unfolding m take_bit_eq_mask [symmetric] unsigned_take_bit_eq by (simp only: take_bit_eq_mod)
qed

lemma aligned_iff: "(a :: u64) AND 0x1FFFFF = 0 \<longleftrightarrow> unat a mod 2 ^ 21 = 0"
  using page_offset [of a] by (metis unat_eq_0)

section \<open>Mapping\<close>

lemma map_page_translate:
  assumes "vm_inv s" "vmm_map_2m v v flags s = (True, s')" "unat v mod 2 ^ 21 = 0" "unat v < 2 ^ 48"
    and "unat b < 2 ^ 48"
  shows "vm_inv s'" "translate s' b = (if unat v \<le> unat b \<and> unat b < unat v + 2 ^ 21 then Some b else translate s b)"
proof -
  have al: "v AND 0x1FFFFF = 0" using assms(3) by (simp only: aligned_iff)
  note sp = map_2m_spec [OF assms(1) al al assms(2)]
  show "vm_inv s'" using sp by simp
  have pm: "page_map s' = (page_map s)(page_of v \<mapsto> page_bits v flags)" using sp by simp
  have same: "page_of b = page_of v \<longleftrightarrow> unat v \<le> unat b \<and> unat b < unat v + 2 ^ 21"
  proof -
    obtain n where n: "unat v = n * 2 ^ 21" using assms(3) by (metis mod_0_imp_dvd dvd_def mult.commute)
    have "unat b div 2 ^ 21 = n \<longleftrightarrow> n * 2 ^ 21 \<le> unat b \<and> unat b < n * 2 ^ 21 + 2 ^ 21"
      using div_mult_mod_eq [of "unat b" "2 ^ 21"] mod_less_divisor [of "2 ^ 21" "unat b"] by auto
    then show ?thesis using page_of_inj [OF assms(5,4)] n by simp
  qed
  have "(page_bits v flags AND 0x000FFFFFFFE00000) + (b AND 0x1FFFFF) = b" if in_page: "page_of b = page_of v"
  proof -
    have "unat b div 2 ^ 21 * 2 ^ 21 = unat v"
      using page_of_inj [OF assms(5,4)] in_page assms(3) div_mult_mod_eq [of "unat v" "2 ^ 21"] by simp
    then have "unat v + unat (b AND 0x1FFFFF) = unat b"
      using div_mult_mod_eq [of "unat b" "2 ^ 21"] page_offset [of b] by simp
    then have "of_nat (unat v + unat (b AND 0x1FFFFF)) = (of_nat (unat b) :: u64)" by simp
    then have "v + (b AND 0x1FFFFF) = b" by (simp only: of_nat_add of_nat_unat ucast_id)
    then show ?thesis using page_bits_address [OF al, of flags] assms(4) by simp
  qed
  then show "translate s' b = (if unat v \<le> unat b \<and> unat b < unat v + 2 ^ 21 then Some b else translate s b)"
    using same by (auto simp: translate_def pm)
qed

text \<open>The loop over the pages ends, and outside the range it covers no translation changes.\<close>

lemma map_pages_spec:
  assumes "vm_inv s" "unat addr mod 2 ^ 21 = 0" "unat map_end mod 2 ^ 21 = 0" "unat map_end \<le> 2 ^ 48"
  shows "\<exists>ok s'. map_pages addr map_end s = Some (ok, s') \<and> vm_inv s' \<and>
    (\<forall>b. unat b < 2 ^ 48 \<longrightarrow> \<not> (unat addr \<le> unat b \<and> unat b < unat map_end) \<longrightarrow> translate s' b = translate s b) \<and>
    (ok \<longrightarrow> (\<forall>b. unat addr \<le> unat b \<and> unat b < unat map_end \<longrightarrow> translate s' b = Some b))"
  using assms(1,2)
proof (induction "unat map_end - unat addr" arbitrary: addr s rule: less_induct)
  case less
  show ?case
  proof (cases "addr < map_end")
    case False
    then have "map_pages addr map_end s = Some (True, s)" by (subst map_pages.simps) simp
    moreover have "\<not> (unat addr \<le> unat b \<and> unat b < unat map_end)" for b :: u64
      using False by (simp add: word_less_nat_alt)
    ultimately show ?thesis using less.prems(1) by blast
  next
    case True
    then have lt: "unat addr < unat map_end" by (simp add: word_less_nat_alt)
    obtain n k where nk: "unat addr = n * 2 ^ 21" "unat map_end = k * 2 ^ 21"
      using less.prems(2) assms(3) by (metis mod_0_imp_dvd dvd_def mult.commute)
    then have le: "unat addr + 2 ^ 21 \<le> unat map_end" using lt by simp
    have next_addr: "unat (addr + HUGE_PAGE_SIZE) = unat addr + 2 ^ 21"
      using le assms(4) by (simp add: unat_word_ariths)
    have al: "addr AND 0x1FFFFF = 0" using less.prems(2) by (simp only: aligned_iff)
    obtain ok1 s1 where r: "vmm_map_2m addr addr VMM_FLAG_WRITABLE s = (ok1, s1)" by fastforce
    have b48: "unat addr < 2 ^ 48" using lt assms(4) by simp
    show ?thesis
    proof (cases ok1)
      case False
      then have "map_pages addr map_end s = Some (False, s1)" using True r by (subst map_pages.simps) simp
      moreover have "vm_inv s1" "translate s1 b = translate s b" for b
        using map_2m_spec [OF less.prems(1) al al r] False by (simp_all add: translate_def)
      ultimately show ?thesis by blast
    next
      case ok: True
      have t: "vm_inv s1" "\<And>b. unat b < 2 ^ 48 \<Longrightarrow> translate s1 b =
          (if unat addr \<le> unat b \<and> unat b < unat addr + 2 ^ 21 then Some b else translate s b)"
        using map_page_translate [OF less.prems(1) r [unfolded eqTrueI [OF ok]] less.prems(2) b48] b48 by blast+
      have "unat (addr + HUGE_PAGE_SIZE) mod 2 ^ 21 = 0" using next_addr less.prems(2) by simp
      moreover have "unat map_end - unat (addr + HUGE_PAGE_SIZE) < unat map_end - unat addr" using next_addr lt by simp
      ultimately obtain ok' s' where s': "map_pages (addr + HUGE_PAGE_SIZE) map_end s1 = Some (ok', s')" "vm_inv s'"
        and out: "\<And>b. unat b < 2 ^ 48 \<Longrightarrow> \<not> (unat addr + 2 ^ 21 \<le> unat b \<and> unat b < unat map_end) \<Longrightarrow>
          translate s' b = translate s1 b"
        and inn: "ok' \<Longrightarrow> unat addr + 2 ^ 21 \<le> unat b \<and> unat b < unat map_end \<Longrightarrow> translate s' b = Some b" for b
        using less.hyps [of "addr + HUGE_PAGE_SIZE" s1] t(1) next_addr by metis
      have "map_pages addr map_end s = Some (ok', s')" using True ok r s'(1) by (subst map_pages.simps) simp
      moreover have "translate s' b = Some b" if "ok'" "unat addr \<le> unat b" "unat b < unat map_end" for b
        using inn [OF that(1), of b] out [of b] t(2) [of b] that(2,3) assms(4)
        by (cases "unat addr + 2 ^ 21 \<le> unat b") auto
      moreover have "translate s' b = translate s b"
        if "unat b < 2 ^ 48" "\<not> (unat addr \<le> unat b \<and> unat b < unat map_end)" for b
        using out [of b] t(2) [of b] that le by auto
      ultimately show ?thesis using s'(2) by blast
    qed
  qed
qed

text \<open>The loop ends for any aligned range, and keeps the tables well formed.\<close>

lemma map_pages_returns:
  assumes "vm_inv s" "unat addr mod 2 ^ 21 = 0" "unat map_end mod 2 ^ 21 = 0"
  shows "\<exists>ok s'. map_pages addr map_end s = Some (ok, s') \<and> vm_inv s'"
  using assms(1,2)
proof (induction "unat map_end - unat addr" arbitrary: addr s rule: less_induct)
  case less
  show ?case
  proof (cases "addr < map_end")
    case False
    then show ?thesis using less.prems(1) by (subst map_pages.simps) auto
  next
    case True
    then have lt: "unat addr < unat map_end" by (simp add: word_less_nat_alt)
    obtain n k where nk: "unat addr = n * 2 ^ 21" "unat map_end = k * 2 ^ 21"
      using less.prems(2) assms(3) by (metis mod_0_imp_dvd dvd_def mult.commute)
    then have "unat addr + 2 ^ 21 \<le> unat map_end" using lt by simp
    moreover have "unat map_end < 2 ^ 64" using unsigned_less [of map_end, where ?'a = nat] by simp
    ultimately have next_addr: "unat (addr + HUGE_PAGE_SIZE) = unat addr + 2 ^ 21" by (simp add: unat_word_ariths)
    have al: "addr AND 0x1FFFFF = 0" using less.prems(2) by (simp only: aligned_iff)
    obtain ok1 s1 where r: "vmm_map_2m addr addr VMM_FLAG_WRITABLE s = (ok1, s1)" by fastforce
    have s1: "vm_inv s1" using map_2m_spec [OF less.prems(1) al al r] by simp
    have "unat (addr + HUGE_PAGE_SIZE) mod 2 ^ 21 = 0" using next_addr less.prems(2) by simp
    moreover have "unat map_end - unat (addr + HUGE_PAGE_SIZE) < unat map_end - unat addr" using next_addr lt by simp
    ultimately show ?thesis
      using less.hyps [OF _ s1] True r s1 by (subst map_pages.simps) (cases ok1; auto)
  qed
qed

lemma video_map_framebuffer_returns:
  assumes "vm_inv (vmem s)"
  shows "\<exists>ok s'. video_map_framebuffer s = Some (ok, s') \<and> vm_inv (vmem s')"
proof -
  have a: "unat (align_down_2m a) mod 2 ^ 21 = 0" "unat (align_up_2m a) mod 2 ^ 21 = 0" for a
    unfolding align_down_2m_def align_up_2m_def huge_mask unat_and_not_mask by simp_all
  from map_pages_returns [OF assms a] show ?thesis
    using assms by (fastforce simp: video_map_framebuffer_def Let_def)
qed

section \<open>Properties\<close>

lemma align_facts:
  assumes "unat phys + unat len + 2 ^ 21 \<le> 2 ^ 48" "0 < unat len"
  shows "unat (align_down_2m phys) mod 2 ^ 21 = 0" "unat (align_up_2m (phys + len)) mod 2 ^ 21 = 0"
    "unat (align_up_2m (phys + len)) \<le> 2 ^ 48" "unat (align_down_2m phys) \<le> unat phys"
    "unat phys + unat len \<le> unat (align_up_2m (phys + len))"
proof -
  have s: "unat (phys + len) = unat phys + unat len" using assms(1) by (simp add: unat_word_ariths)
  have up: "unat (align_up_2m (phys + len)) = (unat phys + unat len + (2 ^ 21 - 1)) div 2 ^ 21 * 2 ^ 21"
    using unat_align_up [of "phys + len"] assms(1) s by simp
  have d: "n \<le> (n + (2 ^ 21 - 1)) div 2 ^ 21 * 2 ^ 21 \<and> (n + (2 ^ 21 - 1)) div 2 ^ 21 * 2 ^ 21 \<le> n + (2 ^ 21 - 1)"
    for n :: nat
    using div_mult_mod_eq [of "n + (2 ^ 21 - 1)" "2 ^ 21"] mod_less_divisor [of "2 ^ 21" "n + (2 ^ 21 - 1)"] by simp
  show "unat (align_down_2m phys) mod 2 ^ 21 = 0" "unat (align_up_2m (phys + len)) mod 2 ^ 21 = 0"
    unfolding unat_align_down up by simp_all
  show "unat (align_down_2m phys) \<le> unat phys" unfolding unat_align_down by simp
  show "unat phys + unat len \<le> unat (align_up_2m (phys + len))" unfolding up using d by blast
  have "unat (align_up_2m (phys + len)) \<le> unat phys + unat len + (2 ^ 21 - 1)" unfolding up using d by blast
  then show "unat (align_up_2m (phys + len)) \<le> 2 ^ 48" using assms(1) by simp
qed

text \<open>
  C8: \<^verbatim>\<open>video_map_framebuffer\<close> returns, and when it returns true every byte of the framebuffer is mapped
  to itself; outside the 2 MiB pages that hold the framebuffer no translation has changed, whatever
  it returns, and the tables stay well formed. It holds for framebuffers below 256 TiB.
\<close>

theorem framebuffer_identity_mapped:
  assumes "vm_inv (vmem s)" "phys = fb_phys_addr (g_fb s)" "len = fb_size_bytes (g_fb s)"
    and "unat phys + unat len + 2 ^ 21 \<le> 2 ^ 48"
  shows "\<exists>ok s'. video_map_framebuffer s = Some (ok, s') \<and> vm_inv (vmem s') \<and>
    (ok \<longrightarrow> fb_mapped (g_fb s') \<and> (\<forall>b. unat phys \<le> unat b \<and> unat b < unat phys + unat len \<longrightarrow>
       translate (vmem s') b = Some b)) \<and>
    (\<forall>b. unat b < 2 ^ 48 \<longrightarrow> unat b < unat (align_down_2m phys) \<or> unat (align_up_2m (phys + len)) \<le> unat b \<longrightarrow>
       translate (vmem s') b = translate (vmem s) b)"
proof (cases "fb_present (g_fb s) \<and> len \<noteq> 0 \<and> len \<le> FRAMEBUFFER_MAP_MAX_BYTES")
  case False
  then have "video_map_framebuffer s = Some (False, s)"
    using assms(3) by (auto simp: video_map_framebuffer_def Let_def not_less)
  then show ?thesis using assms(1) by blast
next
  case True
  let ?a = "align_down_2m phys" and ?e = "align_up_2m (phys + len)"
  have "0 < unat len" using True by (simp add: unat_gt_0)
  note al = align_facts [OF assms(4) this]
  have "\<not> ?e \<le> ?a" using al(4,5) \<open>0 < unat len\<close> by (simp add: word_le_nat_alt)
  then have v: "video_map_framebuffer s =
      map_option (\<lambda>(ok, v). (ok, s\<lparr>vmem := v, g_fb := (g_fb s)\<lparr>fb_mapped := ok\<rparr>\<rparr>)) (map_pages ?a ?e (vmem s))"
    using True assms(2,3) by (auto simp: video_map_framebuffer_def Let_def not_less)
  obtain ok v' where m: "map_pages ?a ?e (vmem s) = Some (ok, v')" "vm_inv v'"
    and out: "\<forall>b. unat b < 2 ^ 48 \<longrightarrow> \<not> (unat ?a \<le> unat b \<and> unat b < unat ?e) \<longrightarrow> translate v' b = translate (vmem s) b"
    and inn: "ok \<longrightarrow> (\<forall>b. unat ?a \<le> unat b \<and> unat b < unat ?e \<longrightarrow> translate v' b = Some b)"
    using map_pages_spec [OF assms(1) al(1,2,3)] by blast
  show ?thesis using v m(2) out inn al(4,5) by (auto simp: m(1) not_le not_less)
qed

definition sample_fb :: video_framebuffer_info where
  "sample_fb = fb_zero\<lparr>fb_present := True, fb_phys_addr := 0xFD000000, fb_info_width := 1024, fb_info_height := 768,
     fb_info_pitch := 4096, fb_bpp := 32, fb_size_bytes := 0x300000\<rparr>"

theorem framebuffer_identity_mapped_witness:
  "\<exists>ok s'. video_map_framebuffer \<lparr>vmem = sample_vm, g_fb = sample_fb\<rparr> = Some (ok, s') \<and> vm_inv (vmem s') \<and>
     (\<not> ok \<or> translate (vmem s') 0xFD000010 = Some 0xFD000010) \<and> translate (vmem s') 0x1000 = translate sample_vm 0x1000"
proof -
  let ?s = "\<lparr>vmem = sample_vm, g_fb = sample_fb\<rparr>"
  have h: "vm_inv (vmem ?s)" "0xFD000000 = fb_phys_addr (g_fb ?s)" "0x300000 = fb_size_bytes (g_fb ?s)"
    "unat (0xFD000000 :: u64) + unat (0x300000 :: u64) + 2 ^ 21 \<le> 2 ^ 48"
    by (simp_all add: sample_vm_inv sample_fb_def)
  have v: "vmem ?s = sample_vm" by simp
  obtain ok s' where r: "video_map_framebuffer ?s = Some (ok, s')" "vm_inv (vmem s')"
    and inn: "ok \<longrightarrow> (\<forall>b. unat (0xFD000000 :: u64) \<le> unat b \<and>
        unat b < unat (0xFD000000 :: u64) + unat (0x300000 :: u64) \<longrightarrow> translate (vmem s') b = Some b)"
    and out: "\<forall>b. unat b < 2 ^ 48 \<longrightarrow> unat b < unat (align_down_2m 0xFD000000) \<or>
        unat (align_up_2m (0xFD000000 + 0x300000)) \<le> unat b \<longrightarrow> translate (vmem s') b = translate sample_vm b"
    using framebuffer_identity_mapped [OF h, unfolded v] by blast
  have "translate (vmem s') 0x1000 = translate sample_vm 0x1000"
    using out [rule_format, of "0x1000"] by (simp add: unat_align_down)
  moreover have "\<not> ok \<or> translate (vmem s') 0xFD000010 = Some 0xFD000010"
    using inn by (cases ok) simp_all
  ultimately show ?thesis using r by blast
qed

lemma product_exact: "unat (ucast (a :: u32) * ucast (b :: u32) :: u64) = unat a * unat b"
proof -
  have "unat a * unat b \<le> (2 ^ 32 - 1) * (2 ^ 32 - 1)"
    using unsigned_less [of a, where ?'a = nat] unsigned_less [of b, where ?'a = nat] by (intro mult_mono) simp_all
  then show ?thesis by (simp add: unat_word_ariths)
qed

definition fb_size_exact :: "video_framebuffer_info \<Rightarrow> bool" where
  "fb_size_exact g \<longleftrightarrow> \<not> fb_present g \<or> unat (fb_size_bytes g) = unat (fb_info_pitch g) * unat (fb_info_height g)"

lemma fb_from_tag_exact: "fb_size_exact (fb_from_tag m tag g)"
  by (simp add: fb_size_exact_def fb_from_tag_def Let_def product_exact)

lemma probe_tags_returns:
  assumes "\<forall>t. tag_reached m info_end start t \<and> t < info_end \<and> tag_type m t \<noteq> MULTIBOOT_TAG_TYPE_END \<longrightarrow>
      tag_size m t \<le> 0xFFFFFFF8" "unat info_end < 2 ^ 63"
    and "tag_reached m info_end start tag" "fb_size_exact g"
  shows "\<exists>g'. probe_tags m info_end tag g = Some g' \<and> fb_size_exact g'"
  using assms(3,4)
proof (induction "unat info_end - unat tag" arbitrary: tag g rule: less_induct)
  case less
  show ?case
  proof (cases "tag < info_end \<and> tag_type m tag \<noteq> MULTIBOOT_TAG_TYPE_END \<and> \<not> tag_size m tag < SIZEOF_TAG")
    case False
    then show ?thesis using less.prems(2) by (subst probe_tags.simps) auto
  next
    case True
    then have "1 \<le> tag_size m tag" by (simp add: word_less_nat_alt word_le_nat_alt)
    then have d: "unat info_end - unat (tag_next m tag) < unat info_end - unat tag"
      using tag_next_forward assms(1,2) less.prems(1) True by blast
    have n: "tag_reached m info_end start (tag_next m tag)" using less.prems(1) True reached_next by blast
    note ih = less.hyps [OF d n]
    show ?thesis
      using True less.prems(2) ih [of g] ih [of "fb_from_tag m tag g"] fb_from_tag_exact
      by (subst probe_tags.simps) auto
  qed
qed

lemma video_probe_spec:
  assumes "mb = ucast addr"
    and "\<forall>t. tag_reached m (mb + ucast (read32 m mb)) (mb + 8) t \<and> t < mb + ucast (read32 m mb) \<and>
      tag_type m t \<noteq> MULTIBOOT_TAG_TYPE_END \<longrightarrow> tag_size m t \<le> 0xFFFFFFF8"
  shows "\<exists>s'. video_probe_multiboot m addr s = Some s' \<and> vmem s' = vmem s \<and>
    fb_size_exact (g_fb s')"
proof -
  have z: "fb_size_exact fb_zero" by (simp add: fb_size_exact_def fb_zero_def)
  have "unat (mb + ucast (read32 m mb)) < 2 ^ 33" unfolding assms(1) by (rule info_end_bound)
  then have "unat (mb + ucast (read32 m mb)) < 2 ^ 63" by simp
  then obtain g where "probe_tags m (mb + ucast (read32 m mb)) (mb + 8) fb_zero = Some g" "fb_size_exact g"
    using probe_tags_returns [OF assms(2) _ reached_start z] by blast
  then show ?thesis using z assms(1) by (auto simp: video_probe_multiboot_def Let_def)
qed

text \<open>
  C38: \<^verbatim>\<open>video_probe_multiboot\<close> returns unless a tag size wraps when rounded up (a size of 0, on which the
  frame allocator hangs, only stops this walk), touches nothing but the framebuffer description,
  and the byte size it computes is the product of pitch and height without overflow.
\<close>

theorem video_probe_returns:
  assumes "mb = ucast addr"
    and "\<forall>t. tag_reached m (mb + ucast (read32 m mb)) (mb + 8) t \<and> t < mb + ucast (read32 m mb) \<and>
      tag_type m t \<noteq> MULTIBOOT_TAG_TYPE_END \<longrightarrow> tag_size m t \<le> 0xFFFFFFF8"
  shows "\<exists>s'. video_probe_multiboot m addr s = Some s' \<and> vmem s' = vmem s \<and>
    (fb_present (g_fb s') \<longrightarrow> unat (fb_size_bytes (g_fb s')) = unat (fb_info_pitch (g_fb s')) * unat (fb_info_height (g_fb s')))"
  using video_probe_spec [OF assms] by (auto simp: fb_size_exact_def)

theorem video_probe_returns_witness:
  "\<exists>s'. video_probe_multiboot sample_memory 0x1000 \<lparr>vmem = sample_vm, g_fb = sample_fb\<rparr> = Some s' \<and> vmem s' = sample_vm"
proof -
  have "\<forall>t. tag_reached sample_memory (0x1000 + ucast (read32 sample_memory 0x1000)) (0x1000 + 8) t \<and>
      t < 0x1000 + ucast (read32 sample_memory 0x1000) \<and> tag_type sample_memory t \<noteq> MULTIBOOT_TAG_TYPE_END \<longrightarrow>
      tag_size sample_memory t \<le> 0xFFFFFFF8"
    using sample_sound by (auto simp: boot_info_sound_def tags_sound_def Let_def)
  then show ?thesis
    using video_probe_returns [of "0x1000" "0x1000" sample_memory "\<lparr>vmem = sample_vm, g_fb = sample_fb\<rparr>"] by auto
qed

end
