(* ===== verification/C_String.thy ===== *)
theory C_String
  imports Prelude "HOL-Library.List_Lexorder"
begin

text \<open>
  The string functions of \<^verbatim>\<open>kernel/src/lib/string.c\<close>. A \<^verbatim>\<open>const char *\<close> is the list of bytes from the
  pointer to the end of its array, so \<^verbatim>\<open>p++\<close> is the tail; the result \<^const>\<open>None\<close> is a read past the end of
  the array. The functions that copy act on the destination array and return it.
\<close>

section \<open>Operations\<close>

fun strlen :: "u8 list \<Rightarrow> nat option" where
  "strlen [] = None"
| "strlen (c # s) = (if c \<noteq> 0 then map_option Suc (strlen s) else Some 0)"

fun strcmp :: "u8 list \<Rightarrow> u8 list \<Rightarrow> int option" where
  "strcmp (a # as) (b # bs) = (if a \<noteq> 0 \<and> a = b then strcmp as bs else Some (uint a - uint b))"
| "strcmp _ _ = None"

fun strncmp :: "u8 list \<Rightarrow> u8 list \<Rightarrow> nat \<Rightarrow> int option" where
  "strncmp _ _ 0 = Some 0"
| "strncmp (a # as) (b # bs) (Suc n) =
     (if a \<noteq> b then Some (uint a - uint b) else if a = 0 then Some 0 else strncmp as bs n)"
| "strncmp _ _ (Suc n) = None"

definition memcpy :: "u8 list \<Rightarrow> u8 list \<Rightarrow> nat \<Rightarrow> u8 list" where
  "memcpy d s n = for_range 0 n (\<lambda>i d. d[i := s ! i]) d"

definition memset :: "u8 list \<Rightarrow> int \<Rightarrow> nat \<Rightarrow> u8 list" where
  "memset d value n = for_range 0 n (\<lambda>i d. d[i := word_of_int value]) d"

text \<open>A string literal: its characters and the terminating zero.\<close>

definition c_lit :: "string \<Rightarrow> u8 list" where
  "c_lit s = bytes s @ [0]"

section \<open>Properties\<close>

lemma c_str_c_lit [simp]: "0 \<notin> set (bytes s) \<Longrightarrow> c_str (c_lit s) = bytes s"
  unfolding c_lit_def c_str_def by (subst takeWhile_append2) auto

lemma c_str_Cons: "c_str (c # s) = (if c = 0 then [] else c # c_str s)"
  by (simp add: c_str_def)

lemma strlen_c_str: "0 \<in> set s \<Longrightarrow> strlen s = Some (length (c_str s))"
  by (induction s) (auto simp: c_str_Cons)

lemma strlen_overrun: "strlen s = None \<longleftrightarrow> 0 \<notin> set s"
  by (induction s) auto

text \<open>The string order C compares by: bytes as unsigned numbers, a prefix first.\<close>

lemma strcmp_sign:
  assumes "0 \<in> set a" "0 \<in> set b"
  shows "\<exists>r. strcmp a b = Some r \<and> (r = 0 \<longleftrightarrow> c_str a = c_str b) \<and> (r < 0 \<longleftrightarrow> c_str a < c_str b)"
  using assms
proof (induction a b rule: strcmp.induct)
  case (1 a as b bs)
  have z: "a \<noteq> 0 \<Longrightarrow> 0 < uint a" "b \<noteq> 0 \<Longrightarrow> 0 < uint b" by (simp_all add: uint_0_iff less_le flip: word_less_def word_neq_0_conv)
  show ?case
  proof (cases "a \<noteq> 0 \<and> a = b")
    case True
    then show ?thesis using 1 by (auto simp: c_str_Cons)
  next
    case False
    then show ?thesis using z by (auto simp: c_str_Cons word_less_def simp flip: word_uint_eq_iff)
  qed
qed auto

lemma strcmp_eq:
  "0 \<in> set a \<Longrightarrow> 0 \<in> set b \<Longrightarrow> strcmp a b = Some 0 \<longleftrightarrow> c_str a = c_str b"
  using strcmp_sign [of a b] by auto

lemma strncmp_eq:
  "0 \<in> set a \<Longrightarrow> 0 \<in> set b \<Longrightarrow> \<exists>r. strncmp a b n = Some r \<and> (r = 0 \<longleftrightarrow> take n (c_str a) = take n (c_str b))"
proof (induction a b n rule: strncmp.induct)
  case (2 a as b bs n)
  then show ?case by (auto simp: c_str_Cons uint_0_iff simp flip: word_uint_eq_iff)
qed auto

lemma memcpy_spec: "n \<le> length d \<Longrightarrow> n \<le> length s \<Longrightarrow> memcpy d s n = take n s @ drop n d"
proof (induction n)
  case (Suc n)
  then have "memcpy d s (Suc n) = (take n s @ drop n d)[n := s ! n]" by (simp add: memcpy_def)
  also have "\<dots> = take (Suc n) s @ drop (Suc n) d"
    using Suc.prems by (simp add: list_update_append take_Suc_conv_app_nth take_drop_Suc_nth)
  finally show ?case .
qed (simp add: memcpy_def)

lemma memset_spec: "n \<le> length d \<Longrightarrow> memset d v n = replicate n (word_of_int v) @ drop n d"
proof (induction n)
  case (Suc n)
  then have "memset d v (Suc n) = (replicate n (word_of_int v) @ drop n d)[n := word_of_int v]"
    by (simp add: memset_def)
  also have "\<dots> = replicate (Suc n) (word_of_int v) @ drop (Suc n) d"
    using Suc.prems by (simp add: list_update_append take_drop_Suc_nth replicate_append_same [symmetric])
  finally show ?case .
qed (simp add: memset_def)

end
