(* ===== verification/History.thy ===== *)
theory History
  imports Prelude
begin

text \<open>
  The command history of \<^verbatim>\<open>rust/src/lib.rs\<close>: the last 16 commands, cut to 63 bytes, in an array of
  slots used as a ring, and a counter of all commands. The spin lock is taken and released inside
  one call and interrupt handlers do not use the history, so it has no part in the model.
\<close>

abbreviation (input) HISTORY_SLOTS :: nat where "HISTORY_SLOTS \<equiv> 16"
abbreviation (input) SLOT_LEN :: nat where "SLOT_LEN \<equiv> 64"

record history =
  hist_entries :: "u8 list list"
  hist_lens :: "nat list"
  hist_head :: nat
  hist_count :: nat
  HISTORY_COUNT :: u64

definition history_new :: history where
  "history_new = \<lparr>hist_entries = replicate HISTORY_SLOTS (replicate SLOT_LEN 0), hist_lens = replicate HISTORY_SLOTS 0,
     hist_head = 0, hist_count = 0, HISTORY_COUNT = 0\<rparr>"

definition history_push :: "u8 list \<Rightarrow> history \<Rightarrow> history" where
  "history_push src h =
     (let slot = hist_head h; len = min (length src) (SLOT_LEN - 1)
      in h\<lparr>hist_entries := (hist_entries h)[slot := take len src @ replicate (SLOT_LEN - len) 0],
           hist_lens := (hist_lens h)[slot := len],
           hist_head := (hist_head h + 1) mod HISTORY_SLOTS,
           hist_count := (if hist_count h < HISTORY_SLOTS then hist_count h + 1 else hist_count h)\<rparr>)"

definition rust_history_push :: "u8 list option \<Rightarrow> nat \<Rightarrow> history \<Rightarrow> history" where
  "rust_history_push b len h =
     (case b of None \<Rightarrow> h
      | Some src \<Rightarrow> if len = 0 then h
          else (history_push (take len src) h)\<lparr>HISTORY_COUNT := HISTORY_COUNT h + 1\<rparr>)"

definition rust_history_count :: "history \<Rightarrow> u64" where
  "rust_history_count h = HISTORY_COUNT h"

definition rust_boot_banner :: "u8 list" where
  "rust_boot_banner = bytes ''Rust subsystem online (no_std)'' @ [0]"

section \<open>The commands kept\<close>

text \<open>Slot \<open>k\<close> from the oldest, and the list of the commands kept, oldest first.\<close>

definition hist_slot :: "history \<Rightarrow> nat \<Rightarrow> nat" where
  "hist_slot h k = (hist_head h + (HISTORY_SLOTS - hist_count h) + k) mod HISTORY_SLOTS"

definition hist_list :: "history \<Rightarrow> u8 list list" where
  "hist_list h = map (\<lambda>k. take (hist_lens h ! hist_slot h k) (hist_entries h ! hist_slot h k)) [0..<hist_count h]"

definition hist_inv :: "history \<Rightarrow> bool" where
  "hist_inv h \<longleftrightarrow> length (hist_entries h) = HISTORY_SLOTS \<and> length (hist_lens h) = HISTORY_SLOTS \<and>
     hist_head h < HISTORY_SLOTS \<and> hist_count h \<le> HISTORY_SLOTS"

lemma hist_slot_less: "hist_slot h k < HISTORY_SLOTS"
  by (simp add: hist_slot_def)

lemma slot_not_head:
  assumes "h < HISTORY_SLOTS" "0 < d" "d < HISTORY_SLOTS"
  shows "(h + d) mod HISTORY_SLOTS \<noteq> h"
  using assms by (cases "h + d < 16") (auto simp: mod_if)

lemma slot_push:
  assumes "hist_inv h"
  shows "hist_slot (history_push src h) k =
    (if hist_count h < HISTORY_SLOTS then hist_slot h k else hist_slot h (Suc k))"
proof -
  have m: "((a + 1) mod HISTORY_SLOTS + b) mod HISTORY_SLOTS = (a + Suc b) mod HISTORY_SLOTS" for a b
    by (simp add: mod_add_left_eq)
  show ?thesis
  proof (cases "hist_count h < HISTORY_SLOTS")
    case True
    define r where "r = HISTORY_SLOTS - Suc (hist_count h)"
    have r: "HISTORY_SLOTS - hist_count h = Suc r" using True by (simp add: r_def)
    have "hist_head (history_push src h) = (hist_head h + 1) mod HISTORY_SLOTS"
      "HISTORY_SLOTS - hist_count (history_push src h) = r"
      using True by (simp_all add: history_push_def Let_def r_def)
    then have "hist_slot (history_push src h) k = ((hist_head h + 1) mod HISTORY_SLOTS + (r + k)) mod HISTORY_SLOTS"
      by (simp only: hist_slot_def add.assoc)
    also have "\<dots> = (hist_head h + Suc (r + k)) mod HISTORY_SLOTS" by (rule m)
    also have "\<dots> = hist_slot h k" unfolding hist_slot_def r by (simp add: add.assoc)
    finally show ?thesis using True by simp
  next
    case False
    then have "hist_count h = HISTORY_SLOTS" using assms by (simp add: hist_inv_def)
    then show ?thesis using m [of "hist_head h" k] by (simp add: hist_slot_def history_push_def Let_def)
  qed
qed

lemma hist_push_inv: "hist_inv h \<Longrightarrow> hist_inv (history_push src h)"
  by (simp add: hist_inv_def history_push_def Let_def)

text \<open>A command pushed is kept last, cut to 63 bytes; the oldest is dropped from 16 on.\<close>

lemma hist_push_list:
  assumes i: "hist_inv h"
  shows "hist_list (history_push src h) =
    (if hist_count h < HISTORY_SLOTS then hist_list h else tl (hist_list h)) @ [take 63 src]"
proof -
  define e where "e j = take (hist_lens h ! j) (hist_entries h ! j)" for j
  define e' where "e' j = take (hist_lens (history_push src h) ! j) (hist_entries (history_push src h) ! j)" for j
  have hd: "hist_head h < HISTORY_SLOTS" using i by (simp add: hist_inv_def)
  have new: "e' (hist_head h) = take 63 src"
    using i by (simp add: e'_def history_push_def Let_def hist_inv_def min_def)
  have old: "e' j = e j" if "j \<noteq> hist_head h" for j
    using that by (simp add: e_def e'_def history_push_def Let_def)
  have l: "hist_list h = map (\<lambda>k. e (hist_slot h k)) [0..<hist_count h]"
    "hist_list (history_push src h) =
       map (\<lambda>k. e' (hist_slot (history_push src h) k)) [0..<hist_count (history_push src h)]"
    by (simp_all add: hist_list_def e_def e'_def)
  show ?thesis
  proof (cases "hist_count h < HISTORY_SLOTS")
    case True
    have "hist_slot h k \<noteq> hist_head h" if "k < hist_count h" for k
      using slot_not_head [OF hd, of "HISTORY_SLOTS - hist_count h + k"] that True
      by (simp add: hist_slot_def add.assoc)
    moreover have "hist_slot h (hist_count h) = hist_head h" using hd True by (simp add: hist_slot_def)
    moreover have "hist_count (history_push src h) = Suc (hist_count h)"
      using True by (simp add: history_push_def Let_def)
    ultimately show ?thesis using True by (simp add: l slot_push [OF i] old new)
  next
    case False
    then have c: "hist_count h = HISTORY_SLOTS" using i by (simp add: hist_inv_def)
    have "hist_slot h (Suc k) \<noteq> hist_head h" if "k < 15" for k
      using slot_not_head [OF hd, of "Suc k"] that c by (simp add: hist_slot_def)
    moreover have "hist_slot h 16 = hist_head h" using hd c by (simp add: hist_slot_def)
    moreover have "hist_count (history_push src h) = Suc 15" using c by (simp add: history_push_def Let_def)
    moreover have "tl (hist_list h) = map (\<lambda>k. e (hist_slot h (Suc k))) [0..<15]"
      using c by (simp add: l map_Suc_upt [symmetric] upt_conv_Cons comp_def del: upt_Suc)
    moreover have "[0..<Suc 15] = [0..<15] @ [15]" by (rule upt_Suc_append) simp
    ultimately show ?thesis using c by (simp add: l slot_push [OF i] old new del: upt_Suc)
  qed
qed

end
