(* ===== verification/Shell.thy ===== *)
theory Shell
  imports Tty Session Video C_String History "HOL-Library.Monad_Syntax"
begin

unbundle bit_operations_syntax

text \<open>
  The shell of \<^verbatim>\<open>kernel/src/core/shell.c\<close>: it assembles lines from the active session's
  pseudo-terminal, or from the terminal when there is none, and runs commands. Its state extends the
  one the terminal acts on with the sessions, memory and video state, the timer, the history and the
  line. \<^const>\<open>None\<close> is a loop that does not end. A buffer on the stack that is only filled and read within
  one call is a list.
\<close>

section \<open>State\<close>

abbreviation (input) SHELL_LINE_MAX :: nat where "SHELL_LINE_MAX \<equiv> 128"

record shell_sys = io_sys +
  sessions :: session_state
  video :: video_state
  g_ticks :: u64
  history :: history
  shell_line :: "u8 list"
  shell_len :: nat

section \<open>Commands\<close>

definition out :: "string \<Rightarrow> 'a io_sys_scheme \<Rightarrow> 'a io_sys_scheme" where
  "out str = on_con (console_write (c_lit str))"

text \<open>A line of text: the string with the newline that ends it in the source.\<close>

definition outln :: "string \<Rightarrow> 'a io_sys_scheme \<Rightarrow> 'a io_sys_scheme" where
  "outln str = on_con (console_write (bytes str @ [0x0A, 0]))"

definition outdec :: "u64 \<Rightarrow> 'a io_sys_scheme \<Rightarrow> 'a io_sys_scheme" where
  "outdec v = on_con (console_write_dec v)"

definition outhex :: "u64 \<Rightarrow> 'a io_sys_scheme \<Rightarrow> 'a io_sys_scheme" where
  "outhex v = on_con (console_write_hex v)"

text \<open>\<^verbatim>\<open>"\x1B[1;32mwalu\x1B[0m> "\<close> and the coloured words of the ANSI demonstration.\<close>

definition colored :: "string \<Rightarrow> string \<Rightarrow> u8 list" where
  "colored color str = 0x1B # bytes ''['' @ bytes color @ bytes ''m'' @ bytes str @ 0x1B # bytes ''[0m''"

definition shell_prompt :: "'a io_sys_scheme \<Rightarrow> 'a io_sys_scheme" where
  "shell_prompt = on_con (console_write (colored ''1;32'' ''walu'' @ c_lit ''> ''))"

declare out_def [op_defs] outln_def [op_defs] outdec_def [op_defs] outhex_def [op_defs]

definition cmd_help :: "'a io_sys_scheme \<Rightarrow> 'a io_sys_scheme" where
  "cmd_help s = fold outln
     [''Commands:'',
      ''  help     - show this help'',
      ''  clear    - clear the screen'',
      ''  meminfo  - show memory/timer stats'',
      ''  kbdinfo  - show keyboard modifier/lock state'',
      ''  ttyinfo  - show tty RX/drop counters'',
      ''  session  - show active session and controlling pty'',
      ''  health   - show subsystem fault/overflow counters'',
      ''  selftest - run input/pty stress self-test'',
      ''  ansi     - print ANSI color demo'',
      ''  echo ... - print text''] s"

text \<open>One line of a report: a label, a number and the rest of the line.\<close>

definition report :: "string \<Rightarrow> u64 \<Rightarrow> string \<Rightarrow> 'a io_sys_scheme \<Rightarrow> 'a io_sys_scheme" where
  "report label v unit s = outln unit (outdec v (out label s))"

definition cmd_meminfo :: "'a shell_sys_scheme \<Rightarrow> 'a shell_sys_scheme" where
  "cmd_meminfo s =
     (let p = pmm (vmem (video s))
      in report ''Rust history entries: '' (rust_history_count (history s)) ''''
           (report ''Timer ticks : '' (g_ticks s) ''''
             (report ''Memory free : '' (pmm_free_kib p) '' KiB''
               (report ''Memory used : '' (pmm_used_kib p) '' KiB''
                 (report ''Memory total: '' (pmm_total_kib p) '' KiB'' s)))))"

definition out_flags :: "u8 \<Rightarrow> (u8 \<times> string) list \<Rightarrow> 'a io_sys_scheme \<Rightarrow> 'a io_sys_scheme" where
  "out_flags v names s =
     (if v = 0 then out ''none'' s
      else fold (\<lambda>(flag, name) s. if v AND flag \<noteq> 0 then out name s else s) names s)"

definition cmd_kbdinfo :: "'a io_sys_scheme \<Rightarrow> 'a io_sys_scheme" where
  "cmd_kbdinfo s =
     (let modifiers = keyboard_modifiers (kbd s); locks = keyboard_locks (kbd s);
          s1 = outln '')'' (out_flags modifiers
                 [(KBD_MOD_SHIFT, ''SHIFT ''), (KBD_MOD_CTRL, ''CTRL ''), (KBD_MOD_ALT, ''ALT ''),
                  (KBD_MOD_ALTGR, ''ALTGR ''), (KBD_MOD_META, ''META '')]
                 (out '' ('' (outhex (ucast modifiers) (out ''Modifiers: 0x'' s))))
      in outln '')'' (out_flags locks
           [(KBD_LOCK_CAPS, ''CAPS ''), (KBD_LOCK_NUM, ''NUM ''), (KBD_LOCK_SCROLL, ''SCROLL '')]
           (out '' ('' (outhex (ucast locks) (out ''Locks    : 0x'' s1)))))"

definition cmd_ansi :: "'a io_sys_scheme \<Rightarrow> 'a io_sys_scheme" where
  "cmd_ansi s =
     outln ''UTF-8 sample bytes: cafe, naive, jalapeno''
       (fold (\<lambda>str. on_con (console_write str))
          [bytes ''  '' @ colored ''1;31'' ''red'' @ c_lit '' '',
           colored ''1;32'' ''green'' @ c_lit '' '',
           colored ''1;33'' ''yellow'' @ c_lit '' '',
           colored ''1;34'' ''blue'' @ c_lit '' '',
           colored ''1;35'' ''magenta'' @ c_lit '' '',
           colored ''1;36'' ''cyan'' @ [0x0A, 0]]
          (outln ''ANSI demo:'' s))"

definition cmd_ttyinfo :: "'a io_sys_scheme \<Rightarrow> 'a io_sys_scheme" where
  "cmd_ttyinfo s =
     report ''TTY esc disc : '' (tty_escape_discards s) ''''
       (report ''TTY line ovf : '' (tty_line_overflows s) ''''
         (report ''TTY dropped : '' (tty_dropped_bytes s) ''''
           (report ''TTY rx bytes: '' (tty_rx_bytes s) '''' s)))"

definition cmd_health :: "'a shell_sys_scheme \<Rightarrow> 'a shell_sys_scheme" where
  "cmd_health s =
     report ''Session invalid: '' (session_invalid_ops (sessions s)) ''''
       (report ''PTY invalid   : '' (pty_invalid_ops (ptys s)) ''''
         (report ''PTY dropped   : '' (pty_dropped_bytes (ptys s)) ''''
           (report ''TTY dropped   : '' (tty_dropped_bytes s) ''''
             (report ''KBD drop event: '' (keyboard_dropped_events (kbd s)) ''''
               (report ''KBD drop byte : '' (keyboard_dropped_bytes (kbd s)) ''''
                 (report ''KBD scancodes : '' (keyboard_rx_scancodes (kbd s)) '''' s))))))"

definition cmd_session :: "'a shell_sys_scheme \<Rightarrow> 'a shell_sys_scheme" where
  "cmd_session s =
     (let sid = session_active_id (sessions s); pty = session_active_pty (sessions s)
      in report ''Session pty   : '' (if pty < 0 then 0 else word_of_int pty) ''''
           (report ''Session active: '' (if sid < 0 then 0 else word_of_int sid) '''' s))"

section \<open>The self-test\<close>

partial_function (option) drain_pty :: "int \<Rightarrow> pty_state \<Rightarrow> pty_state option" where
  "drain_pty pty_id p =
     (case pty_slave_read pty_id False 128 p of (got, p1) \<Rightarrow>
        if length got > 0 then drain_pty pty_id p1 else Some p1)"

definition drain_active_pty :: "'a shell_sys_scheme \<Rightarrow> 'a shell_sys_scheme option" where
  "drain_active_pty s =
     (let pty_id = session_active_pty (sessions s)
      in if pty_id < 0 then Some s
         else do { p \<leftarrow> drain_pty pty_id (ptys s); Some (s\<lparr>ptys := p\<rparr>) })"

partial_function (option) count_reads :: "int \<Rightarrow> nat \<Rightarrow> pty_state \<Rightarrow> (nat \<times> pty_state) option" where
  "count_reads pty_id total_read p =
     (case pty_slave_read pty_id False 256 p of (got, p1) \<Rightarrow>
        if length got = 0 then Some (total_read, p1) else count_reads pty_id (total_read + length got) p1)"

declare drain_pty.simps [code] count_reads.simps [code]

definition selftest_bytes :: "u8 list" where
  "selftest_bytes = map (\<lambda>i. of_char CHR ''A'' + of_nat (i mod 26)) [0..<4096]"

definition selftest_line :: "u8 list" where
  "selftest_line = replicate 899 (of_char CHR ''x'') @ [0x0A]"

definition cmd_selftest :: "'a shell_sys_scheme \<Rightarrow> 'a shell_sys_scheme option" where
  "cmd_selftest s =
     (case pty_alloc (ptys s) of (test_pty, p0) \<Rightarrow>
        if test_pty < 0 then Some (outln ''selftest: pty alloc failed'' (s\<lparr>ptys := p0\<rparr>))
        else case pty_master_write test_pty (Some selftest_bytes) 4096 p0 of (wrote, p1) \<Rightarrow>
          do {
            (total_read, p2) \<leftarrow> count_reads test_pty 0 p1;
            let ok1 = \<not> (wrote = 0 \<or> total_read \<noteq> wrote);
            let s1 = s\<lparr>ptys := snd (pty_master_write (-1) (Some selftest_bytes) 1 p2)\<rparr>;
            let over_before = tty_line_overflows s1;
            let s2 = tty_test_inject_bytes (Some selftest_line) 900 s1;
            let ok = (ok1 \<and> \<not> tty_line_overflows s2 \<le> over_before);
            s3 \<leftarrow> drain_active_pty s2;
            Some (outln (if ok then ''PASS'' else ''FAIL'') (out ''selftest: '' s3))
          })"

section \<open>The command interpreter\<close>

definition execute_command :: "u8 list \<Rightarrow> 'a shell_sys_scheme \<Rightarrow> 'a shell_sys_scheme option" where
  "execute_command line0 s0 =
     (let line = dropWhile (\<lambda>c. c = 0x20) line0
      in if line = [] \<or> hd line = 0 then Some s0
         else do {
           n \<leftarrow> strlen line;
           let s = s0\<lparr>history := rust_history_push (Some line) n (history s0)\<rparr>;
           if strcmp line (c_lit ''help'') = Some 0 then Some (cmd_help s)
           else if strcmp line (c_lit ''clear'') = Some 0 then Some (on_con console_clear s)
           else if strcmp line (c_lit ''meminfo'') = Some 0 then Some (cmd_meminfo s)
           else if strcmp line (c_lit ''kbdinfo'') = Some 0 then Some (cmd_kbdinfo s)
           else if strcmp line (c_lit ''ansi'') = Some 0 then Some (cmd_ansi s)
           else if strcmp line (c_lit ''ttyinfo'') = Some 0 then Some (cmd_ttyinfo s)
           else if strcmp line (c_lit ''health'') = Some 0 then Some (cmd_health s)
           else if strcmp line (c_lit ''session'') = Some 0 then Some (cmd_session s)
           else if strcmp line (c_lit ''selftest'') = Some 0 then cmd_selftest s
           else if strcmp line (c_lit ''echo'') = Some 0 then Some (on_con (console_putc 0x0A) s)
           else if strncmp line (c_lit ''echo '') 5 = Some 0
           then Some (on_con (console_putc 0x0A) (on_con (console_write (drop 5 line)) s))
           else Some (on_con (console_putc 0x0A) (on_con (console_write line) (out ''Unknown command: '' s)))
         })"

definition shell_init :: "'a shell_sys_scheme \<Rightarrow> 'a shell_sys_scheme" where
  "shell_init s = shell_prompt (tty_set_echo True (tty_set_canonical True (s\<lparr>shell_len := 0\<rparr>)))"

text \<open>The body that the two read loops of \<^verbatim>\<open>shell_poll\<close> write out for a byte.\<close>

definition shell_byte :: "u8 \<Rightarrow> 'a shell_sys_scheme \<Rightarrow> 'a shell_sys_scheme option" where
  "shell_byte c s =
     (if c = 0x03 then Some (shell_prompt (s\<lparr>shell_len := 0\<rparr>))
      else if c = 0x0C then
        let s1 = shell_prompt (on_con console_clear s)
        in Some (if shell_len s1 > 0 then on_con (console_write (shell_line s1)) s1 else s1)
      else if c = 0x0A then
        let s1 = s\<lparr>shell_line := (shell_line s)[shell_len s := 0]\<rparr>
        in do { s2 \<leftarrow> execute_command (shell_line s1) s1; Some (shell_prompt (s2\<lparr>shell_len := 0\<rparr>)) }
      else if c = 0x04 then Some s
      else if (c < 0x20 \<or> c = 0x7F) \<and> c \<noteq> 0x09 then Some s
      else if shell_len s + 1 < SHELL_LINE_MAX
      then Some (s\<lparr>shell_line := (shell_line s)[shell_len s := c], shell_len := shell_len s + 1\<rparr>)
      else Some s)"

fun shell_bytes :: "u8 list \<Rightarrow> 'a shell_sys_scheme \<Rightarrow> 'a shell_sys_scheme option" where
  "shell_bytes [] s = Some s"
| "shell_bytes (c # cs) s = do { s1 \<leftarrow> shell_byte c s; shell_bytes cs s1 }"

partial_function (option) shell_pty_loop :: "int \<Rightarrow> 'a shell_sys_scheme \<Rightarrow> 'a shell_sys_scheme option" where
  "shell_pty_loop pty_id s =
     (case pty_slave_read pty_id False 128 (ptys s) of (got, p) \<Rightarrow>
        if length got = 0 then Some (s\<lparr>ptys := p\<rparr>)
        else do { s1 \<leftarrow> shell_bytes got (s\<lparr>ptys := p\<rparr>); shell_pty_loop pty_id s1 })"

partial_function (option) shell_tty_loop :: "'a shell_sys_scheme \<Rightarrow> 'a shell_sys_scheme option" where
  "shell_tty_loop s =
     (case tty_pop_char s of None \<Rightarrow> Some s
      | Some (c, s1) \<Rightarrow> do { s2 \<leftarrow> shell_byte c s1; shell_tty_loop s2 })"

declare shell_pty_loop.simps [code] shell_tty_loop.simps [code]

definition shell_poll :: "'a shell_sys_scheme \<Rightarrow> 'a shell_sys_scheme option" where
  "shell_poll s =
     do {
       s1 \<leftarrow> tty_poll_input s;
       let pty_id = session_active_pty (sessions s1);
       if pty_id \<ge> 0 then shell_pty_loop pty_id s1 else shell_tty_loop s1
     }"

section \<open>Printing\<close>

text \<open>A step that only prints: the rest of the state is kept, and so is the console's invariant.\<close>

definition prints :: "'a io_sys_scheme \<Rightarrow> 'a io_sys_scheme \<Rightarrow> bool" where
  "prints s s' \<longleftrightarrow> s' = s\<lparr>con := con s'\<rparr> \<and> (console_inv (con s) \<longrightarrow> console_inv (con s'))"

lemma prints_refl [simp]: "prints s s"
  by (simp add: prints_def)

lemma prints_trans: "prints s s' \<Longrightarrow> prints s' s'' \<Longrightarrow> prints s s''"
  unfolding prints_def by (metis io_sys.surjective io_sys.update_convs(3))

lemma prints_on_con: "(\<And>c. console_inv c \<Longrightarrow> console_inv (f c)) \<Longrightarrow> prints s s' \<Longrightarrow> prints s (on_con f s')"
  by (rule prints_trans [of s s']) (auto simp: prints_def on_con_def)

lemma console_putcs_inv: "console_inv c \<Longrightarrow> console_inv (fold console_putc bs c)"
  by (induction bs arbitrary: c) (auto intro: console_putc_inv)

lemma console_write_dec_inv: "console_inv c \<Longrightarrow> console_inv (console_write_dec v c)"
  by (simp add: console_write_dec_def console_putc_inv console_putcs_inv)

lemma console_write_hex_inv: "console_inv c \<Longrightarrow> console_inv (console_write_hex v c)"
  by (simp add: console_write_hex_def console_putc_inv console_write_inv)

lemma console_clear_inv: "console_inv c \<Longrightarrow> console_inv (console_clear c)"
  using console_clear_inv_safe by (simp add: safe_step_def)

lemmas console_invs = console_putc_inv console_write_inv console_write_dec_inv console_write_hex_inv console_clear_inv

lemma prints_out:
  "prints s s' \<Longrightarrow> prints s (out str s')" "prints s s' \<Longrightarrow> prints s (outln str s')"
  "prints s s' \<Longrightarrow> prints s (outdec v s')" "prints s s' \<Longrightarrow> prints s (outhex v s')"
  "prints s s' \<Longrightarrow> prints s (report label v unit s')" "prints s s' \<Longrightarrow> prints s (shell_prompt s')"
  by (simp_all add: out_def outln_def outdec_def outhex_def report_def shell_prompt_def prints_on_con console_invs)

lemma prints_fold: "(\<And>x s'. x \<in> set xs \<Longrightarrow> prints s s' \<Longrightarrow> prints s (f x s')) \<Longrightarrow> prints s s' \<Longrightarrow> prints s (fold f xs s')"
  by (induction xs arbitrary: s') auto

lemma prints_flags: "prints s s' \<Longrightarrow> prints s (out_flags v names s')"
  by (auto simp: out_flags_def prints_out intro!: prints_fold)

lemma prints_commands:
  "prints s (cmd_help s)" "prints s (cmd_kbdinfo s)" "prints s (cmd_ansi s)" "prints s (cmd_ttyinfo s)"
proof -
  show "prints s (cmd_help s)" unfolding cmd_help_def by (rule prints_fold) (simp_all add: prints_out)
  show "prints s (cmd_ansi s)"
    unfolding cmd_ansi_def by (intro prints_out prints_fold) (simp_all add: prints_on_con prints_out console_invs)
qed (simp_all add: cmd_kbdinfo_def cmd_ttyinfo_def Let_def prints_out prints_flags)

lemma prints_sys_commands:
  "prints s (cmd_meminfo s)" "prints s (cmd_health s)" "prints s (cmd_session s)"
  by (simp_all add: cmd_meminfo_def cmd_health_def cmd_session_def Let_def prints_out)

section \<open>Reading a pseudo-terminal empty\<close>

lemma slave_read_step:
  assumes "pty_inv p" "pty_is_valid i p" "pty_slave_read i False n p = (got, p')"
  shows "pty_inv p'" "pty_is_valid j p' = pty_is_valid j p" "got = take n (to_slave i p)" "to_slave i p' = drop n (to_slave i p)"
  using pty_slave_read_valid [OF assms] pty_only_valid by blast+

lemma drain_pty_spec:
  assumes "pty_inv p" "pty_is_valid i p"
  shows "\<exists>p'. drain_pty i p = Some p' \<and> pty_inv p' \<and> (\<forall>j. pty_is_valid j p' = pty_is_valid j p) \<and> to_slave i p' = []"
  using assms
proof (induction "length (to_slave i p)" arbitrary: p rule: less_induct)
  case less
  obtain got p1 where r: "pty_slave_read i False 128 p = (got, p1)" by fastforce
  note st = slave_read_step [OF less.prems r]
  show ?case
  proof (cases "to_slave i p")
    case Nil
    then have "drain_pty i p = Some p1" using r st(3) by (simp add: drain_pty.simps [of i p])
    then show ?thesis using st Nil by auto
  next
    case (Cons b bs)
    have "drain_pty i p = drain_pty i p1" using r st(3) Cons by (simp add: drain_pty.simps [of i p])
    moreover have "length (to_slave i p1) < length (to_slave i p)" using st(4) Cons by simp
    ultimately show ?thesis using less.hyps [OF _ st(1)] st(2) less.prems(2) by simp
  qed
qed

lemma count_reads_spec:
  assumes "pty_inv p" "pty_is_valid i p"
  shows "\<exists>p'. count_reads i n p = Some (n + length (to_slave i p), p') \<and> pty_inv p' \<and>
    (\<forall>j. pty_is_valid j p' = pty_is_valid j p)"
  using assms
proof (induction "length (to_slave i p)" arbitrary: p n rule: less_induct)
  case less
  obtain got p1 where r: "pty_slave_read i False 256 p = (got, p1)" by fastforce
  note st = slave_read_step [OF less.prems r]
  show ?case
  proof (cases "to_slave i p")
    case Nil
    then have "count_reads i n p = Some (n, p1)" using r st(3) by (simp add: count_reads.simps [of i n p])
    then show ?thesis using st Nil by auto
  next
    case (Cons b bs)
    have "count_reads i n p = count_reads i (n + length got) p1"
      using r st(3) Cons by (simp add: count_reads.simps [of i n p])
    moreover have "length (to_slave i p1) < length (to_slave i p)" using st(4) Cons by simp
    moreover have "length got + length (to_slave i p1) = length (to_slave i p)" by (simp add: st(3,4))
    ultimately show ?thesis
      using less.hyps [of p1 "n + length got", OF _ st(1)] st(2) less.prems(2) by (simp add: add.assoc)
  qed
qed

lemma session_inv_mono:
  "session_inv p t \<Longrightarrow> (\<And>j. pty_is_valid j p \<Longrightarrow> pty_is_valid j p') \<Longrightarrow> session_inv p' t"
  by (fastforce simp: session_inv_def)

text \<open>Allocation opens one more pseudo-terminal and leaves the open ones alone.\<close>

lemma pty_alloc_open:
  assumes "pty_inv p" "pty_alloc p = (t, p')"
  shows "pty_inv p'" "pty_is_valid j p \<Longrightarrow> pty_is_valid j p'"
    and "t < 0 \<Longrightarrow> p' = p \<and> (\<forall>j < PTY_MAX. allocated (g_ptys p ! j))"
    and "\<not> t < 0 \<Longrightarrow> pty_is_valid t p' \<and> \<not> pty_is_valid t p \<and> to_slave t p' = [] \<and>
      (\<forall>j. pty_is_valid j p \<longrightarrow> to_slave j p' = to_slave j p)"
proof -
  note sp = pty_alloc_from_spec [OF assms(2) [unfolded pty_alloc_def]]
  have len: "length (g_ptys p) = PTY_MAX" using assms(1) by (simp add: pty_inv_def)
  show "pty_inv p'" using pty_inv_alloc [OF assms(1)] assms(2) by (simp add: pty_alloc_def)
  show "pty_is_valid j p \<Longrightarrow> pty_is_valid j p'"
    using sp len by (auto simp: pty_is_valid_def nth_list_update pty_slot_open_def)
  show "t < 0 \<Longrightarrow> p' = p \<and> (\<forall>j < PTY_MAX. allocated (g_ptys p ! j))" using sp by auto
  show "\<not> t < 0 \<Longrightarrow> pty_is_valid t p' \<and> \<not> pty_is_valid t p \<and> to_slave t p' = [] \<and>
      (\<forall>j. pty_is_valid j p \<longrightarrow> to_slave j p' = to_slave j p)"
    using sp len
    by (auto simp: pty_is_valid_def to_slave_def slot_m2s_def pty_slot_open_def nth_list_update
        ring_list_empty_iff)
qed

section \<open>The invariant\<close>

text \<open>
  The parts the shell uses are well formed, and the line buffer holds a terminating zero whatever it
  was filled with: its last byte is never written with anything else.
\<close>

definition shell_inv :: "'a shell_sys_scheme \<Rightarrow> bool" where
  "shell_inv s \<longleftrightarrow> io_inv s \<and> kbd_inv (kbd s) \<and> session_inv (ptys s) (sessions s) \<and> hist_inv (history s) \<and>
     length (shell_line s) = SHELL_LINE_MAX \<and> shell_len s < SHELL_LINE_MAX \<and> shell_line s ! (SHELL_LINE_MAX - 1) = 0"

declare shell_inv_def [inv_defs]

definition active_input :: "'a shell_sys_scheme \<Rightarrow> u8 list" where
  "active_input s = to_slave (session_active_pty (sessions s)) (ptys s)"

text \<open>What a command may do to the shell's surroundings: it never leaves more input than it found.\<close>

definition shell_ok :: "'a shell_sys_scheme \<Rightarrow> 'a shell_sys_scheme \<Rightarrow> bool" where
  "shell_ok s s' \<longleftrightarrow> shell_inv s' \<and> sessions s' = sessions s \<and> kbd s' = kbd s \<and> video s' = video s \<and>
     g_ticks s' = g_ticks s \<and> shell_sys.more s' = shell_sys.more s \<and>
     length (active_input s') \<le> length (active_input s)"

lemma shell_ok_refl: "shell_inv s \<Longrightarrow> shell_ok s s"
  by (simp add: shell_ok_def)

lemma shell_ok_trans: "shell_ok s s' \<Longrightarrow> shell_ok s' s'' \<Longrightarrow> shell_ok s s''"
  by (simp add: shell_ok_def)

lemma prints_fields:
  assumes "prints s s'"
  shows "io_sys.more s' = io_sys.more s" "kbd s' = kbd s" "ptys s' = ptys s" "tty s' = tty s"
    "console_inv (con s) \<Longrightarrow> console_inv (con s')"
proof -
  have e: "s' = s\<lparr>con := con s'\<rparr>" using assms by (simp add: prints_def)
  show "io_sys.more s' = io_sys.more s" "kbd s' = kbd s" "ptys s' = ptys s" "tty s' = tty s"
    by (subst e, simp)+
  show "console_inv (con s) \<Longrightarrow> console_inv (con s')" using assms by (simp add: prints_def)
qed

lemma more_fields:
  fixes s s' :: "'a shell_sys_scheme"
  assumes "io_sys.more s' = io_sys.more s"
  shows "sessions s' = sessions s" "video s' = video s" "g_ticks s' = g_ticks s" "history s' = history s"
    "shell_line s' = shell_line s" "shell_len s' = shell_len s" "shell_sys.more s' = shell_sys.more s"
  using assms by (cases s; cases s'; simp)+

lemma prints_ok:
  assumes "prints s s'" "shell_inv s"
  shows "shell_ok s s'"
  using prints_fields [OF assms(1)] more_fields [OF prints_fields(1) [OF assms(1)]] assms(2)
  by (simp add: shell_ok_def inv_defs active_input_def)

lemma inject_spec:
  assumes "io_inv s" "r = tty_test_inject_bytes (Some b) n s"
  shows "io_inv r \<and> kbd r = kbd s \<and> io_sys.more r = io_sys.more s \<and>
    tty_session_pty (tty r) = tty_session_pty (tty s) \<and> (\<forall>j. pty_is_valid j (ptys r) = pty_is_valid j (ptys s))"
  unfolding assms(2)
proof (induction n)
  case (Suc n)
  let ?r = "tty_test_inject_bytes (Some b) n s"
  have "tty_test_inject_bytes (Some b) (Suc n) s = tty_receive (b ! n) ?r"
    by (simp add: tty_test_inject_bytes_def)
  then show ?case using tty_receive_spec [of ?r "b ! n"] Suc by (simp add: tty_receive_open)
qed (simp add: tty_test_inject_bytes_def assms(1))

lemma drain_active_spec:
  assumes "shell_inv s"
  shows "\<exists>s'. drain_active_pty s = Some s' \<and> shell_inv s' \<and>
    (0 \<le> session_active_pty (sessions s) \<longrightarrow> active_input s' = []) \<and>
    io_sys.more s' = io_sys.more s \<and> kbd s' = kbd s \<and> (\<forall>j. pty_is_valid j (ptys s) \<longrightarrow> pty_is_valid j (ptys s'))"
proof (cases "session_active_pty (sessions s) < 0")
  case True
  then show ?thesis using assms by (simp add: drain_active_pty_def)
next
  case False
  let ?i = "session_active_pty (sessions s)"
  have inv: "pty_inv (ptys s)" "session_inv (ptys s) (sessions s)" using assms by (simp_all add: inv_defs)
  then have "pty_is_valid ?i (ptys s)" using session_active_open [OF inv(2)] False by auto
  then obtain p where p: "drain_pty ?i (ptys s) = Some p" "pty_inv p" "\<forall>j. pty_is_valid j p = pty_is_valid j (ptys s)"
    "to_slave ?i p = []" using drain_pty_spec [OF inv(1)] by blast
  then have "session_inv p (sessions s)" using session_inv_mono [OF inv(2)] by blast
  then have "shell_inv (s\<lparr>ptys := p\<rparr>)" using assms p(2) by (simp add: inv_defs)
  then show ?thesis using p False by (simp add: drain_active_pty_def active_input_def)
qed

section \<open>Commands keep the shell going\<close>

lemma shell_inv_ptys:
  assumes "shell_inv s" "pty_inv p" "\<And>j. pty_is_valid j (ptys s) \<Longrightarrow> pty_is_valid j p"
  shows "shell_inv (s\<lparr>ptys := p\<rparr>)"
  using assms session_inv_mono [of "ptys s" "sessions s" p] by (simp add: inv_defs)

lemma shell_inv_inject:
  assumes "shell_inv s" "r = tty_test_inject_bytes (Some b) n s"
  shows "shell_inv r" "io_sys.more r = io_sys.more s" "kbd r = kbd s" "pty_is_valid j (ptys r) = pty_is_valid j (ptys s)"
proof -
  have i: "io_inv s" using assms(1) by (simp add: shell_inv_def)
  note sp = inject_spec [OF i assms(2)]
  show "io_sys.more r = io_sys.more s" "kbd r = kbd s" "pty_is_valid j (ptys r) = pty_is_valid j (ptys s)"
    using sp by simp_all
  have "session_inv (ptys r) (sessions s)"
    using assms(1) sp session_inv_mono [of "ptys s" "sessions s" "ptys r"] by (simp add: shell_inv_def)
  then show "shell_inv r" using sp more_fields [of r s] assms(1) by (simp add: shell_inv_def)
qed

text \<open>
  The self-test: without a free pseudo-terminal it only reports; otherwise it opens one for good and
  drops what was in the active one.
\<close>

lemma cmd_selftest_spec:
  assumes "shell_inv s" "pty_alloc (ptys s) = (t, p0)"
  shows "t < 0 \<Longrightarrow> cmd_selftest s = Some (outln ''selftest: pty alloc failed'' s)"
    and "\<not> t < 0 \<Longrightarrow> \<exists>s'. cmd_selftest s = Some s' \<and> shell_inv s' \<and>
      (0 \<le> session_active_pty (sessions s) \<longrightarrow> active_input s' = []) \<and> io_sys.more s' = io_sys.more s \<and>
      kbd s' = kbd s \<and> (\<forall>j. pty_is_valid j p0 \<longrightarrow> pty_is_valid j (ptys s'))"
proof -
  have inv: "pty_inv (ptys s)" using assms(1) by (simp add: inv_defs)
  note al = pty_alloc_open [OF inv assms(2)]
  show "t < 0 \<Longrightarrow> cmd_selftest s = Some (outln ''selftest: pty alloc failed'' s)"
    using al(3) assms(2) by (simp add: cmd_selftest_def)
  assume t: "\<not> t < 0"
  obtain wrote p1 where w: "pty_master_write t (Some selftest_bytes) 4096 p0 = (wrote, p1)" by fastforce
  have v: "pty_is_valid t p0" using al(4) t by simp
  have p1: "pty_inv p1" "pty_is_valid j p1 = pty_is_valid j p0" for j
    using pty_master_write_valid [OF al(1) v _ w] pty_only_valid by (auto simp: selftest_bytes_def)
  obtain total p2 where r: "count_reads t 0 p1 = Some (total, p2)" "pty_inv p2" "\<forall>j. pty_is_valid j p2 = pty_is_valid j p1"
    using count_reads_spec [OF p1(1), of t 0] p1(2) v by blast
  define s1 where "s1 = s\<lparr>ptys := snd (pty_master_write (-1) (Some selftest_bytes) 1 p2)\<rparr>"
  have bad: "snd (pty_master_write (-1) (Some selftest_bytes) 1 p2) = pty_bad_op p2"
    by (simp add: pty_master_write_def pty_is_valid_def)
  have s1: "shell_inv s1" unfolding s1_def bad
    using r p1(2) al(2) by (intro shell_inv_ptys [OF assms(1)]) auto
  have ps1: "ptys s1 = pty_bad_op p2" unfolding s1_def bad by simp
  define s2 where "s2 = tty_test_inject_bytes (Some selftest_line) 900 s1"
  note s2 = shell_inv_inject [OF s1 s2_def]
  obtain s3 where s3: "drain_active_pty s2 = Some s3" "shell_inv s3"
    "0 \<le> session_active_pty (sessions s2) \<longrightarrow> active_input s3 = []" "io_sys.more s3 = io_sys.more s2" "kbd s3 = kbd s2"
    "\<forall>j. pty_is_valid j (ptys s2) \<longrightarrow> pty_is_valid j (ptys s3)"
    using drain_active_spec [OF s2(1)] by auto
  have m: "io_sys.more s2 = io_sys.more s" "kbd s2 = kbd s" using s2(2,3) by (simp_all add: s1_def)
  obtain str where e: "cmd_selftest s = Some (outln str (out ''selftest: '' s3))"
    using t assms(2) w r(1) s3(1) by (auto simp: cmd_selftest_def s1_def s2_def Let_def)
  have pr: "prints s3 (outln str (out ''selftest: '' s3))" by (simp add: prints_out)
  note f = prints_fields [OF pr] and ok = prints_ok [OF pr s3(2)]
  have "\<forall>j. pty_is_valid j p0 \<longrightarrow> pty_is_valid j (ptys s3)"
    using s3(6) s2(4) r(3) p1(2) ps1 by auto
  then show "\<exists>s'. cmd_selftest s = Some s' \<and> shell_inv s' \<and>
      (0 \<le> session_active_pty (sessions s) \<longrightarrow> active_input s' = []) \<and> io_sys.more s' = io_sys.more s \<and>
      kbd s' = kbd s \<and> (\<forall>j. pty_is_valid j p0 \<longrightarrow> pty_is_valid j (ptys s'))"
    using e ok f s3 m more_fields(1) [OF m(1)] more_fields(1) [OF f(1)]
    by (simp add: shell_ok_def active_input_def)
qed

lemma history_push_inv: "hist_inv h \<Longrightarrow> hist_inv (rust_history_push b n h)"
  using hist_push_inv [of h] by (auto simp: rust_history_push_def hist_inv_def split: option.split)

lemma cmd_selftest_ok:
  assumes "shell_inv s" "0 \<le> session_active_pty (sessions s)"
  shows "\<exists>s'. cmd_selftest s = Some s' \<and> shell_ok s s' \<and> shell_line s' = shell_line s \<and>
    shell_len s' = shell_len s \<and> history s' = history s"
proof -
  obtain t p0 where a: "pty_alloc (ptys s) = (t, p0)" by fastforce
  note sp = cmd_selftest_spec [OF assms(1) a]
  show ?thesis
  proof (cases "t < 0")
    case True
    have pr: "prints s (outln ''selftest: pty alloc failed'' s)" by (simp add: prints_out)
    then show ?thesis using sp(1) [OF True] prints_ok [OF pr assms(1)] more_fields [OF prints_fields(1) [OF pr]] by simp
  next
    case False
    then obtain s' where s': "cmd_selftest s = Some s'" "shell_inv s'" "active_input s' = []"
      "io_sys.more s' = io_sys.more s" "kbd s' = kbd s" using sp(2) assms(2) by blast
    then show ?thesis using more_fields [OF s'(4)] by (simp add: shell_ok_def)
  qed
qed

text \<open>
  Every command ends, keeps the invariant and the line, never leaves more input than it found, and
  is pushed to the history without its leading blanks unless it is blank.
\<close>

definition command_history :: "u8 list \<Rightarrow> history \<Rightarrow> history" where
  "command_history l h = (let cmd = dropWhile (\<lambda>c. c = 0x20) l in
     if cmd = [] then h else (history_push cmd h)\<lparr>HISTORY_COUNT := HISTORY_COUNT h + 1\<rparr>)"

lemma hist_list_count [simp]: "hist_list (h\<lparr>HISTORY_COUNT := n\<rparr>) = hist_list h"
  by (simp add: hist_list_def hist_slot_def)

lemma c_str_empty: "l = [] \<or> hd l = 0 \<Longrightarrow> c_str l = []"
  by (cases l) (auto simp: c_str_def)

lemma c_str_dropWhile: "c_str (dropWhile (\<lambda>c. c = 0x20) l) = dropWhile (\<lambda>c. c = 0x20) (c_str l)"
  by (induction l) (auto simp: c_str_Cons c_str_empty)

lemma take_c_str: "take (length (c_str l)) l = c_str l"
  by (simp add: c_str_def takeWhile_eq_take [symmetric])

lemma execute_command_ok:
  assumes "shell_inv s" "0 \<in> set line" "0 \<le> session_active_pty (sessions s)"
  shows "\<exists>s'. execute_command line s = Some s' \<and> shell_ok s s' \<and> shell_line s' = shell_line s \<and>
    shell_len s' = shell_len s \<and> history s' = command_history (c_str line) (history s)"
proof -
  let ?l = "dropWhile (\<lambda>c. c = 0x20) line"
  have z: "0 \<in> set ?l" using assms(2) by (induction line) auto
  show ?thesis
  proof (cases "hd ?l = 0")
    case True
    then have "c_str ?l = []" using c_str_empty by blast
    then show ?thesis using True assms(1)
      by (simp add: execute_command_def Let_def shell_ok_refl command_history_def c_str_dropWhile)
  next
    case False
    have ne: "?l \<noteq> []" using z by (metis empty_iff list.set(1))
    let ?n = "length (c_str ?l)"
    have n: "strlen ?l = Some ?n" using strlen_c_str [OF z] .
    define s1 where "s1 = s\<lparr>history := rust_history_push (Some ?l) ?n (history s)\<rparr>"
    have cne: "c_str ?l \<noteq> []" using ne False c_str_Cons [of "hd ?l" "tl ?l"] by (metis list.collapse list.distinct(1))
    have h1: "history s1 = command_history (c_str line) (history s)"
      unfolding command_history_def Let_def c_str_dropWhile [symmetric]
      using cne by (simp add: s1_def rust_history_push_def take_c_str)
    have s1: "shell_inv s1" "0 \<le> session_active_pty (sessions s1)"
      using assms(1,3) history_push_inv by (simp_all add: s1_def inv_defs)
    have ok1: "shell_ok s s1" using s1(1) by (simp add: shell_ok_def s1_def active_input_def)
    have l1: "shell_line s1 = shell_line s" "shell_len s1 = shell_len s" by (simp_all add: s1_def)
    have pr: "shell_ok s s' \<and> shell_line s' = shell_line s \<and> shell_len s' = shell_len s \<and>
        history s' = command_history (c_str line) (history s)" if "prints s1 s'" for s'
      using shell_ok_trans [OF ok1 prints_ok [OF that s1(1)]] more_fields [OF prints_fields(1) [OF that]] h1 l1 by simp
    have st: "\<exists>s'. cmd_selftest s1 = Some s' \<and> shell_ok s s' \<and> shell_line s' = shell_line s \<and>
        shell_len s' = shell_len s \<and> history s' = command_history (c_str line) (history s)"
      using cmd_selftest_ok [OF s1] shell_ok_trans [OF ok1] h1 l1 by auto
    have pc: "prints s1 (on_con console_clear s1)" "prints s1 (on_con (console_putc b) s1)"
      "prints s1 (on_con (console_putc b) (on_con (console_write w) s1))"
      "prints s1 (on_con (console_putc b) (on_con (console_write w) (out str s1)))" for b w str
      by (simp_all add: prints_on_con console_invs prints_out)
    show ?thesis
      using ne False n st pr pc prints_commands [of s1] prints_sys_commands [of s1]
      by (auto simp: execute_command_def Let_def s1_def [symmetric])
  qed
qed

lemma nul_in_line:
  "length l = SHELL_LINE_MAX \<Longrightarrow> l ! (SHELL_LINE_MAX - 1) = 0 \<Longrightarrow> (0 :: u8) \<in> set (l[k := 0])"
  using nth_mem [of "SHELL_LINE_MAX - 1" "l[k := 0]"] by (cases "k = SHELL_LINE_MAX - 1") (auto simp: nth_list_update)

lemma shell_byte_ok:
  assumes i: "shell_inv s" and a: "0 \<le> session_active_pty (sessions s)"
  shows "\<exists>s'. shell_byte c s = Some s' \<and> shell_ok s s'"
proof -
  have f: "shell_inv (s\<lparr>shell_len := 0\<rparr>)" "shell_ok s (s\<lparr>shell_len := 0\<rparr>)" if "shell_inv s" for s :: "'a shell_sys_scheme"
    using that by (simp_all add: shell_inv_def shell_ok_def active_input_def io_inv_def)
  consider "c = 0x03" | "c = 0x0C" | "c = 0x0A" | "c \<noteq> 0x03" "c \<noteq> 0x0C" "c \<noteq> 0x0A" by blast
  then show ?thesis
  proof cases
    case 1
    have "prints (s\<lparr>shell_len := 0\<rparr>) (shell_prompt (s\<lparr>shell_len := 0\<rparr>))" by (simp add: prints_out)
    from shell_ok_trans [OF f(2) [OF i] prints_ok [OF this f(1) [OF i]]] show ?thesis using 1 by (simp add: shell_byte_def)
  next
    case 2
    let ?s1 = "shell_prompt (on_con console_clear s)"
    have "prints s ?s1" "prints s (on_con (console_write (shell_line ?s1)) ?s1)"
      by (simp_all add: prints_out prints_on_con console_invs)
    then show ?thesis using 2 prints_ok [OF _ i] by (auto simp: shell_byte_def Let_def)
  next
    case 3
    let ?s1 = "s\<lparr>shell_line := (shell_line s)[shell_len s := 0]\<rparr>"
    have s1: "shell_inv ?s1" "shell_ok s ?s1"
      using i by (auto simp: shell_inv_def shell_ok_def active_input_def io_inv_def nth_list_update)
    have "0 \<in> set (shell_line ?s1)" using i nul_in_line by (simp add: shell_inv_def)
    then obtain s2 where s2: "execute_command (shell_line ?s1) ?s1 = Some s2" "shell_ok ?s1 s2"
      using execute_command_ok [OF s1(1)] a by auto
    have "shell_inv s2" using s2(2) by (simp add: shell_ok_def)
    note f2 = f [OF this]
    have "prints (s2\<lparr>shell_len := 0\<rparr>) (shell_prompt (s2\<lparr>shell_len := 0\<rparr>))" by (simp add: prints_out)
    from prints_ok [OF this f2(1)] show ?thesis
      using 3 s2 shell_ok_trans [OF s1(2) shell_ok_trans [OF s2(2) shell_ok_trans [OF f2(2)]]]
      by (auto simp: shell_byte_def Let_def)
  next
    case 4
    have "shell_ok s (s\<lparr>shell_line := (shell_line s)[shell_len s := c], shell_len := shell_len s + 1\<rparr>)"
      if "shell_len s + 1 < SHELL_LINE_MAX"
      using that i by (auto simp: shell_inv_def shell_ok_def active_input_def io_inv_def)
    then show ?thesis using 4 shell_ok_refl [OF i] by (auto simp: shell_byte_def)
  qed
qed

lemma shell_bytes_ok:
  "shell_inv s \<Longrightarrow> 0 \<le> session_active_pty (sessions s) \<Longrightarrow> \<exists>s'. shell_bytes cs s = Some s' \<and> shell_ok s s'"
proof (induction cs arbitrary: s)
  case Nil
  then show ?case by (simp add: shell_ok_refl)
next
  case (Cons c cs)
  obtain s1 where s1: "shell_byte c s = Some s1" "shell_ok s s1" using shell_byte_ok [OF Cons.prems] by blast
  then obtain s2 where "shell_bytes cs s1 = Some s2" "shell_ok s1 s2"
    using Cons.IH [of s1] Cons.prems(2) by (auto simp: shell_ok_def)
  then show ?case using s1 shell_ok_trans by auto
qed

lemma shell_pty_loop_ok:
  assumes "shell_inv s" "i = session_active_pty (sessions s)" "0 \<le> i"
  shows "\<exists>s'. shell_pty_loop i s = Some s' \<and> shell_ok s s' \<and> active_input s' = []"
  using assms
proof (induction "length (active_input s)" arbitrary: s rule: less_induct)
  case less
  have v: "pty_inv (ptys s)" "pty_is_valid i (ptys s)"
    using less.prems session_active_open [of "ptys s" "sessions s"] by (auto simp: inv_defs)
  obtain got p where r: "pty_slave_read i False 128 (ptys s) = (got, p)" by fastforce
  note st = slave_read_step [OF v r]
  let ?s = "s\<lparr>ptys := p\<rparr>"
  have inv: "shell_inv ?s" using shell_inv_ptys [OF less.prems(1) st(1)] st(2) by blast
  have act: "active_input s = to_slave i (ptys s)" "active_input ?s = to_slave i p"
    using less.prems(2) by (simp_all add: active_input_def)
  have ok: "shell_ok s ?s" using inv act st(4) by (simp add: shell_ok_def)
  show ?case
  proof (cases "to_slave i (ptys s)")
    case Nil
    then have "shell_pty_loop i s = Some ?s" using r st(3) by (simp add: shell_pty_loop.simps [of i s])
    then show ?thesis using ok act st(4) Nil by simp
  next
    case (Cons b bs)
    obtain s1 where s1: "shell_bytes got ?s = Some s1" "shell_ok ?s s1"
      using shell_bytes_ok [OF inv, of got] less.prems by auto
    have "got \<noteq> []" using st(3) Cons by simp
    then have "shell_pty_loop i s = shell_pty_loop i s1" using r s1(1) by (simp add: shell_pty_loop.simps [of i s])
    moreover have "length (active_input s1) < length (active_input s)"
      using s1(2) act st(4) Cons by (auto simp: shell_ok_def)
    moreover have "shell_inv s1" "i = session_active_pty (sessions s1)"
      using s1(2) less.prems(2) by (simp_all add: shell_ok_def)
    ultimately show ?thesis using less.hyps less.prems(3) shell_ok_trans [OF shell_ok_trans [OF ok s1(2)]] by metis
  qed
qed

section \<open>Lines\<close>

text \<open>Printable bytes fill the line buffer up to 127 bytes; the newline terminates and runs the line.\<close>

lemma shell_byte_printable:
  assumes "line_byte b"
  shows "shell_byte b s = Some (if shell_len s + 1 < SHELL_LINE_MAX
    then s\<lparr>shell_line := (shell_line s)[shell_len s := b], shell_len := shell_len s + 1\<rparr> else s)"
proof -
  have "b \<noteq> 0x03 \<and> b \<noteq> 0x0C \<and> b \<noteq> 0x0A \<and> b \<noteq> 0x04 \<and> \<not> ((b < 0x20 \<or> b = 0x7F) \<and> b \<noteq> 0x09)"
    using assms by (auto simp: line_byte_def tty_is_printable_def not_le)
  then show ?thesis by (auto simp: shell_byte_def)
qed

lemma line_byte_nz: "line_byte b \<Longrightarrow> b \<noteq> 0"
  by (auto simp: line_byte_def tty_is_printable_def)

lemma shell_line_fills:
  assumes "list_all line_byte line" "length (shell_line s) = SHELL_LINE_MAX" "shell_len s < SHELL_LINE_MAX"
  shows "\<exists>buf. shell_bytes line s = Some (s\<lparr>shell_line := buf, shell_len := min 127 (shell_len s + length line)\<rparr>) \<and>
    length buf = SHELL_LINE_MAX \<and> buf ! 127 = shell_line s ! 127 \<and>
    take (min 127 (shell_len s + length line)) buf = take 127 (take (shell_len s) (shell_line s) @ line)"
  using assms
proof (induction line arbitrary: s)
  case Nil
  then have "min 127 (shell_len s) = shell_len s" by simp
  then show ?case using Nil by (intro exI [of _ "shell_line s"]) simp
next
  case (Cons b bs)
  show ?case
  proof (cases "shell_len s + 1 < SHELL_LINE_MAX")
    case True
    let ?s = "s\<lparr>shell_line := (shell_line s)[shell_len s := b], shell_len := shell_len s + 1\<rparr>"
    have "take (shell_len s + 1) ((shell_line s)[shell_len s := b]) = take (shell_len s) (shell_line s) @ [b]"
      using Cons.prems by (simp add: take_Suc_conv_app_nth)
    then show ?thesis
      using Cons.IH [of ?s] Cons.prems True by (simp add: shell_byte_printable)
  next
    case False
    then have l: "shell_len s = 127" using Cons.prems by simp
    then show ?thesis using Cons.IH [of s] Cons.prems by (simp add: shell_byte_printable)
  qed
qed

lemma shell_bytes_append: "shell_bytes (xs @ ys) s = do { s1 \<leftarrow> shell_bytes xs s; shell_bytes ys s1 }"
proof (induction xs arbitrary: s)
  case (Cons x xs)
  then show ?case by (cases "shell_byte x s") simp_all
qed simp

lemma shell_runs_line:
  assumes "shell_inv s" "shell_len s = 0" "list_all line_byte line" "length line \<le> 127"
  shows "\<exists>buf. c_str buf = line \<and> length buf = SHELL_LINE_MAX \<and> buf ! 127 = 0 \<and> 0 \<in> set buf \<and>
    shell_bytes (line @ [0x0A]) s =
      do { s2 \<leftarrow> execute_command buf (s\<lparr>shell_len := length line, shell_line := buf\<rparr>); Some (shell_prompt (s2\<lparr>shell_len := 0\<rparr>)) }"
proof -
  have inv: "length (shell_line s) = SHELL_LINE_MAX" "shell_len s < SHELL_LINE_MAX" "shell_line s ! 127 = 0"
    using assms(1,2) by (simp_all add: shell_inv_def)
  obtain b where b: "shell_bytes line s = Some (s\<lparr>shell_line := b, shell_len := length line\<rparr>)"
    "length b = SHELL_LINE_MAX" "b ! 127 = 0" "take (length line) b = line"
    using shell_line_fills [OF assms(3) inv(1,2)] assms(2,4) inv(3) by (auto simp: min_def)
  let ?b = "b[length line := 0]"
  have lt: "length line < length ?b" using b(2) assms(4) by simp
  have nz: "0 \<notin> set line" using assms(3) line_byte_nz by (auto simp: list_all_iff)
  have t: "take (length line) ?b = line" using b(4) by (simp add: list_update_take)
  have "c_str ?b = line"
    using c_str_take [of "length line" ?b] nz lt t by simp
  moreover have "0 \<in> set ?b" using lt nth_mem [OF lt] by simp
  moreover have "?b ! 127 = 0" using b(2,3) by (cases "length line = 127") simp_all
  ultimately show ?thesis
    using b(1,2) by (intro exI [of _ ?b]) (simp add: shell_bytes_append shell_byte_def)
qed

section \<open>Polling\<close>

lemma shell_inv_poll:
  assumes "shell_inv s"
  shows "\<exists>s1. tty_poll_input s = Some s1 \<and> shell_inv s1 \<and> kbd_bytes (kbd s1) = [] \<and> io_sys.more s1 = io_sys.more s \<and>
    tty_session_pty (tty s1) = tty_session_pty (tty s) \<and> (\<forall>j. pty_is_valid j (ptys s1) = pty_is_valid j (ptys s)) \<and>
    (tty_canonical (tty s) \<longrightarrow>
       tty_sink s1 = take 2047 (tty_sink s @ snd (editor_run (kbd_bytes (kbd s)) (tty_editor s))))"
proof -
  have i: "io_inv s" "kbd_inv (kbd s)" using assms by (simp_all add: shell_inv_def)
  obtain s1 where s1: "tty_poll_input s = Some s1" "io_inv s1" "kbd_inv (kbd s1)" "kbd_bytes (kbd s1) = []"
    "io_sys.more s1 = io_sys.more s" "tty_session_pty (tty s1) = tty_session_pty (tty s)"
    "\<forall>j. pty_is_valid j (ptys s1) = pty_is_valid j (ptys s)"
    "tty_canonical (tty s) \<longrightarrow>
       tty_sink s1 = take 2047 (tty_sink s @ snd (editor_run (kbd_bytes (kbd s)) (tty_editor s)))"
    using tty_poll_spec [OF i] by auto
  have "session_inv (ptys s1) (sessions s)"
    using assms s1(7) session_inv_mono [of "ptys s" "sessions s" "ptys s1"] by (simp add: shell_inv_def)
  then have "shell_inv s1" using assms s1(2,3) more_fields [OF s1(5)] by (simp add: shell_inv_def)
  then show ?thesis using s1 by blast
qed

section \<open>Properties\<close>

text \<open>A concrete system: session 1 on pseudo-terminal 0, attached to the terminal; bytes in the keyboard queue.\<close>

definition session_one :: session_state where
  "session_one = \<lparr>g_sessions = \<lparr>in_use = True, session_id = 1, leader_pid = 1, controlling_pty = 0\<rparr> #
     replicate 15 \<lparr>in_use = False, session_id = 0, leader_pid = 0, controlling_pty = 0\<rparr>,
     g_active_session_id = 1, g_session_invalid_ops = 0\<rparr>"

definition shell_zero :: "u8 list \<Rightarrow> shell_sys" where
  "shell_zero typed = \<lparr>kbd = fold kbd_push_byte typed keyboard_zero, ptys = pty_open0, con = console_zero, tty = tty_zero,
     sessions = session_one, video = \<lparr>vmem = sample_vm, g_fb = fb_zero\<rparr>, g_ticks = 0, history = history_new,
     shell_line = replicate 128 0, shell_len = 0\<rparr>"

lemma session_one_facts: "session_active_pty session_one = 0" "session_inv pty_open0 session_one"
proof -
  have u: "[0..<SESSION_MAX] = 0 # [1..<SESSION_MAX]" by (simp add: SESSION_MAX_def upt_rec)
  have f: "session_find 1 session_one = Some 0" unfolding session_find_def u by (simp add: session_one_def)
  then show "session_active_pty session_one = 0" by (simp add: session_active_pty_def session_one_def)
  have "in_use (g_sessions session_one ! i) \<longrightarrow> session_id (g_sessions session_one ! i) = int i + 1 \<and>
      controlling_pty (g_sessions session_one ! i) = 0" if "i < SESSION_MAX" for i
    using that by (cases i) (simp_all add: session_one_def SESSION_MAX_def)
  moreover have "length (g_sessions session_one) = SESSION_MAX" "g_active_session_id session_one = 1"
    by (simp_all add: session_one_def SESSION_MAX_def)
  ultimately show "session_inv pty_open0 session_one"
    using f pty_open0_ready(2) by (simp add: session_inv_def)
qed

lemma kbd_pushed:
  "kbd_inv k \<Longrightarrow> length (kbd_bytes k) + length bs \<le> KBD_BYTE_CAP \<Longrightarrow>
     kbd_inv (fold kbd_push_byte bs k) \<and> kbd_bytes (fold kbd_push_byte bs k) = kbd_bytes k @ bs"
proof (induction bs arbitrary: k)
  case (Cons b bs)
  then show ?case using kbd_push_byte_spec [OF Cons.prems(1), of b] Cons.IH [of "kbd_push_byte b k"] by simp
qed simp

lemma shell_zero_facts:
  assumes "length typed \<le> 100"
  shows "shell_inv (shell_zero typed)" "kbd_bytes (kbd (shell_zero typed)) = typed"
    "session_active_pty (sessions (shell_zero typed)) = 0" "tty_session_pty (tty (shell_zero typed)) = 0"
    "tty_canonical (tty (shell_zero typed))" "tty_editor (shell_zero typed) = (0, [])"
    "active_input (shell_zero typed) = []" "shell_len (shell_zero typed) = 0"
proof -
  have k: "kbd_inv (fold kbd_push_byte typed keyboard_zero)" "kbd_bytes (fold kbd_push_byte typed keyboard_zero) = typed"
    using kbd_pushed [of keyboard_zero typed] keyboard_zero_facts(1,2) assms
    by (simp_all add: KBD_BYTE_CAP_def KBD_BYTE_QUEUE_SIZE_def)
  have "io_inv (shell_zero typed)"
    using io_zero_facts(1) by (simp add: io_inv_def io_zero_def shell_zero_def)
  moreover have "hist_inv history_new" by (simp add: hist_inv_def history_new_def)
  ultimately show "shell_inv (shell_zero typed)"
    using k session_one_facts by (simp add: shell_inv_def) (simp add: shell_zero_def)
  show "kbd_bytes (kbd (shell_zero typed)) = typed" using k by (simp add: shell_zero_def)
  show "session_active_pty (sessions (shell_zero typed)) = 0" "tty_session_pty (tty (shell_zero typed)) = 0"
    "tty_canonical (tty (shell_zero typed))" "tty_editor (shell_zero typed) = (0, [])"
    "active_input (shell_zero typed) = []" "shell_len (shell_zero typed) = 0"
    using session_one_facts pty_open0_ready
    by (simp_all add: shell_zero_def tty_zero_def tty_editor_def active_input_def)
qed

lemma shell_poll_ok:
  assumes "shell_inv s" "0 \<le> session_active_pty (sessions s)"
  shows "\<exists>s'. shell_poll s = Some s' \<and> shell_inv s' \<and> kbd_bytes (kbd s') = [] \<and> active_input s' = [] \<and>
    sessions s' = sessions s \<and> video s' = video s \<and> g_ticks s' = g_ticks s \<and> shell_sys.more s' = shell_sys.more s"
proof -
  obtain s1 where s1: "tty_poll_input s = Some s1" "shell_inv s1" "kbd_bytes (kbd s1) = []" "io_sys.more s1 = io_sys.more s"
    using shell_inv_poll [OF assms(1)] by blast
  note m = more_fields [OF s1(4)]
  obtain s2 where s2: "shell_pty_loop (session_active_pty (sessions s1)) s1 = Some s2" "shell_ok s1 s2" "active_input s2 = []"
    using shell_pty_loop_ok [OF s1(2) refl] assms(2) m by auto
  then have "shell_poll s = Some s2" using s1(1) assms(2) m by (simp add: shell_poll_def)
  then show ?thesis using s2 s1(3) m by (simp add: shell_ok_def)
qed

text \<open>
  \<^verbatim>\<open>shell_poll\<close> always returns to the kernel's idle loop: with a session on a pseudo-terminal, it
  handles everything typed, whatever the commands are, leaves neither keyboard bytes nor terminal
  input behind, and keeps the invariant of every component it uses.
\<close>

theorem shell_poll_returns:
  assumes "shell_inv s" "0 \<le> session_active_pty (sessions s)"
  shows "\<exists>s'. shell_poll s = Some s' \<and> shell_inv s' \<and> kbd_bytes (kbd s') = [] \<and> active_input s' = [] \<and>
    sessions s' = sessions s"
  using shell_poll_ok [OF assms] by blast

theorem shell_poll_returns_witness:
  "\<exists>s'. shell_poll (shell_zero (bytes ''help'' @ [0x0A])) = Some s' \<and> kbd_bytes (kbd s') = [] \<and> active_input s' = []"
  using shell_poll_returns [of "shell_zero (bytes ''help'' @ [0x0A])"] shell_zero_facts [of "bytes ''help'' @ [0x0A]"]
  by (auto simp: bytes_def)

text \<open>
  C39: Every self-test takes one of the eight pseudo-terminals for good, so after a few of them the
  command can only report that allocation failed; and it throws away whatever was typed ahead on the
  active pseudo-terminal.
\<close>

theorem selftest_leaks_pty:
  assumes "shell_inv s" "0 \<le> session_active_pty (sessions s)" "pty_alloc (ptys s) = (t, p)"
  shows "\<exists>s'. cmd_selftest s = Some s' \<and>
    (if t < 0 then s' = outln ''selftest: pty alloc failed'' s
     else \<not> pty_is_valid t (ptys s) \<and> pty_is_valid t (ptys s') \<and>
       (\<forall>j. pty_is_valid j (ptys s) \<longrightarrow> pty_is_valid j (ptys s')) \<and> active_input s' = [])"
proof (cases "t < 0")
  case True
  then show ?thesis using cmd_selftest_spec(1) [OF assms(1,3)] by simp
next
  case False
  have "pty_inv (ptys s)" using assms(1) by (simp add: inv_defs)
  note al = pty_alloc_open [OF this assms(3)]
  show ?thesis using cmd_selftest_spec(2) [OF assms(1,3) False] assms(2) al(2,4) False by auto
qed

theorem selftest_leaks_pty_witness:
  "\<exists>t p s'. pty_alloc (ptys (shell_zero [])) = (t, p) \<and> cmd_selftest (shell_zero []) = Some s' \<and>
     (t < 0 \<or> pty_is_valid t (ptys s') \<and> active_input s' = [])"
proof -
  obtain t p where "pty_alloc (ptys (shell_zero [])) = (t, p)" by fastforce
  then show ?thesis using selftest_leaks_pty [of "shell_zero []"] shell_zero_facts [of "[]"] by (cases "t < 0") auto
qed

end
