(* ===== verification/Commands.thy ===== *)
theory Commands
  imports Shell
begin

text \<open>
  What a line typed at the shell does, from the keyboard queue to the screen
  (\<^verbatim>\<open>kernel/src/core/shell.c\<close>): the terminal echoes it, the shell takes it from the pseudo-terminal, and
  the command it names is run. The commands have a specification of their own, in the bytes they
  print.
\<close>

section \<open>The commands\<close>

datatype command = Help | Clear | Meminfo | Kbdinfo | Ansi | Ttyinfo | Health | Sessioninfo | Selftest
  | Echo "u8 list" | Unknown "u8 list"

text \<open>The command a line without leading blanks names. Only \<^verbatim>\<open>echo\<close> takes arguments.\<close>

definition parse_command :: "u8 list \<Rightarrow> command" where
  "parse_command cmd =
     (if cmd = bytes ''help'' then Help else if cmd = bytes ''clear'' then Clear
      else if cmd = bytes ''meminfo'' then Meminfo else if cmd = bytes ''kbdinfo'' then Kbdinfo
      else if cmd = bytes ''ansi'' then Ansi else if cmd = bytes ''ttyinfo'' then Ttyinfo
      else if cmd = bytes ''health'' then Health else if cmd = bytes ''session'' then Sessioninfo
      else if cmd = bytes ''selftest'' then Selftest
      else if cmd = bytes ''echo'' then Echo []
      else if take 5 cmd = bytes ''echo '' then Echo (drop 5 cmd)
      else Unknown cmd)"

text \<open>The lines of a report: a text, or a label with a number in decimal and its unit.\<close>

definition text_line :: "string \<Rightarrow> u8 list" where
  "text_line str = bytes str @ [0x0A]"

definition number_line :: "string \<Rightarrow> u64 \<Rightarrow> string \<Rightarrow> u8 list" where
  "number_line label v unit = bytes label @ dec_text v @ bytes unit @ [0x0A]"

definition flags_line :: "string \<Rightarrow> u8 \<Rightarrow> (u8 \<times> string) list \<Rightarrow> u8 list" where
  "flags_line label v names = bytes label @ bytes ''0x'' @ hex_text (ucast v) @ bytes '' ('' @
     (if v = 0 then bytes ''none'' else concat (map (\<lambda>(flag, name). if v AND flag \<noteq> 0 then bytes name else []) names)) @
     bytes '')'' @ [0x0A]"

fun command_output :: "command \<Rightarrow> 'a shell_sys_scheme \<Rightarrow> u8 list" where
  "command_output Help s =
     text_line ''Commands:'' @
     text_line ''  help     - show this help'' @
     text_line ''  clear    - clear the screen'' @
     text_line ''  meminfo  - show memory/timer stats'' @
     text_line ''  kbdinfo  - show keyboard modifier/lock state'' @
     text_line ''  ttyinfo  - show tty RX/drop counters'' @
     text_line ''  session  - show active session and controlling pty'' @
     text_line ''  health   - show subsystem fault/overflow counters'' @
     text_line ''  selftest - run input/pty stress self-test'' @
     text_line ''  ansi     - print ANSI color demo'' @
     text_line ''  echo ... - print text''"
| "command_output Meminfo s =
     number_line ''Memory total: '' (pmm_total_kib (pmm (vmem (video s)))) '' KiB'' @
     number_line ''Memory used : '' (pmm_used_kib (pmm (vmem (video s)))) '' KiB'' @
     number_line ''Memory free : '' (pmm_free_kib (pmm (vmem (video s)))) '' KiB'' @
     number_line ''Timer ticks : '' (g_ticks s) '''' @
     number_line ''Rust history entries: '' (rust_history_count (history s)) ''''"
| "command_output Kbdinfo s =
     flags_line ''Modifiers: 0x'' (keyboard_modifiers (kbd s))
       [(KBD_MOD_SHIFT, ''SHIFT ''), (KBD_MOD_CTRL, ''CTRL ''), (KBD_MOD_ALT, ''ALT ''), (KBD_MOD_ALTGR, ''ALTGR ''),
        (KBD_MOD_META, ''META '')] @
     flags_line ''Locks    : 0x'' (keyboard_locks (kbd s))
       [(KBD_LOCK_CAPS, ''CAPS ''), (KBD_LOCK_NUM, ''NUM ''), (KBD_LOCK_SCROLL, ''SCROLL '')]"
| "command_output Ansi s =
     text_line ''ANSI demo:'' @ bytes ''  '' @
     colored ''1;31'' ''red'' @ bytes '' '' @ colored ''1;32'' ''green'' @ bytes '' '' @ colored ''1;33'' ''yellow'' @ bytes '' '' @
     colored ''1;34'' ''blue'' @ bytes '' '' @ colored ''1;35'' ''magenta'' @ bytes '' '' @ colored ''1;36'' ''cyan'' @ [0x0A] @
     text_line ''UTF-8 sample bytes: cafe, naive, jalapeno''"
| "command_output Ttyinfo s =
     number_line ''TTY rx bytes: '' (tty_rx_bytes s) '''' @ number_line ''TTY dropped : '' (tty_dropped_bytes s) '''' @
     number_line ''TTY line ovf : '' (tty_line_overflows s) '''' @ number_line ''TTY esc disc : '' (tty_escape_discards s) ''''"
| "command_output Health s =
     number_line ''KBD scancodes : '' (keyboard_rx_scancodes (kbd s)) '''' @
     number_line ''KBD drop byte : '' (keyboard_dropped_bytes (kbd s)) '''' @
     number_line ''KBD drop event: '' (keyboard_dropped_events (kbd s)) '''' @
     number_line ''TTY dropped   : '' (tty_dropped_bytes s) '''' @
     number_line ''PTY dropped   : '' (pty_dropped_bytes (ptys s)) '''' @
     number_line ''PTY invalid   : '' (pty_invalid_ops (ptys s)) '''' @
     number_line ''Session invalid: '' (session_invalid_ops (sessions s)) ''''"
| "command_output Sessioninfo s =
     number_line ''Session active: '' (word_of_int (max 0 (session_active_id (sessions s)))) '''' @
     number_line ''Session pty   : '' (word_of_int (max 0 (session_active_pty (sessions s)))) ''''"
| "command_output (Echo w) s = w @ [0x0A]"
| "command_output (Unknown w) s = bytes ''Unknown command: '' @ w @ [0x0A]"
| "command_output Clear s = []"
| "command_output Selftest s = []"

text \<open>
  The effect of a command: \<^verbatim>\<open>clear\<close> clears the console, \<^verbatim>\<open>selftest\<close> runs the self-test, every other command
  writes its output to the console and changes nothing else.
\<close>

definition show_text :: "u8 list \<Rightarrow> 'a io_sys_scheme \<Rightarrow> 'a io_sys_scheme" where
  "show_text bs = on_con (fold console_putc bs)"

definition run_command :: "command \<Rightarrow> 'a shell_sys_scheme \<Rightarrow> 'a shell_sys_scheme option" where
  "run_command c s =
     (if c = Clear then Some (on_con console_clear s) else if c = Selftest then cmd_selftest s
      else Some (show_text (command_output c s) s))"

text \<open>\<^verbatim>\<open>"walu"\<close> in green and \<^verbatim>\<open>"> "\<close>.\<close>

definition prompt_text :: "u8 list" where
  "prompt_text = 0x1B # bytes ''[1;32mwalu'' @ 0x1B # bytes ''[0m> ''"

section \<open>The shell's commands print their output\<close>

lemma show_text_append: "show_text ys (show_text xs s) = show_text (xs @ ys) s"
  by (simp add: show_text_def on_con_def)

lemma show_text_Nil: "show_text [] s = s"
  by (simp add: show_text_def on_con_def)

lemma of_char_zero: "(of_char c :: u8) = 0 \<longleftrightarrow> c = CHR 0x00"
  by (cases c) (auto simp: of_char_def horner_sum_simps of_bool_def split: if_splits)

lemma no_nul_bytes [simp]: "0 \<in> set (bytes str) \<longleftrightarrow> CHR 0x00 \<in> set str"
  unfolding bytes_def by (induction str) (auto simp: of_char_zero)

lemma write_text:
  "0 \<notin> set bs \<Longrightarrow> on_con (console_write bs) s = show_text bs s"
  "0 \<notin> set bs \<Longrightarrow> on_con (console_write (bs @ [0])) s = show_text bs s"
  "0 \<notin> set bs \<Longrightarrow> on_con (console_write (bs @ [0x0A, 0])) s = show_text (bs @ [0x0A]) s"
proof -
  have c: "c_str (xs @ [0]) = xs" if "0 \<notin> set xs" for xs :: "u8 list"
    using that unfolding c_str_def by (subst takeWhile_append2) auto
  show "0 \<notin> set bs \<Longrightarrow> on_con (console_write bs) s = show_text bs s"
    "0 \<notin> set bs \<Longrightarrow> on_con (console_write (bs @ [0])) s = show_text bs s"
    "0 \<notin> set bs \<Longrightarrow> on_con (console_write (bs @ [0x0A, 0])) s = show_text (bs @ [0x0A]) s"
    using c [of bs] c [of "bs @ [0x0A]"]
    by (simp_all add: console_write_def show_text_def on_con_def c_str_no_nul)
qed

lemma out_text:
  "CHR 0x00 \<notin> set str \<Longrightarrow> out str s = show_text (bytes str) s"
  "CHR 0x00 \<notin> set str \<Longrightarrow> outln str s = show_text (text_line str) s"
  "outdec v s = show_text (dec_text v) s" "outhex v s = show_text (bytes ''0x'' @ hex_text v) s"
  "on_con (console_putc b) s = show_text [b] s"
proof -
  show "CHR 0x00 \<notin> set str \<Longrightarrow> out str s = show_text (bytes str) s"
    "CHR 0x00 \<notin> set str \<Longrightarrow> outln str s = show_text (text_line str) s"
    by (simp_all only: out_def outln_def text_line_def c_lit_def write_text no_nul_bytes not_False_eq_True)
  show "outdec v s = show_text (dec_text v) s" "outhex v s = show_text (bytes ''0x'' @ hex_text v) s"
    "on_con (console_putc b) s = show_text [b] s"
    by (simp_all only: outdec_def outhex_def console_write_dec_text console_write_hex_text show_text_def on_con_def) simp
qed

lemma report_text:
  "CHR 0x00 \<notin> set label \<Longrightarrow> CHR 0x00 \<notin> set unit \<Longrightarrow> report label v unit s = show_text (number_line label v unit) s"
  by (simp add: report_def out_text show_text_append number_line_def text_line_def)

lemma out_flags_text:
  assumes "list_all (\<lambda>(flag, name). CHR 0x00 \<notin> set name) names"
  shows "out_flags v names s = show_text (if v = 0 then bytes ''none''
    else concat (map (\<lambda>(flag, name). if v AND flag \<noteq> 0 then bytes name else []) names)) s"
proof -
  have "fold (\<lambda>(flag, name) s. if v AND flag \<noteq> 0 then out name s else s) names s =
      show_text (concat (map (\<lambda>(flag, name). if v AND flag \<noteq> 0 then bytes name else []) names)) s"
    using assms by (induction names arbitrary: s) (auto simp: out_text show_text_append show_text_Nil)
  then show ?thesis by (simp add: out_flags_def out_text)
qed

lemma colored_no_nul: "CHR 0x00 \<notin> set a \<Longrightarrow> CHR 0x00 \<notin> set b \<Longrightarrow> 0 \<notin> set (colored a b)"
  unfolding colored_def by simp

lemma print_commands_text:
  "cmd_help s = show_text (command_output Help s) s" "cmd_meminfo s = show_text (command_output Meminfo s) s"
  "cmd_kbdinfo s = show_text (command_output Kbdinfo s) s" "cmd_ansi s = show_text (command_output Ansi s) s"
  "cmd_ttyinfo s = show_text (command_output Ttyinfo s) s" "cmd_health s = show_text (command_output Health s) s"
  "cmd_session s = show_text (command_output Sessioninfo s) s"
proof -
  show "cmd_help s = show_text (command_output Help s) s" by (simp add: cmd_help_def out_text show_text_append)
  show "cmd_meminfo s = show_text (command_output Meminfo s) s" "cmd_ttyinfo s = show_text (command_output Ttyinfo s) s"
    "cmd_health s = show_text (command_output Health s) s" "cmd_session s = show_text (command_output Sessioninfo s) s"
    by (simp_all add: cmd_meminfo_def cmd_ttyinfo_def cmd_health_def cmd_session_def Let_def report_text show_text_append max_def)
  show "cmd_kbdinfo s = show_text (command_output Kbdinfo s) s"
    by (simp add: cmd_kbdinfo_def Let_def out_text out_flags_text show_text_append flags_line_def text_line_def
        del: concat.simps list.map)
  have "0 \<notin> set (bytes ''  '' @ colored ''1;31'' ''red'' @ bytes '' '')" "0 \<notin> set (colored ''1;32'' ''green'' @ bytes '' '')"
    "0 \<notin> set (colored ''1;33'' ''yellow'' @ bytes '' '')" "0 \<notin> set (colored ''1;34'' ''blue'' @ bytes '' '')"
    "0 \<notin> set (colored ''1;35'' ''magenta'' @ bytes '' '')" "0 \<notin> set (colored ''1;36'' ''cyan'')"
    by (simp_all add: colored_no_nul)
  note w = this [THEN write_text(2)] this [THEN write_text(3)]
  show "cmd_ansi s = show_text (command_output Ansi s) s"
    by (simp add: cmd_ansi_def c_lit_def out_text show_text_append w [unfolded append_assoc])
qed

lemma shell_prompt_text: "shell_prompt s = show_text prompt_text s"
proof -
  have "0 \<notin> set (colored ''1;32'' ''walu'' @ bytes ''> '')" by (simp add: colored_no_nul)
  from write_text(2) [OF this, of s] show ?thesis
    by (simp add: shell_prompt_def c_lit_def prompt_text_def colored_def bytes_def)
qed

text \<open>\<^verbatim>\<open>execute_command\<close> records the line without its leading blanks and runs the command it names.\<close>

lemma c_str_drop: "n \<le> length (c_str l) \<Longrightarrow> c_str (drop n l) = drop n (c_str l)"
  by (induction n arbitrary: l) (auto simp: c_str_def neq_Nil_conv split: if_splits, case_tac l, auto)

lemma strcmp_lit:
  "0 \<in> set l \<Longrightarrow> CHR 0x00 \<notin> set str \<Longrightarrow> strcmp l (c_lit str) = Some 0 \<longleftrightarrow> c_str l = bytes str"
  using strcmp_eq [of l "c_lit str"] by (simp add: c_lit_def [symmetric]) (simp add: c_lit_def)

lemma strncmp_echo: "0 \<in> set l \<Longrightarrow> strncmp l (c_lit ''echo '') 5 = Some 0 \<longleftrightarrow> take 5 (c_str l) = bytes ''echo ''"
  using strncmp_eq [of l "c_lit ''echo ''" 5] by (auto simp: c_lit_def) (simp_all add: bytes_def c_str_def)

lemma run_parsed:
  "run_command (parse_command cmd) s =
     (if cmd = bytes ''help'' then Some (cmd_help s) else if cmd = bytes ''clear'' then Some (on_con console_clear s)
      else if cmd = bytes ''meminfo'' then Some (cmd_meminfo s) else if cmd = bytes ''kbdinfo'' then Some (cmd_kbdinfo s)
      else if cmd = bytes ''ansi'' then Some (cmd_ansi s) else if cmd = bytes ''ttyinfo'' then Some (cmd_ttyinfo s)
      else if cmd = bytes ''health'' then Some (cmd_health s) else if cmd = bytes ''session'' then Some (cmd_session s)
      else if cmd = bytes ''selftest'' then cmd_selftest s
      else if cmd = bytes ''echo'' then Some (show_text [0x0A] s)
      else if take 5 cmd = bytes ''echo '' then Some (show_text (drop 5 cmd @ [0x0A]) s)
      else Some (show_text (bytes ''Unknown command: '' @ cmd @ [0x0A]) s))"
proof -
  have "run_command Help s = Some (cmd_help s)" "run_command Clear s = Some (on_con console_clear s)"
    "run_command Meminfo s = Some (cmd_meminfo s)" "run_command Kbdinfo s = Some (cmd_kbdinfo s)"
    "run_command Ansi s = Some (cmd_ansi s)" "run_command Ttyinfo s = Some (cmd_ttyinfo s)"
    "run_command Health s = Some (cmd_health s)" "run_command Sessioninfo s = Some (cmd_session s)"
    "run_command Selftest s = cmd_selftest s" "run_command (Echo v) s = Some (show_text (v @ [0x0A]) s)"
    "run_command (Unknown v) s = Some (show_text (bytes ''Unknown command: '' @ v @ [0x0A]) s)" for v
    unfolding print_commands_text by (simp_all only: run_command_def command.distinct if_False if_True refl command_output.simps)
  then show ?thesis unfolding parse_command_def by (simp only: if_distrib [of "\<lambda>c. run_command c s"] append_Nil cong: if_cong)
qed

lemma out_unknown: "out ''Unknown command: '' s = show_text (bytes ''Unknown command: '') s"
  by (simp add: out_text)

lemma execute_command_runs:
  assumes "0 \<in> set line" "cmd = dropWhile (\<lambda>c. c = 0x20) (c_str line)"
  shows "execute_command line s = (if cmd = [] then Some s
    else run_command (parse_command cmd) (s\<lparr>history := command_history (c_str line) (history s)\<rparr>))"
proof -
  let ?l = "dropWhile (\<lambda>c. c = 0x20) line"
  have z: "0 \<in> set ?l" using assms(1) by (induction line) auto
  then have ne: "?l \<noteq> []" by (metis empty_iff list.set(1))
  have c: "c_str ?l = cmd" using assms(2) by (simp add: c_str_dropWhile)
  show ?thesis
  proof (cases "cmd = []")
    case True
    then have "hd ?l = 0" using c c_str_Cons [of "hd ?l" "tl ?l"] ne by (metis list.collapse list.distinct(1))
    then show ?thesis using True by (simp add: execute_command_def Let_def)
  next
    case False
    then have h: "hd ?l \<noteq> 0" using c c_str_empty by metis
    let ?s = "s\<lparr>history := command_history (c_str line) (history s)\<rparr>"
    have s: "s\<lparr>history := rust_history_push (Some ?l) (length cmd) (history s)\<rparr> = ?s"
      using False c take_c_str [of ?l]
      by (simp add: command_history_def Let_def rust_history_push_def flip: assms(2))
    have n: "strlen ?l = Some (length cmd)" using strlen_c_str [OF z] c by simp
    have echo: "0 \<notin> set cmd" using c by (metis c_str_free)
    have w: "on_con (console_write ?l) t = show_text cmd t" for t :: "'a shell_sys_scheme"
      using c by (simp add: console_write_def show_text_def on_con_def)
    have w5: "on_con (console_write (drop 5 ?l)) t = show_text (drop 5 cmd) t" if "take 5 cmd = bytes ''echo ''" for t :: "'a shell_sys_scheme"
    proof -
      have "length (take 5 cmd) = 5" unfolding that by (simp add: bytes_def)
      then show ?thesis using c_str_drop [of 5 ?l] c by (simp add: console_write_def show_text_def on_con_def)
    qed
    have lit: "strcmp ?l (c_lit ''help'') = Some 0 \<longleftrightarrow> cmd = bytes ''help''" "strcmp ?l (c_lit ''clear'') = Some 0 \<longleftrightarrow> cmd = bytes ''clear''"
      "strcmp ?l (c_lit ''meminfo'') = Some 0 \<longleftrightarrow> cmd = bytes ''meminfo''" "strcmp ?l (c_lit ''kbdinfo'') = Some 0 \<longleftrightarrow> cmd = bytes ''kbdinfo''"
      "strcmp ?l (c_lit ''ansi'') = Some 0 \<longleftrightarrow> cmd = bytes ''ansi''" "strcmp ?l (c_lit ''ttyinfo'') = Some 0 \<longleftrightarrow> cmd = bytes ''ttyinfo''"
      "strcmp ?l (c_lit ''health'') = Some 0 \<longleftrightarrow> cmd = bytes ''health''" "strcmp ?l (c_lit ''session'') = Some 0 \<longleftrightarrow> cmd = bytes ''session''"
      "strcmp ?l (c_lit ''selftest'') = Some 0 \<longleftrightarrow> cmd = bytes ''selftest''" "strcmp ?l (c_lit ''echo'') = Some 0 \<longleftrightarrow> cmd = bytes ''echo''"
      "strncmp ?l (c_lit ''echo '') 5 = Some 0 \<longleftrightarrow> take 5 cmd = bytes ''echo ''"
      using c by (simp_all add: strcmp_lit [OF z] strncmp_echo [OF z])
    have "execute_command line s = run_command (parse_command cmd) ?s"
      unfolding execute_command_def Let_def run_parsed using ne h
      by (simp only: n s lit Option.bind_lunit if_False not_False_eq_True simp_thms w out_text(5) out_unknown show_text_append append_assoc)
        (simp only: w5 show_text_append cong: if_cong)
    then show ?thesis using False by simp
  qed
qed

section \<open>The echo of a line\<close>

lemma tty_put_con: "con (tty_put b s) = con s"
  by (simp add: tty_put_def tty_enqueue_read_def on_tty_def Let_def split_beta)

lemma tty_flush_con: "con (tty_flush_line_buffer s) = con s"
proof -
  have "con (for_range 0 n (\<lambda>i s. tty_put (tty_line_buffer (tty s) ! i) s) s) = con s" for n
    by (induction n) (simp_all add: tty_put_con)
  then show ?thesis by (simp add: tty_flush_line_buffer_def on_tty_def)
qed

text \<open>A byte of a line is echoed as it is.\<close>

lemma canonical_echo:
  assumes "io_inv s" "tty_editor s = (0, l)" "length l < 511" "line_byte b \<or> b = 0x0A"
  shows "con (tty_handle_canonical b s) = (if tty_echo (tty s) then console_putc b (con s) else con s)"
proof -
  have "tty_line_len (tty s) = length l" "tty_escape_state (tty s) = 0"
    using assms(1,2) by (auto simp: tty_editor_def io_inv_def tty_inv_def)
  moreover have "tty_echo (tty_append c t) = tty_echo t" for c t by (simp add: tty_append_def)
  moreover have "b \<noteq> 0x1B" "b \<noteq> 0x03" "b \<noteq> 0x0C" "b \<noteq> 0x08" "b \<noteq> 0x7F" "b \<noteq> 0x04" "b = 0x0A \<or> tty_is_printable b"
    using assms(4) by (auto simp: line_byte_def tty_is_printable_def)
  ultimately show ?thesis
    using assms(3)
    by (auto simp: tty_handle_canonical_def tty_handle_escape_filter_def Let_def tty_flush_con tty_echo_with_def on_tty_def on_con_def)
qed

lemma tty_receive_echo:
  assumes "io_inv s" "tty_canonical (tty s)" "tty_editor s = (0, l)" "length l < 511" "line_byte b \<or> b = 0x0A"
  shows "con (tty_receive b s) = (if tty_echo (tty s) then console_putc b (con s) else con s)"
    and "tty_echo (tty (tty_receive b s)) = tty_echo (tty s)"
proof -
  let ?s = "on_tty (\<lambda>t. t\<lparr>tty_rx_count := tty_rx_count (tty s) + 1\<rparr>) s"
  have s: "tty_receive b s = tty_handle_canonical b ?s"
    using assms(2) by (simp add: tty_receive_def on_tty_def)
  note r = on_tty_rx [OF assms(1), of "tty_rx_count (tty s) + 1"]
  have f: "con ?s = con s" "tty_echo (tty ?s) = tty_echo (tty s)" by (simp_all add: on_tty_def)
  show "con (tty_receive b s) = (if tty_echo (tty s) then console_putc b (con s) else con s)"
    unfolding s using canonical_echo [OF r(1) _ assms(4,5)] r(2) assms(3) f by simp
  show "tty_echo (tty (tty_receive b s)) = tty_echo (tty s)"
    unfolding s using tty_handle_canonical_edits [OF r(1), of b] f by (simp add: edits_def)
qed

lemma tty_poll_echo:
  assumes "io_inv s" "kbd_inv (kbd s)" "tty_canonical (tty s)" "tty_editor s = (0, l)" "kbd_bytes (kbd s) = line @ [0x0A]"
    and "list_all line_byte line" "length l + length line < 511" "tty_poll_input s = Some s1"
  shows "con s1 = (if tty_echo (tty s) then fold console_putc (line @ [0x0A]) (con s) else con s)"
  using assms
proof (induction line arbitrary: s l)
  case Nil
  then obtain k where p: "keyboard_pop_char (kbd s) = Some (0x0A, k)" "kbd_bytes k = []" "kbd_inv k"
    using keyboard_pop_char_spec [OF Nil.prems(2)] by (cases "keyboard_pop_char (kbd s)") fastforce+
  let ?s = "s\<lparr>kbd := k\<rparr>"
  have i: "io_inv ?s" "tty_editor ?s = (0, l)" using Nil.prems(1,4) by (simp_all add: io_inv_def tty_editor_def)
  have "kbd (tty_receive 0x0A ?s) = k" using tty_receive_spec [OF i(1), of "0x0A"] by simp
  then have "keyboard_pop_char (kbd (tty_receive 0x0A ?s)) = None" using keyboard_pop_char_spec(1) [OF p(3)] p(2) by simp
  then have "s1 = tty_receive 0x0A ?s"
    using Nil.prems(8) by (simp add: tty_poll_input.simps [of s] p(1) tty_poll_input.simps [of "tty_receive 0x0A ?s"])
  then show ?case using tty_receive_echo(1) [OF i(1) _ i(2)] Nil.prems(3,7) by simp
next
  case (Cons b bs)
  then obtain k where p: "keyboard_pop_char (kbd s) = Some (b, k)" "kbd_bytes k = bs @ [0x0A]" "kbd_inv k"
    using keyboard_pop_char_spec [OF Cons.prems(2)] by (cases "keyboard_pop_char (kbd s)") fastforce+
  let ?s = "s\<lparr>kbd := k\<rparr>" and ?r = "tty_receive b (s\<lparr>kbd := k\<rparr>)"
  have i: "io_inv ?s" "tty_editor ?s = (0, l)" "tty_canonical (tty ?s)" using Cons.prems(1,3,4) by (simp_all add: io_inv_def tty_editor_def)
  have b: "line_byte b" "length l < 511" using Cons.prems(6,7) by simp_all
  note r = tty_receive_spec [OF i(1), of b] and e = tty_receive_echo [OF i(1,3,2) b(2) disjI1 [OF b(1)]]
  have ed: "tty_editor ?r = (0, l @ [b])" using r i(2,3) editor_line_step [OF b(1), of l] b(2) by simp
  have "tty_poll_input ?r = Some s1" using Cons.prems(8) by (simp add: tty_poll_input.simps [of s] p(1))
  then have "con s1 = (if tty_echo (tty ?r) then fold console_putc (bs @ [0x0A]) (con ?r) else con ?r)"
    using Cons.IH [OF _ _ _ ed] r i(3) p(2,3) Cons.prems(6,7) by simp
  then show ?case using e by simp
qed

section \<open>From the keyboard queue to the prompt\<close>

lemma shell_pty_loop_empty:
  assumes "shell_inv s" "0 \<le> session_active_pty (sessions s)" "active_input s = []"
  shows "\<exists>p. shell_pty_loop (session_active_pty (sessions s)) s = Some (s\<lparr>ptys := p\<rparr>)"
proof -
  let ?i = "session_active_pty (sessions s)"
  have v: "pty_inv (ptys s)" "pty_is_valid ?i (ptys s)"
    using assms session_active_open [of "ptys s" "sessions s"] by (auto simp: inv_defs)
  obtain got p where r: "pty_slave_read ?i False 128 (ptys s) = (got, p)" by fastforce
  then have "got = []" using slave_read_step(3) [OF v r] assms(3) by (simp add: active_input_def)
  then show ?thesis using r by (auto simp: shell_pty_loop.simps [of ?i s])
qed

text \<open>What running a line does to the history.\<close>

lemma command_history_line:
  assumes "hist_inv h" "cmd = dropWhile (\<lambda>c. c = 0x20) line" "cmd \<noteq> []"
  shows "hist_list (command_history line h) =
      (if hist_count h < HISTORY_SLOTS then hist_list h else tl (hist_list h)) @ [take 63 cmd]"
    and "rust_history_count (command_history line h) = rust_history_count h + 1"
  unfolding command_history_def Let_def assms(2) [symmetric]
  using hist_push_list [OF assms(1), of cmd] assms(3) by (simp_all add: rust_history_count_def)

text \<open>
  The state the command runs in has the history with the line and is otherwise, as far as commands
  look at it, the one the read loop was entered with.
\<close>

definition runs_in :: "history \<Rightarrow> 'a shell_sys_scheme \<Rightarrow> 'a shell_sys_scheme \<Rightarrow> bool" where
  "runs_in h s t \<longleftrightarrow> history t = h \<and> con t = con s \<and> kbd t = kbd s \<and> tty t = tty s \<and> sessions t = sessions s \<and>
     video t = video s \<and> g_ticks t = g_ticks s \<and> pty_dropped_bytes (ptys t) = pty_dropped_bytes (ptys s) \<and>
     pty_invalid_ops (ptys t) = pty_invalid_ops (ptys s)"

lemma slave_read_counters:
  assumes "pty_is_valid i p" "pty_slave_read i False n p = (got, p')"
  shows "pty_dropped_bytes p' = pty_dropped_bytes p \<and> pty_invalid_ops p' = pty_invalid_ops p"
  using assms by (auto simp: pty_slave_read_def pty_dropped_bytes_def pty_invalid_ops_def Let_def split: prod.splits if_splits)

lemma shell_line_round:
  assumes "shell_inv s" "0 \<le> session_active_pty (sessions s)" "shell_len s = 0" "active_input s = line @ [0x0A]"
    "list_all line_byte line" "length line \<le> 127" "cmd = dropWhile (\<lambda>c. c = 0x20) line" "cmd \<noteq> []"
  shows "\<exists>t u s'. runs_in (command_history line (history s)) s t \<and> run_command (parse_command cmd) t = Some u \<and>
    shell_pty_loop (session_active_pty (sessions s)) s = Some s' \<and> con s' = fold console_putc prompt_text (con u) \<and>
    history s' = history t \<and> shell_len s' = 0"
proof -
  let ?i = "session_active_pty (sessions s)"
  have v: "pty_inv (ptys s)" "pty_is_valid ?i (ptys s)"
    using assms(1,2) session_active_open [of "ptys s" "sessions s"] by (auto simp: inv_defs)
  obtain got p where r: "pty_slave_read ?i False 128 (ptys s) = (got, p)" by fastforce
  note st = slave_read_step [OF v r]
  have got: "got = line @ [0x0A]" "to_slave ?i p = []" using st(3,4) assms(4,6) by (simp_all add: active_input_def)
  let ?s = "s\<lparr>ptys := p\<rparr>"
  have inv: "shell_inv ?s" using shell_inv_ptys [OF assms(1) st(1)] st(2) by blast
  obtain buf where buf: "c_str buf = line" "length buf = SHELL_LINE_MAX" "buf ! 127 = 0" "0 \<in> set buf"
    "shell_bytes (line @ [0x0A]) ?s = do { s2 \<leftarrow> execute_command buf (?s\<lparr>shell_len := length line, shell_line := buf\<rparr>);
       Some (shell_prompt (s2\<lparr>shell_len := 0\<rparr>)) }"
    using shell_runs_line [OF inv _ assms(5,6)] assms(3) by auto
  let ?b = "?s\<lparr>shell_len := length line, shell_line := buf\<rparr>"
  let ?t = "?b\<lparr>history := command_history line (history s)\<rparr>"
  have bi: "shell_inv ?b" using inv buf(2,3) assms(6) by (simp add: inv_defs)
  obtain u where u: "execute_command buf ?b = Some u" "shell_ok ?b u" "history u = command_history line (history s)"
    using execute_command_ok [OF bi buf(4)] assms(2) buf(1) by auto
  have run: "run_command (parse_command cmd) ?t = Some u"
    using u(1) [unfolded execute_command_runs [OF buf(4), unfolded buf(1), OF assms(7)]] assms(8) by simp
  have t: "runs_in (command_history line (history s)) s ?t"
    using slave_read_counters [OF v(2) r] by (simp add: runs_in_def)
  let ?r = "shell_prompt (u\<lparr>shell_len := 0\<rparr>)"
  have con: "con ?r = fold console_putc prompt_text (con u)" unfolding shell_prompt_text by (simp add: show_text_def on_con_def)
  have pr: "prints (u\<lparr>shell_len := 0\<rparr>) ?r" by (simp add: prints_out)
  have "shell_inv u" using u(2) by (simp add: shell_ok_def)
  then have i2: "shell_inv (u\<lparr>shell_len := 0\<rparr>)" by (simp add: inv_defs)
  note m = more_fields [OF prints_fields(1) [OF pr]] and ok = prints_ok [OF pr i2]
  have "active_input ?b = []" using got(2) by (simp add: active_input_def)
  then have "active_input u = []" using u(2) by (simp add: shell_ok_def)
  then have e: "active_input ?r = []" using ok by (auto simp: shell_ok_def active_input_def)
  have ses: "sessions ?r = sessions s" using m u(2) by (simp add: shell_ok_def)
  have "shell_inv ?r" using ok by (simp add: shell_ok_def)
  then obtain p' where "shell_pty_loop ?i ?r = Some (?r\<lparr>ptys := p'\<rparr>)"
    using shell_pty_loop_empty [of ?r] e ses assms(2) by auto
  moreover have "shell_pty_loop ?i s = shell_pty_loop ?i ?r"
    using r got(1) buf(5) u(1) by (simp add: shell_pty_loop.simps [of ?i s])
  ultimately have "shell_pty_loop ?i s = Some (?r\<lparr>ptys := p'\<rparr>)" by simp
  then show ?thesis
    using t run con m u(3) by (intro exI [of _ ?t] exI [of _ u] exI [of _ "?r\<lparr>ptys := p'\<rparr>"]) simp
qed

lemma typed_line_spec:
  assumes "shell_inv s" "0 \<le> session_active_pty (sessions s)" "tty_session_pty (tty s) = session_active_pty (sessions s)"
    and "tty_canonical (tty s)" "tty_editor s = (0, [])" "active_input s = []" "shell_len s = 0"
    and "kbd_bytes (kbd s) = line @ [0x0A]" "list_all line_byte line" "length line \<le> 127"
    and "cmd = dropWhile (\<lambda>c. c = 0x20) line" "cmd \<noteq> []"
  shows "\<exists>s1 t u s'. tty_poll_input s = Some s1 \<and>
    con s1 = (if tty_echo (tty s) then fold console_putc (line @ [0x0A]) (con s) else con s) \<and>
    sessions s1 = sessions s \<and> video s1 = video s \<and> g_ticks s1 = g_ticks s \<and>
    runs_in (command_history line (history s)) s1 t \<and> run_command (parse_command cmd) t = Some u \<and>
    shell_poll s = Some s' \<and> con s' = fold console_putc prompt_text (con u) \<and> history s' = history t \<and> shell_len s' = 0"
proof -
  let ?i = "session_active_pty (sessions s)"
  obtain s1 where s1: "tty_poll_input s = Some s1" "shell_inv s1" "io_sys.more s1 = io_sys.more s"
    "tty_session_pty (tty s1) = ?i" "\<forall>j. pty_is_valid j (ptys s1) = pty_is_valid j (ptys s)"
    "tty_sink s1 = take 2047 (tty_sink s @ snd (editor_run (line @ [0x0A]) (0, [])))"
    using shell_inv_poll [OF assms(1)] assms(3-5,8) by auto
  note m = more_fields [OF s1(3)]
  have "io_inv s" "kbd_inv (kbd s)" using assms(1) by (simp_all add: shell_inv_def)
  from tty_poll_echo [OF this assms(4,5,8,9) _ s1(1)] assms(10)
  have con: "con s1 = (if tty_echo (tty s) then fold console_putc (line @ [0x0A]) (con s) else con s)" by simp
  have v: "pty_is_valid ?i (ptys s)"
    using assms(1,2) session_active_open [of "ptys s" "sessions s"] by (auto simp: shell_inv_def)
  have sink: "tty_sink s = active_input s" "tty_sink s1 = active_input s1"
    using v s1(4,5) assms(2,3) m by (simp_all add: tty_sink_def attached_def active_input_def)
  have "snd (editor_run (line @ [0x0A]) (0, [])) = line @ [0x0A]"
    using editor_run_line [OF assms(9), of "[]"] assms(10) by (simp add: editor_run_append editor_step_def)
  then have "active_input s1 = line @ [0x0A]" using s1(6) sink assms(6,10) by simp
  then obtain t u s' where r: "runs_in (command_history line (history s)) s1 t" "run_command (parse_command cmd) t = Some u"
    "shell_pty_loop ?i s1 = Some s'" "con s' = fold console_putc prompt_text (con u)" "history s' = history t" "shell_len s' = 0"
    using shell_line_round [OF s1(2) _ _ _ assms(9-12)] assms(2,7) m by auto
  have "shell_poll s = Some s'" using s1(1) r(3) assms(2) m by (simp add: shell_poll_def)
  then show ?thesis using s1(1) con m r by blast
qed

text \<open>
  C9: A line typed on the keyboard is run as a command, through every component on the way. One call of
  \<^verbatim>\<open>shell_poll\<close> echoes the bytes in the keyboard queue when echo is on, and takes them through the line discipline,
  the pseudo-terminal of the active session and the shell's buffer; the line without leading blanks
  is recorded as the newest entry of the history, cut to 63 bytes; the command it names is run in
  that state: it prints exactly the command's output, clears the console, or runs the self-test; the
  prompt is printed, and the shell is ready for the next line.
\<close>

theorem typed_line_runs:
  assumes "shell_inv s" "0 \<le> session_active_pty (sessions s)" "tty_session_pty (tty s) = session_active_pty (sessions s)"
    and "tty_canonical (tty s)" "tty_editor s = (0, [])" "active_input s = []" "shell_len s = 0"
    and "kbd_bytes (kbd s) = line @ [0x0A]" "list_all line_byte line" "length line \<le> 127"
    and "cmd = dropWhile (\<lambda>c. c = 0x20) line" "cmd \<noteq> []"
  shows "\<exists>s1 t u s'. tty_poll_input s = Some s1 \<and>
    con s1 = (if tty_echo (tty s) then fold console_putc (line @ [0x0A]) (con s) else con s) \<and>
    sessions s1 = sessions s \<and> video s1 = video s \<and> g_ticks s1 = g_ticks s \<and>
    runs_in (history t) s1 t \<and> last (hist_list (history t)) = take 63 cmd \<and>
    rust_history_count (history t) = rust_history_count (history s) + 1 \<and>
    run_command (parse_command cmd) t = Some u \<and>
    shell_poll s = Some s' \<and> con s' = fold console_putc prompt_text (con u) \<and> history s' = history t \<and> shell_len s' = 0"
proof -
  have "hist_inv (history s)" using assms(1) by (simp add: shell_inv_def)
  note h = command_history_line [OF this assms(11,12)]
  show ?thesis using typed_line_spec [OF assms] h by (fastforce simp: runs_in_def)
qed

theorem typed_line_runs_witness:
  "\<exists>c s'. shell_poll (shell_zero (bytes ''  echo hi'' @ [0x0A])) = Some s' \<and> last (hist_list (history s')) = bytes ''echo hi'' \<and>
     con s' = fold console_putc prompt_text (fold console_putc (bytes ''hi'' @ [0x0A]) c)"
proof -
  let ?l = "bytes ''  echo hi''"
  have l: "list_all line_byte ?l" "length ?l \<le> 127" "bytes ''echo hi'' = dropWhile (\<lambda>c. c = 0x20) ?l" "bytes ''echo hi'' \<noteq> []"
    "take 63 (bytes ''echo hi'') = bytes ''echo hi''" "length (?l @ [0x0A]) \<le> 100" "parse_command (bytes ''echo hi'') = Echo (bytes ''hi'')"
    by (simp_all add: bytes_def line_byte_def tty_is_printable_def parse_command_def)
  note f = shell_zero_facts [OF l(6)]
  have a: "0 \<le> session_active_pty (sessions (shell_zero (?l @ [0x0A])))"
    "tty_session_pty (tty (shell_zero (?l @ [0x0A]))) = session_active_pty (sessions (shell_zero (?l @ [0x0A])))"
    using f(3,4) by simp_all
  obtain t u s' :: shell_sys where r: "last (hist_list (history t)) = bytes ''echo hi''" "run_command (Echo (bytes ''hi'')) t = Some u"
    "shell_poll (shell_zero (?l @ [0x0A])) = Some s'" "con s' = fold console_putc prompt_text (con u)" "history s' = history t"
    using typed_line_runs [OF f(1) a f(5,6,7,8) f(2) l(1,2,3,4), unfolded l(5,7)] by blast
  have "u = show_text (bytes ''hi'' @ [0x0A]) t" using r(2) by (simp add: run_command_def)
  then have "con s' = fold console_putc prompt_text (fold console_putc (bytes ''hi'' @ [0x0A]) (con t))"
    using r(4) by (simp only: show_text_def on_con_def) simp
  then show ?thesis using r(1,3,5) by metis
qed

end
