(* ===== verification/Interrupts.thy ===== *)
theory Interrupts
  imports Shell
begin

unbundle bit_operations_syntax

text \<open>
  The interrupt controller (\<^verbatim>\<open>kernel/src/core/pic.c\<close>), the timer (\<^verbatim>\<open>pit.c\<close>) and the interrupt
  descriptor table with its handlers (\<^verbatim>\<open>kernel/src/arch/x86_64/idt.c\<close>). Port writes go to the one port
  log of the system; what a port reads is the device's answer to the writes so far, a parameter
  \<open>rd\<close> of the operations that read. The addresses the linker gives the handlers are the parameter
  \<open>addr\<close>, and the fault address register is the parameter \<open>cr2\<close>.
\<close>

section \<open>Interrupt controller\<close>

abbreviation (input) PIC1_COMMAND :: u16 where "PIC1_COMMAND \<equiv> 0x20"
abbreviation (input) PIC1_DATA :: u16 where "PIC1_DATA \<equiv> 0x21"
abbreviation (input) PIC2_COMMAND :: u16 where "PIC2_COMMAND \<equiv> 0xA0"
abbreviation (input) PIC2_DATA :: u16 where "PIC2_DATA \<equiv> 0xA1"
abbreviation (input) PIC_EOI :: u8 where "PIC_EOI \<equiv> 0x20"
abbreviation (input) ICW1_INIT :: u8 where "ICW1_INIT \<equiv> 0x10"
abbreviation (input) ICW1_ICW4 :: u8 where "ICW1_ICW4 \<equiv> 0x01"
abbreviation (input) ICW4_8086 :: u8 where "ICW4_8086 \<equiv> 0x01"

type_synonym device = "(u16 \<times> u8) list \<Rightarrow> u16 \<Rightarrow> u8"

definition inb :: "device \<Rightarrow> u16 \<Rightarrow> 'a io_sys_scheme \<Rightarrow> u8" where
  "inb rd port s = rd (port_log (con s)) port"

definition sys_outb :: "u16 \<Rightarrow> u8 \<Rightarrow> 'a io_sys_scheme \<Rightarrow> 'a io_sys_scheme" where
  "sys_outb port v = on_con (outb port v)"

definition io_wait :: "'a io_sys_scheme \<Rightarrow> 'a io_sys_scheme" where
  "io_wait = sys_outb 0x80 0"

definition pic_remap :: "device \<Rightarrow> u8 \<Rightarrow> u8 \<Rightarrow> 'a io_sys_scheme \<Rightarrow> 'a io_sys_scheme" where
  "pic_remap rd offset1 offset2 s0 =
     (let mask1 = inb rd PIC1_DATA s0; mask2 = inb rd PIC2_DATA s0;
          s1 = io_wait (sys_outb PIC1_COMMAND (ICW1_INIT OR ICW1_ICW4) s0);
          s2 = io_wait (sys_outb PIC2_COMMAND (ICW1_INIT OR ICW1_ICW4) s1);
          s3 = io_wait (sys_outb PIC1_DATA offset1 s2);
          s4 = io_wait (sys_outb PIC2_DATA offset2 s3);
          s5 = io_wait (sys_outb PIC1_DATA 4 s4);
          s6 = io_wait (sys_outb PIC2_DATA 2 s5);
          s7 = io_wait (sys_outb PIC1_DATA ICW4_8086 s6);
          s8 = io_wait (sys_outb PIC2_DATA ICW4_8086 s7)
      in sys_outb PIC2_DATA mask2 (sys_outb PIC1_DATA mask1 s8))"

definition pic_port :: "u8 \<Rightarrow> u16" where
  "pic_port irq_line = (if irq_line < 8 then PIC1_DATA else PIC2_DATA)"

definition pic_bit :: "u8 \<Rightarrow> u8" where
  "pic_bit irq_line = push_bit (unat (if irq_line \<ge> 8 then irq_line - 8 else irq_line)) 1"

definition pic_set_mask :: "device \<Rightarrow> u8 \<Rightarrow> 'a io_sys_scheme \<Rightarrow> 'a io_sys_scheme" where
  "pic_set_mask rd irq_line s =
     (let port = pic_port irq_line in sys_outb port (inb rd port s OR pic_bit irq_line) s)"

definition pic_clear_mask :: "device \<Rightarrow> u8 \<Rightarrow> 'a io_sys_scheme \<Rightarrow> 'a io_sys_scheme" where
  "pic_clear_mask rd irq_line s =
     (let port = pic_port irq_line in sys_outb port (inb rd port s AND NOT (pic_bit irq_line)) s)"

definition pic_send_eoi :: "u8 \<Rightarrow> 'a io_sys_scheme \<Rightarrow> 'a io_sys_scheme" where
  "pic_send_eoi irq_line s =
     sys_outb PIC1_COMMAND PIC_EOI (if irq_line \<ge> 8 then sys_outb PIC2_COMMAND PIC_EOI s else s)"

section \<open>Timer\<close>

definition pit_init :: "u32 \<Rightarrow> 'a io_sys_scheme \<Rightarrow> 'a io_sys_scheme" where
  "pit_init hz s =
     (let frequency_hz = (if hz = 0 then 100 else hz);
          divisor = ucast (1193182 div frequency_hz) :: u16
      in sys_outb 0x40 (ucast (drop_bit 8 divisor AND 0xFF)) (sys_outb 0x40 (ucast (divisor AND 0xFF)) (sys_outb 0x43 0x36 s)))"

definition pit_on_tick :: "'a shell_sys_scheme \<Rightarrow> 'a shell_sys_scheme" where
  "pit_on_tick s = s\<lparr>g_ticks := g_ticks s + 1\<rparr>"

definition pit_ticks :: "'a shell_sys_scheme \<Rightarrow> u64" where
  "pit_ticks s = g_ticks s"

section \<open>Descriptor table\<close>

record idt_entry =
  offset_low :: u16
  selector :: u16
  ist :: u8
  type_attr :: u8
  offset_mid :: u16
  offset_high :: u32
  zero :: u32

datatype handler = Isr nat | Irq_timer | Irq_keyboard | Irq_default

record kernel_sys = shell_sys +
  idt :: "idt_entry list"
  idtr_limit :: "u16 option"
  int_enabled :: bool
  halted :: bool

text \<open>The interrupt flag of the processor.\<close>

definition cli :: "'a kernel_sys_scheme \<Rightarrow> 'a kernel_sys_scheme" where
  "cli s = s\<lparr>int_enabled := False\<rparr>"

definition sti :: "'a kernel_sys_scheme \<Rightarrow> 'a kernel_sys_scheme" where
  "sti s = s\<lparr>int_enabled := True\<rparr>"

declare cli_def [op_defs] sti_def [op_defs]

definition idt_zero :: idt_entry where
  "idt_zero = \<lparr>offset_low = 0, selector = 0, ist = 0, type_attr = 0, offset_mid = 0, offset_high = 0, zero = 0\<rparr>"

definition idt_gate :: "u64 \<Rightarrow> u8 \<Rightarrow> idt_entry" where
  "idt_gate a flags = \<lparr>offset_low = ucast (a AND 0xFFFF), selector = 0x08, ist = 0, type_attr = flags,
     offset_mid = ucast (drop_bit 16 a AND 0xFFFF), offset_high = ucast (drop_bit 32 a AND 0xFFFFFFFF), zero = 0\<rparr>"

definition idt_set_gate :: "(handler \<Rightarrow> u64) \<Rightarrow> u8 \<Rightarrow> handler \<Rightarrow> u8 \<Rightarrow> idt_entry list \<Rightarrow> idt_entry list" where
  "idt_set_gate addr vector h flags t = t[unat vector := idt_gate (addr h) flags]"

definition idt_init :: "(handler \<Rightarrow> u64) \<Rightarrow> 'a kernel_sys_scheme \<Rightarrow> 'a kernel_sys_scheme" where
  "idt_init addr s =
     (let t0 = replicate 256 idt_zero;
          t1 = for_range 0 256 (\<lambda>i. idt_set_gate addr (of_nat i) Irq_default 0x8E) t0;
          t2 = for_range 0 32 (\<lambda>n. idt_set_gate addr (of_nat n) (Isr n) 0x8E) t1;
          t3 = idt_set_gate addr 33 Irq_keyboard 0x8E (idt_set_gate addr 32 Irq_timer 0x8E t2)
      in s\<lparr>idt := t3, idtr_limit := Some 4095\<rparr>)"

section \<open>Handlers\<close>

text \<open>The exceptions for which the processor pushes an error code, as the two macros list them.\<close>

definition isr_has_error :: "nat \<Rightarrow> bool" where
  "isr_has_error n = (n \<in> {8, 10, 11, 12, 13, 14, 17, 21, 29, 30})"

definition panic_report :: "u64 \<Rightarrow> u8 \<Rightarrow> u64 \<Rightarrow> bool \<Rightarrow> 'a io_sys_scheme \<Rightarrow> 'a io_sys_scheme" where
  "panic_report cr2 vector error_code has_error_code s0 =
     (let s1 = outdec (ucast vector) (on_con (console_write (0x0A # c_lit ''[KERNEL PANIC] CPU exception '')) s0);
          s2 = (if has_error_code then outhex error_code (out '' error='' s1) else s1);
          s3 = (if vector = 14 then outhex cr2 (out '' cr2='' s2) else s2)
      in on_con (console_write (0x0A # bytes ''System halted.'' @ [0x0A, 0])) s3)"

definition panic_exception :: "u64 \<Rightarrow> u8 \<Rightarrow> u64 \<Rightarrow> bool \<Rightarrow> 'a kernel_sys_scheme \<Rightarrow> 'a kernel_sys_scheme" where
  "panic_exception cr2 vector error_code has_error_code s =
     (panic_report cr2 vector error_code has_error_code (cli s))\<lparr>halted := True\<rparr>"

definition isr :: "u64 \<Rightarrow> nat \<Rightarrow> u64 \<Rightarrow> 'a kernel_sys_scheme \<Rightarrow> 'a kernel_sys_scheme" where
  "isr cr2 n error_code = (if isr_has_error n then panic_exception cr2 (of_nat n) error_code True
     else panic_exception cr2 (of_nat n) 0 False)"

definition irq_timer :: "'a kernel_sys_scheme \<Rightarrow> 'a kernel_sys_scheme" where
  "irq_timer s = pic_send_eoi 0 (pit_on_tick s)"

definition irq_keyboard :: "u8 \<Rightarrow> 'a kernel_sys_scheme \<Rightarrow> 'a kernel_sys_scheme" where
  "irq_keyboard scancode s = pic_send_eoi 1 (s\<lparr>kbd := keyboard_on_irq scancode (kbd s)\<rparr>)"

definition irq_default :: "'a kernel_sys_scheme \<Rightarrow> 'a kernel_sys_scheme" where
  "irq_default s = pic_send_eoi 7 s"

definition run_handler :: "u64 \<Rightarrow> u64 \<Rightarrow> u8 \<Rightarrow> handler \<Rightarrow> 'a kernel_sys_scheme \<Rightarrow> 'a kernel_sys_scheme" where
  "run_handler cr2 error_code scancode h =
     (case h of Isr n \<Rightarrow> isr cr2 n error_code | Irq_timer \<Rightarrow> irq_timer | Irq_keyboard \<Rightarrow> irq_keyboard scancode
      | Irq_default \<Rightarrow> irq_default)"

section \<open>Every vector reaches its handler\<close>

text \<open>The address the processor jumps to through a gate, and the handler a vector is meant for.\<close>

definition gate_offset :: "idt_entry \<Rightarrow> u64" where
  "gate_offset g = ucast (offset_low g) OR push_bit 16 (ucast (offset_mid g)) OR push_bit 32 (ucast (offset_high g))"

definition vector_handler :: "nat \<Rightarrow> handler" where
  "vector_handler v = (if v < 32 then Isr v else if v = 32 then Irq_timer else if v = 33 then Irq_keyboard else Irq_default)"

lemma gate_offset_gate [simp]: "gate_offset (idt_gate a flags) = a"
proof (rule bit_word_eqI)
  fix n
  assume n: "n < LENGTH(64)"
  have m: "(0xFFFF :: u64) = mask 16" "(0xFFFFFFFF :: u64) = mask 32" by (simp_all add: mask_eq_exp_minus_1)
  show "bit (gate_offset (idt_gate a flags)) n = bit a n"
    unfolding gate_offset_def idt_gate_def m using n
    by (cases "32 \<le> n") (auto simp: bit_or_iff bit_push_bit_iff bit_ucast_iff bit_and_iff bit_mask_iff bit_drop_bit_eq)
qed

lemma gate_fields [simp]:
  "selector (idt_gate a flags) = 8" "type_attr (idt_gate a flags) = flags" "ist (idt_gate a flags) = 0"
  by (simp_all add: idt_gate_def)

lemma set_gates:
  assumes "n \<le> length t" "n \<le> 256"
  shows "length (for_range 0 n (\<lambda>i. idt_set_gate addr (of_nat i) (h i) flags) t) = length t \<and>
    (\<forall>v < length t. for_range 0 n (\<lambda>i. idt_set_gate addr (of_nat i) (h i) flags) t ! v =
       (if v < n then idt_gate (addr (h v)) flags else t ! v))"
  using assms
proof (induction n)
  case (Suc n)
  have "unat (of_nat n :: u8) = n" using Suc.prems by (simp add: unat_of_nat)
  then show ?case using Suc by (auto simp: idt_set_gate_def nth_list_update less_Suc_eq)
qed simp

lemma idt_init_table:
  shows "length (idt (idt_init addr s)) = 256"
    and "v < 256 \<Longrightarrow> idt (idt_init addr s) ! v = idt_gate (addr (vector_handler v)) 0x8E"
proof -
  let ?t1 = "for_range 0 256 (\<lambda>i. idt_set_gate addr (of_nat i) Irq_default 0x8E) (replicate 256 idt_zero)"
  let ?t2 = "for_range 0 32 (\<lambda>n. idt_set_gate addr (of_nat n) (Isr n) 0x8E) ?t1"
  have t1: "length ?t1 = 256" "\<And>v. v < 256 \<Longrightarrow> ?t1 ! v = idt_gate (addr Irq_default) 0x8E"
    using set_gates [of 256 "replicate 256 idt_zero" addr "\<lambda>_. Irq_default"] by simp_all
  have t2: "length ?t2 = 256" "\<And>v. v < 256 \<Longrightarrow> ?t2 ! v = idt_gate (addr (if v < 32 then Isr v else Irq_default)) 0x8E"
    using set_gates [of 32 ?t1 addr Isr] t1 by simp_all
  have e: "idt (idt_init addr s) = ?t2[32 := idt_gate (addr Irq_timer) 0x8E, 33 := idt_gate (addr Irq_keyboard) 0x8E]"
    by (simp only: idt_init_def idt_set_gate_def Let_def) simp
  show "length (idt (idt_init addr s)) = 256" by (simp add: e t2(1))
  show "idt (idt_init addr s) ! v = idt_gate (addr (vector_handler v)) 0x8E" if "v < 256"
    using that by (simp add: e t2 nth_list_update vector_handler_def)
qed

section \<open>Which interrupt lines arrive, and where\<close>

text \<open>
  An 8259 interrupt controller as its data sheet describes it, in the one mode the code uses: a command
  with bit 4 set starts an initialisation, during which the next writes to the data port are the vector
  base, the wiring and, when bit 0 asked for it, the mode; any other write to the data port sets the
  mask, which is what the port reads.
\<close>

record pic_chip =
  icw_next :: nat
  icw4_due :: bool
  vector_base :: u8
  irq_mask :: u8

definition chip_reset :: pic_chip where
  "chip_reset = \<lparr>icw_next = 0, icw4_due = False, vector_base = 0, irq_mask = 0\<rparr>"

definition chip_write :: "u16 \<Rightarrow> u16 \<times> u8 \<Rightarrow> pic_chip \<Rightarrow> pic_chip" where
  "chip_write cmd w c = (case w of (port, v) \<Rightarrow>
     if port = cmd then
       (if bit v 4 then c\<lparr>icw_next := 2, icw4_due := bit v 0, irq_mask := 0\<rparr> else c)
     else if port = cmd + 1 then
       (if icw_next c = 2 then c\<lparr>icw_next := 3, vector_base := v AND 0xF8\<rparr>
        else if icw_next c = 3 then c\<lparr>icw_next := (if icw4_due c then 4 else 0)\<rparr>
        else if icw_next c = 4 then c\<lparr>icw_next := 0\<rparr>
        else c\<lparr>irq_mask := v\<rparr>)
     else c)"

definition chip :: "u16 \<Rightarrow> (u16 \<times> u8) list \<Rightarrow> pic_chip" where
  "chip cmd log = fold (chip_write cmd) log chip_reset"

definition pic_device :: "device \<Rightarrow> bool" where
  "pic_device rd \<longleftrightarrow> (\<forall>log. rd log PIC1_DATA = irq_mask (chip PIC1_COMMAND log) \<and>
     rd log PIC2_DATA = irq_mask (chip PIC2_COMMAND log))"

definition sys_chip :: "u16 \<Rightarrow> 'a io_sys_scheme \<Rightarrow> pic_chip" where
  "sys_chip cmd s = chip cmd (port_log (con s))"

lemma chip_outb [simp]: "sys_chip cmd (sys_outb port v s) = chip_write cmd (port, v) (sys_chip cmd s)"
  by (simp add: sys_chip_def chip_def sys_outb_def on_con_def outb_def)

lemma chip_io_wait [simp]: "sys_chip PIC1_COMMAND (io_wait s) = sys_chip PIC1_COMMAND s"
    "sys_chip PIC2_COMMAND (io_wait s) = sys_chip PIC2_COMMAND s"
  by (simp_all add: io_wait_def chip_write_def)

text \<open>The part of the start-up that sets the controllers up.\<close>

lemma pic_remap_chips:
  shows "sys_chip PIC1_COMMAND (pic_remap rd o1 o2 s) =
      \<lparr>icw_next = 0, icw4_due = True, vector_base = o1 AND 0xF8, irq_mask = inb rd PIC1_DATA s\<rparr>"
    and "sys_chip PIC2_COMMAND (pic_remap rd o1 o2 s) =
      \<lparr>icw_next = 0, icw4_due = True, vector_base = o2 AND 0xF8, irq_mask = inb rd PIC2_DATA s\<rparr>"
  by (simp_all add: pic_remap_def Let_def chip_write_def)

lemma pic_mask_chips:
  assumes "pic_device rd" "cmd \<in> {PIC1_COMMAND, PIC2_COMMAND}" "icw_next (sys_chip cmd s) = 0"
  shows "sys_chip cmd (pic_set_mask rd i s) =
      (if pic_port i = cmd + 1 then (sys_chip cmd s)\<lparr>irq_mask := irq_mask (sys_chip cmd s) OR pic_bit i\<rparr> else sys_chip cmd s)"
    and "sys_chip cmd (pic_clear_mask rd i s) =
      (if pic_port i = cmd + 1 then (sys_chip cmd s)\<lparr>irq_mask := irq_mask (sys_chip cmd s) AND NOT (pic_bit i)\<rparr> else sys_chip cmd s)"
proof -
  have "inb rd (cmd + 1) s = irq_mask (sys_chip cmd s)"
    using assms(1,2) by (auto simp: pic_device_def inb_def sys_chip_def)
  then show "sys_chip cmd (pic_set_mask rd i s) =
      (if pic_port i = cmd + 1 then (sys_chip cmd s)\<lparr>irq_mask := irq_mask (sys_chip cmd s) OR pic_bit i\<rparr> else sys_chip cmd s)"
    "sys_chip cmd (pic_clear_mask rd i s) =
      (if pic_port i = cmd + 1 then (sys_chip cmd s)\<lparr>irq_mask := irq_mask (sys_chip cmd s) AND NOT (pic_bit i)\<rparr> else sys_chip cmd s)"
    using assms(2,3) by (auto simp: pic_set_mask_def pic_clear_mask_def chip_write_def Let_def pic_port_def)
qed

end
