(* ===== verification/Kernel.thy ===== *)
theory Kernel
  imports Interrupts Commands
begin

unbundle bit_operations_syntax

text \<open>
  The start-up of \<^verbatim>\<open>kernel/src/core/kernel.c\<close> and its idle loop. \<^verbatim>\<open>kernel_main\<close> is cut where its phases
  end; its result is the state in which it enters the idle loop, or the one in which it halted. What
  it finds in memory from the boot loader (\<open>m\<close>), the addresses the linker assigns (\<open>kstart\<close>, \<open>kend\<close>, the
  handlers' \<open>addr\<close>) and what ports read (\<open>rd\<close>) are parameters. The page tables it starts with are those
  of \<^verbatim>\<open>kernel/src/arch/x86_64/boot.S\<close>. The idle loop and the interrupts are a step relation.
\<close>

section \<open>Start-up\<close>

abbreviation (input) MULTIBOOT2_BOOTLOADER_MAGIC :: u32 where "MULTIBOOT2_BOOTLOADER_MAGIC \<equiv> 0x36d76289"

text \<open>The three tables \<^verbatim>\<open>boot.S\<close> lays out from \<^verbatim>\<open>pml4_table\<close> on: the first GiB in huge pages.\<close>

definition boot_tables :: "u64 \<Rightarrow> u64 \<Rightarrow> u64" where
  "boot_tables pml4 a =
     (if a = pml4 then pml4 + 0x1003
      else if a = pml4 + 0x1000 then pml4 + 0x2003
      else if pml4 + 0x2000 \<le> a \<and> a < pml4 + 0x3000 then push_bit 21 ((a - (pml4 + 0x2000)) div 8) + 0x83
      else 0)"

definition halt_forever :: "'a kernel_sys_scheme \<Rightarrow> 'a kernel_sys_scheme" where
  "halt_forever s = (cli s)\<lparr>halted := True\<rparr>"

definition boot_memory ::
    "memory \<Rightarrow> u64 \<Rightarrow> u64 \<Rightarrow> u32 \<Rightarrow> 'a shell_sys_scheme \<Rightarrow> 'a shell_sys_scheme option" where
  "boot_memory m kstart kend info s0 = do {
     v1 \<leftarrow> video_probe_multiboot m info (video s0);
     let s1 = outln ''Multiboot2 handoff OK'' (s0\<lparr>video := v1\<rparr>);
     p \<leftarrow> pmm_init m kstart kend info;
     let s2 = outln ''PMM initialized'' (s1\<lparr>video := v1\<lparr>vmem := (vmem v1)\<lparr>pmm := p\<rparr>\<rparr>\<rparr>);
     let v3 = (video s2)\<lparr>vmem := vmm_init (vmem (video s2))\<rparr>;
     Some (outln ''VMM initialized'' (s2\<lparr>video := v3\<rparr>)) }"

definition boot_framebuffer :: "'a shell_sys_scheme \<Rightarrow> 'a shell_sys_scheme option" where
  "boot_framebuffer s0 = do {
     (mapped, v) \<leftarrow> video_map_framebuffer (video s0);
     let s1 = s0\<lparr>video := v\<rparr>;
     let (enabled, c) = (if mapped then console_enable_framebuffer (g_fb v) (con s1) else (False, con s1));
     let s2 = s1\<lparr>con := c\<rparr>;
     Some (if enabled then outln ''Framebuffer console enabled'' s2
           else outln ''Framebuffer console unavailable, using VGA text mode'' s2) }"

definition boot_interrupts :: "device \<Rightarrow> (handler \<Rightarrow> u64) \<Rightarrow> 'a kernel_sys_scheme \<Rightarrow> 'a kernel_sys_scheme" where
  "boot_interrupts rd addr s0 =
     (let s1 = pic_remap rd 0x20 0x28 (idt_init addr s0);
          s2 = for_range 0 16 (\<lambda>irq. pic_set_mask rd (of_nat irq)) s1
      in pit_init 100 (pic_clear_mask rd 2 (pic_clear_mask rd 1 (pic_clear_mask rd 0 s2))))"

definition boot_session :: "'a shell_sys_scheme \<Rightarrow> 'a shell_sys_scheme" where
  "boot_session s0 =
     (let (sid, t1) = session_create 1 (sessions s0);
          (pty, p) = pty_alloc (ptys s0);
          s1 = s0\<lparr>sessions := t1, ptys := p\<rparr>;
          (ok2, t2) = (if sid \<ge> 0 \<and> pty \<ge> 0 then session_set_controlling_pty sid pty p t1 else (False, t1));
          (ok3, t3) = (if ok2 then session_set_active sid t2 else (False, t2));
          s2 = s1\<lparr>sessions := t3\<rparr>
      in if ok3 then outln ''Session initialized'' (tty_attach_session sid pty s2)
         else outln ''Session initialization degraded'' s2)"

definition boot_drivers :: "'a shell_sys_scheme \<Rightarrow> 'a shell_sys_scheme" where
  "boot_drivers s0 =
     (let s1 = tty_init (s0\<lparr>kbd := keyboard_init (kbd s0)\<rparr>);
          s2 = s1\<lparr>ptys := pty_init (ptys s1), sessions := session_init (sessions s1)\<rparr>
      in boot_session s2)"

definition boot_start :: "'a kernel_sys_scheme \<Rightarrow> 'a kernel_sys_scheme" where
  "boot_start s0 =
     (let s1 = outln ''Interrupts initialized'' s0;
          s2 = on_con (console_putc 0x0A) (on_con (console_write rust_boot_banner) s1);
          s3 = sti s2
      in shell_init (outln ''Kernel ready. Type `help`.'' s3))"

definition kernel_main :: "memory \<Rightarrow> u64 \<Rightarrow> u64 \<Rightarrow> (handler \<Rightarrow> u64) \<Rightarrow> device \<Rightarrow> u32 \<Rightarrow> u32 \<Rightarrow>
    'a kernel_sys_scheme \<Rightarrow> 'a kernel_sys_scheme option" where
  "kernel_main m kstart kend addr rd multiboot_magic multiboot_info_addr s0 =
     (let s1 = outln ''CPU mode: x86_64 long mode'' (outln ''WaluOS booting...'' (on_con console_init s0))
      in if multiboot_magic \<noteq> MULTIBOOT2_BOOTLOADER_MAGIC
         then Some (halt_forever (outln '''' (outhex (ucast multiboot_magic) (out ''Invalid multiboot2 magic: '' s1))))
         else do {
           s2 \<leftarrow> boot_memory m kstart kend multiboot_info_addr s1;
           s3 \<leftarrow> boot_framebuffer s2;
           Some (boot_start (boot_drivers (boot_interrupts rd addr s3))) })"

section \<open>Interrupt routing\<close>

lemma pic_bit_line:
  "n < 16 \<Longrightarrow> pic_bit (of_nat n) = 2 ^ (n mod 8)" "n < 16 \<Longrightarrow> pic_port (of_nat n) = (if n < 8 then PIC1_DATA else PIC2_DATA)"
  "pic_bit 0 = 1" "pic_bit 1 = 2" "pic_bit 2 = 4"
proof -
  assume n: "n < 16"
  then have u: "unat (of_nat n :: u8) = n" by (simp add: unat_of_nat)
  have l: "(of_nat n :: u8) < 8 \<longleftrightarrow> n < 8" using u by (simp add: word_less_nat_alt)
  have "unat (of_nat n - 8 :: u8) = n - 8" if "\<not> n < 8"
    using that u by (subst unat_sub) (simp_all add: word_le_nat_alt)
  then show "pic_bit (of_nat n) = 2 ^ (n mod 8)"
    using l u n by (cases "n < 8") (simp_all add: pic_bit_def not_le [symmetric] push_bit_of_1 le_mod_geq)
  show "pic_port (of_nat n) = (if n < 8 then PIC1_DATA else PIC2_DATA)" using l by (simp add: pic_port_def)
qed (simp_all add: pic_bit_def word_le_nat_alt)

lemma chip_other_port:
  "chip_write PIC1_COMMAND (0x40, v) c = c" "chip_write PIC1_COMMAND (0x43, v) c = c"
  "chip_write PIC2_COMMAND (0x40, v) c = c" "chip_write PIC2_COMMAND (0x43, v) c = c"
  by (simp_all add: chip_write_def)

lemma pit_init_chips:
  "cmd \<in> {PIC1_COMMAND, PIC2_COMMAND} \<Longrightarrow> sys_chip cmd (pit_init hz s) = sys_chip cmd s"
  unfolding pit_init_def Let_def chip_outb by (auto simp only: chip_other_port insert_iff empty_iff)

lemma set_masks:
  assumes "pic_device rd" "cmd \<in> {PIC1_COMMAND, PIC2_COMMAND}" "icw_next (sys_chip cmd s) = 0" "k \<le> 16"
  shows "sys_chip cmd (for_range 0 k (\<lambda>irq. pic_set_mask rd (of_nat irq)) s) =
    (sys_chip cmd s)\<lparr>irq_mask := irq_mask (sys_chip cmd s) OR mask (if cmd = PIC1_COMMAND then min k 8 else k - 8)\<rparr>"
  using assms(4)
proof (induction k)
  case (Suc k)
  let ?s = "for_range 0 k (\<lambda>irq. pic_set_mask rd (of_nat irq)) s"
  have "icw_next (sys_chip cmd ?s) = 0" using Suc assms(3) by simp
  note st = pic_mask_chips(1) [OF assms(1,2) this, of "of_nat k"]
  have m: "mask (Suc j) = (mask j OR 2 ^ j :: u8)" for j
    by (simp add: mask_Suc_exp or.commute)
  have k: "min (Suc k) 8 = Suc k" "min k 8 = k" "k mod 8 = k" if "k < 8" using that by simp_all
  have k': "Suc k - 8 = Suc (k - 8)" "min (Suc k) 8 = 8" "min k 8 = 8" "k mod 8 = k - 8" if "\<not> k < 8"
    using that Suc.prems by (simp_all add: le_mod_geq Suc_diff_le)
  show ?case
    using Suc st assms(2) k k' by (cases "k < 8") (auto simp: pic_bit_line m or.assoc)
qed simp

text \<open>
  C5: After the start-up, an interrupt on line \<open>n\<close> reaches the processor only for the timer, the
  keyboard and the cascade (lines 0, 1 and 2), and the vector the controller then announces leads
  through the descriptor table to the handler of that line, as an interrupt gate of the kernel's code
  segment; this holds whatever was written to the ports before, for controllers that behave as their
  data sheet says.
\<close>

theorem irq_routing:
  assumes "pic_device rd" "n < 16" "s' = boot_interrupts rd addr s"
    and "c = sys_chip (if n < 8 then PIC1_COMMAND else PIC2_COMMAND) s'" "g = idt s' ! (unat (vector_base c) + n mod 8)"
  shows "icw_next c = 0 \<and> (bit (irq_mask c) (n mod 8) \<longleftrightarrow> 2 < n) \<and> selector g = 0x08 \<and> type_attr g = 0x8E \<and>
    gate_offset g = addr (if n = 0 then Irq_timer else if n = 1 then Irq_keyboard else Irq_default)"
proof -
  let ?s1 = "pic_remap rd 0x20 0x28 (idt_init addr s)"
  let ?s2 = "for_range 0 16 (\<lambda>irq. pic_set_mask rd (of_nat irq)) ?s1"
  let ?s3 = "pic_clear_mask rd 2 (pic_clear_mask rd 1 (pic_clear_mask rd 0 ?s2))"
  have "mask 8 = (- 1 :: u8)" by (simp add: mask_eq_exp_minus_1)
  then have all: "a OR mask 8 = (- 1 :: u8)" for a by simp
  have s1: "sys_chip PIC1_COMMAND ?s2 = \<lparr>icw_next = 0, icw4_due = True, vector_base = 0x20, irq_mask = - 1\<rparr>"
    "sys_chip PIC2_COMMAND ?s2 = \<lparr>icw_next = 0, icw4_due = True, vector_base = 0x28, irq_mask = - 1\<rparr>"
    using set_masks [OF assms(1), of PIC1_COMMAND ?s1 16] set_masks [OF assms(1), of PIC2_COMMAND ?s1 16]
    by (simp_all add: pic_remap_chips all del: for_range_Suc)
  note cl = pic_mask_chips(2) [OF assms(1)]
  have "sys_chip PIC1_COMMAND ?s3 = \<lparr>icw_next = 0, icw4_due = True, vector_base = 0x20, irq_mask = 0xF8\<rparr>"
    using s1(1) by (simp add: cl pic_bit_line pic_port_def del: for_range_Suc)
  moreover have "sys_chip PIC2_COMMAND ?s3 = \<lparr>icw_next = 0, icw4_due = True, vector_base = 0x28, irq_mask = - 1\<rparr>"
    using s1(2) by (simp add: cl pic_port_def del: for_range_Suc)
  ultimately have c: "c = \<lparr>icw_next = 0, icw4_due = True, vector_base = (if n < 8 then 0x20 else 0x28),
      irq_mask = (if n < 8 then 0xF8 else - 1)\<rparr>"
    unfolding assms(3,4) boot_interrupts_def Let_def by (simp add: pit_init_chips)
  have i: "idt (sys_outb port v t) = idt t" "idt (io_wait t) = idt t" for port v and t :: "'a kernel_sys_scheme"
    by (simp_all add: sys_outb_def io_wait_def on_con_def)
  have "idt ?s2 = idt (idt_init addr s)"
    by (rule for_range_inv) (simp_all add: i pic_remap_def pic_set_mask_def Let_def)
  then have "idt s' = idt (idt_init addr s)"
    by (simp add: assms(3) boot_interrupts_def Let_def pit_init_def pic_clear_mask_def i del: for_range_Suc)
  moreover define v where "v = unat (vector_base c) + n mod 8"
  moreover have v: "v = 32 + n" using assms(2) by (auto simp: c v_def le_mod_geq)
  ultimately have g: "g = idt_gate (addr (vector_handler (32 + n))) 0x8E"
    using assms(2,5) idt_init_table(2) [of v addr s] by simp
  have "bit (0xF8 :: u8) n \<longleftrightarrow> 2 < n" if "n < 8"
    using that by (auto simp: less_Suc_eq numeral_eq_Suc)
  then show ?thesis using assms(2) by (auto simp: g c vector_handler_def)
qed

section \<open>The tables of the boot code\<close>

lemma boot_entry:
  assumes "4096 dvd unat f" "unat f + 4096 \<le> 0x40000000"
  shows "(f + 3) AND PAGE_PRESENT \<noteq> 0" "(f + 3) AND 0x000FFFFFFFFFF000 = f"
proof -
  have "\<not> bit (f AND 3) n" for n
    using frame_bits [OF assms, of n] bit_mask_iff [of 2 n, where 'a = u64] by (auto simp: bit_and_iff mask_eq_exp_minus_1)
  then have "f AND 3 = 0" by (intro bit_eqI) simp
  then have "f + 3 = f OR 3" by (rule disjunctive_add_eq_or)
  also have "f OR 3 = f OR PAGE_PRESENT OR PAGE_WRITABLE" by simp
  finally show "(f + 3) AND PAGE_PRESENT \<noteq> 0" "(f + 3) AND 0x000FFFFFFFFFF000 = f"
    using fresh_frame_bits [OF assms] by simp_all
qed

lemma boot_child:
  assumes "4096 dvd unat t" "unat t + 0x3000 \<le> 0x1000000" "i < 512"
  shows "child (boot_tables t) t i = (if i = 0 then Some (t + 0x1000) else None)"
    and "child (boot_tables t) (t + 0x1000) i = (if i = 0 then Some (t + 0x2000) else None)"
proof -
  have u: "unat (t + 0x1000) = unat t + 0x1000" "unat (t + 0x2000) = unat t + 0x2000" "unat (t + 0x3000) = unat t + 0x3000"
    using assms(2) by (simp_all add: unat_word_ariths)
  have s: "unat (slot t i) = unat t + 8 * unat i" "unat (slot (t + 0x1000) i) = unat t + 0x1000 + 8 * unat i" "unat i < 512"
    using unat_slot [of t i] unat_slot [of "t + 0x1000" i] assms(2,3) u by simp_all
  have z: "i = 0 \<longleftrightarrow> unat i = 0" by (simp add: unat_eq_0)
  have q: "boot_tables t (slot t i) = (if i = 0 then t + 0x1000 + 3 else 0)"
    "boot_tables t (slot (t + 0x1000) i) = (if i = 0 then t + 0x2000 + 3 else 0)"
    using s u by (simp_all add: boot_tables_def word_le_nat_alt word_less_nat_alt z word_unat_eq_iff add.commute)
  have d: "4096 dvd unat (t + 0x1000)" "4096 dvd unat (t + 0x2000)" using assms(1) u by simp_all
  have b: "unat (t + 0x1000) + 4096 \<le> 0x40000000" "unat (t + 0x2000) + 4096 \<le> 0x40000000" using assms(2) u by simp_all
  show "child (boot_tables t) t i = (if i = 0 then Some (t + 0x1000) else None)"
    "child (boot_tables t) (t + 0x1000) i = (if i = 0 then Some (t + 0x2000) else None)"
    unfolding child_def q using boot_entry [OF d(1) b(1)] boot_entry [OF d(2) b(2)] by simp_all
qed

lemma boot_tree:
  assumes "4096 dvd unat t" "unat t + 0x3000 \<le> 0x1000000" "{t, t + 0x1000, t + 0x2000} \<subseteq> used"
  shows "tree_inv (boot_tables t) t used"
proof -
  note c = boot_child [OF assms(1,2)]
  have p: "p = [] \<and> u = t \<or> p = [0] \<and> u = t + 0x1000 \<or> p = [0, 0] \<and> u = t + 0x2000"
    if p: "table_path p" "table_of (boot_tables t) t p = Some u" for p u
  proof -
    consider "p = []" | i where "p = [i]" | i j where "p = [i, j]"
      using p(1) by (cases p; cases "tl p") (auto simp: table_path_def)
    then show ?thesis using p by cases (auto simp: table_path_def c split: if_splits)
  qed
  have "u \<in> used" if "table_path p" "table_of (boot_tables t) t p = Some u" for p u
    using p [OF that] assms(3) by auto
  moreover have "p = p'" if "table_path p" "table_path p'" "table_of (boot_tables t) t p = Some u"
      "table_of (boot_tables t) t p' = Some u" for p p' u
    using p [OF that(1,3)] p [OF that(2,4)] by auto
  ultimately show ?thesis unfolding tree_inv_def by blast
qed

section \<open>Each phase\<close>

text \<open>
  What the start-up finds: sound boot information, the static arrays with their declared lengths, the
  zeroed line buffer, the history the Rust part starts with, and the boot tables inside the kernel
  image, which ends below 16 MiB.
\<close>

definition static_ready :: "'a shell_sys_scheme \<Rightarrow> bool" where
  "static_ready s \<longleftrightarrow> length (ansi_params (con s)) = ANSI_MAX_PARAMS \<and>
     length (kbd_byte_queue (kbd s)) = KBD_BYTE_QUEUE_SIZE \<and> length (kbd_event_queue (kbd s)) = KBD_EVENT_QUEUE_SIZE \<and>
     length (tty_read_queue (tty s)) = TTY_READ_QUEUE_SIZE \<and> length (tty_line_buffer (tty s)) = TTY_LINE_BUFFER_SIZE \<and>
     history s = history_new \<and> shell_line s = replicate SHELL_LINE_MAX 0"

definition image_ready :: "u64 \<Rightarrow> u64 \<Rightarrow> vm_state \<Rightarrow> bool" where
  "image_ready kstart kend v \<longleftrightarrow> tables v = boot_tables (pml4_table v) \<and> 4096 dvd unat (pml4_table v) \<and>
     unat kstart \<le> unat (pml4_table v) \<and> unat (pml4_table v) + 0x3000 \<le> unat kend \<and> unat kend \<le> 0x1000000"

lemma vm_inv_boot:
  assumes "image_ready kstart kend v" "memory_map m (ucast info) es" "pmm_init m kstart kend info = Some p"
  shows "vm_inv (v\<lparr>pmm := p\<rparr>)"
proof -
  let ?t = "pml4_table v"
  note im = assms(1) [unfolded image_ready_def]
  obtain p' where p': "pmm_init m kstart kend info = Some p'" "pmm_inv p'"
    "unat (total_frames p') = min (mmap_end es) 0x40000000 div 4096"
    "\<forall>g < unat (total_frames p'). frame_used p' g \<longleftrightarrow>
       region_covers kstart (kend - kstart) g \<or> g < 256 \<or> \<not> (\<exists>e \<in> set es. entry_covers e g)"
    using pmm_init_map [OF assms(2), of kstart kend] by blast
  have [simp]: "p' = p" using p'(1) assms(3) by simp
  have "(0x1000000 :: nat) div 4096 \<le> min (mmap_end es) 0x40000000 div 4096"
    using mmap_end_lower [of es] by (intro div_le_mono) simp
  then have tot: "4096 \<le> unat (total_frames p)" using p'(3) by simp
  have "kstart \<le> kend" "kstart < kend" using im by (simp_all add: word_le_nat_alt word_less_nat_alt)
  then have d: "unat (kend - kstart) = unat kend - unat kstart" by (simp add: unat_sub)
  have used: "of_nat (g * 4096) \<in> frames_in_use p" if "g < 4096" "g = 0 \<or> unat kstart < (g + 1) * 4096 \<and> g * 4096 < unat kend" for g
  proof -
    have "frame_used p g"
      using that tot p'(4) region_covers_iff [of kstart "kend - kstart" g] d im by auto
    then show ?thesis using frames_in_use_iff [OF p'(2), of g] that(1) tot by (simp add: used_set_def)
  qed
  define f where "f = unat ?t div 4096"
  have t: "unat ?t = f * 4096" using im by (simp add: f_def)
  have "of_nat (f * 4096) = ?t" unfolding t [symmetric] by simp
  moreover from this have "of_nat ((f + 1) * 4096) = ?t + 0x1000" "of_nat ((f + 2) * 4096) = ?t + 0x2000"
    by (simp_all add: algebra_simps)
  ultimately have "{?t, ?t + 0x1000, ?t + 0x2000} \<subseteq> frames_in_use p"
    using used [of f] used [of "f + 1"] used [of "f + 2"] im t by (simp add: add.commute)
  then have "tree_inv (boot_tables ?t) ?t (frames_in_use p)" using boot_tree im by simp
  then show ?thesis using p'(2) used [of 0] im by (simp add: vm_inv_def)
qed

lemma outln_fields [simp]:
  "video (outln str s) = video s" "kbd (outln str s) = kbd s" "tty (outln str s) = tty s" "ptys (outln str s) = ptys s"
  "sessions (outln str s) = sessions s" "history (outln str s) = history s" "shell_line (outln str s) = shell_line s"
  "shell_len (outln str s) = shell_len s" "shell_sys.more (outln str s) = shell_sys.more s" "g_ticks (outln str s) = g_ticks s"
  by (simp_all add: op_defs)

lemma console_inv_outln: "console_inv (con s) \<Longrightarrow> console_inv (con (outln str s))"
  by (simp add: op_defs console_invs)

text \<open>The parts of the state that the first phases leave alone.\<close>

definition boot_keeps :: "'a shell_sys_scheme \<Rightarrow> 'a shell_sys_scheme \<Rightarrow> bool" where
  "boot_keeps s s' \<longleftrightarrow> kbd s' = kbd s \<and> tty s' = tty s \<and> history s' = history s \<and> shell_line s' = shell_line s"

lemma boot_memory_ok:
  assumes "boot_info_sound m (ucast info)" "image_ready kstart kend (vmem (video s))" "console_inv (con s)"
  shows "\<exists>s'. boot_memory m kstart kend info s = Some s' \<and> vm_inv (vmem (video s')) \<and> console_inv (con s') \<and>
    boot_keeps s s' \<and> shell_sys.more s' = shell_sys.more s"
proof -
  have "\<forall>t. tag_reached m (ucast info + ucast (read32 m (ucast info))) (ucast info + 8) t \<and>
      t < ucast info + ucast (read32 m (ucast info)) \<and> tag_type m t \<noteq> MULTIBOOT_TAG_TYPE_END \<longrightarrow> tag_size m t \<le> 0xFFFFFFF8"
    using assms(1) by (auto simp: boot_info_sound_def tags_sound_def Let_def)
  then obtain v where v: "video_probe_multiboot m info (video s) = Some v" "vmem v = vmem (video s)"
    using video_probe_spec [OF refl] by blast
  obtain es where es: "memory_map m (ucast info) es" using memory_map_exists [OF assms(1)] by blast
  then obtain p where p: "pmm_init m kstart kend info = Some p" using pmm_init_map by blast
  have "vm_inv ((vmem v)\<lparr>pmm := p\<rparr>)" using vm_inv_boot [OF assms(2) es p] v(2) by simp
  then have "vm_inv (vmm_init ((vmem v)\<lparr>pmm := p\<rparr>))"
    unfolding vmm_init_def using map_2m_spec [OF _ _ _ surjective_pairing] by simp
  then show ?thesis
    using v(1) p assms(3) by (simp add: boot_memory_def Let_def console_inv_outln boot_keeps_def)
qed

lemma boot_framebuffer_ok:
  assumes "vm_inv (vmem (video s))" "console_inv (con s)"
  shows "\<exists>s'. boot_framebuffer s = Some s' \<and> vm_inv (vmem (video s')) \<and> console_inv (con s') \<and>
    boot_keeps s s' \<and> shell_sys.more s' = shell_sys.more s"
proof -
  obtain ok v where v: "video_map_framebuffer (video s) = Some (ok, v)" "vm_inv (vmem v)"
    using video_map_framebuffer_returns [OF assms(1)] by blast
  obtain en c where c: "(if ok then console_enable_framebuffer (g_fb v) (con s) else (False, con s)) = (en, c)"
    by fastforce
  then have "console_inv c" using assms(2) console_enable_framebuffer_inv by (auto split: if_splits)
  then show ?thesis
    using v c by (cases en) (auto simp: boot_framebuffer_def Let_def console_inv_outln boot_keeps_def split: if_splits)
qed

lemma sys_outb_fields [simp]:
  fixes s :: "'a kernel_sys_scheme"
  shows "video (sys_outb port v s) = video s" "console_inv (con (sys_outb port v s)) = console_inv (con s)"
    "boot_keeps t (sys_outb port v s) = boot_keeps t s" "idt (sys_outb port v s) = idt s"
    "halted (sys_outb port v s) = halted s" "int_enabled (sys_outb port v s) = int_enabled s"
  by (simp_all add: sys_outb_def on_con_def outb_def console_inv_def boot_keeps_def)

lemma boot_interrupts_ok:
  assumes "s' = boot_interrupts rd addr s"
  shows "video s' = video s" "console_inv (con s') = console_inv (con s)" "boot_keeps s s'" "idt s' = idt (idt_init addr s)"
    "halted s' = halted s"
proof -
  let ?P = "\<lambda>s' :: 'a kernel_sys_scheme. video s' = video s \<and> console_inv (con s') = console_inv (con s) \<and> boot_keeps s s' \<and>
    idt s' = idt (idt_init addr s) \<and> halted s' = halted s"
  let ?s1 = "pic_remap rd 0x20 0x28 (idt_init addr s)"
  have "?P ?s1" by (simp add: pic_remap_def Let_def io_wait_def) (simp add: idt_init_def boot_keeps_def)
  then have "?P (for_range 0 16 (\<lambda>irq. pic_set_mask rd (of_nat irq)) ?s1)"
    by (rule for_range_inv) (simp add: pic_set_mask_def Let_def)
  then have "?P s'" unfolding assms boot_interrupts_def Let_def pit_init_def pic_clear_mask_def by simp
  then show "video s' = video s" "console_inv (con s') = console_inv (con s)" "boot_keeps s s'" "idt s' = idt (idt_init addr s)"
    "halted s' = halted s" by simp_all
qed

lemma boot_session_tables:
  assumes "pty_alloc (pty_init p0) = (t, p)"
  shows "0 \<le> t" "\<exists>t1 t2 t3. session_create 1 (session_init z) = (1, t1) \<and>
    session_set_controlling_pty 1 t p t1 = (True, t2) \<and> session_set_active 1 t2 = (True, t3) \<and>
    session_inv p t3 \<and> session_active_pty t3 = t"
proof -
  note al = pty_alloc_open [OF pty_inv_init assms]
  have "\<not> allocated (g_ptys (pty_init p0) ! 0)" by (simp add: pty_init_def pty_slot_zero_def PTY_MAX_def)
  then show t: "0 \<le> t" using al(3) by (force simp: PTY_MAX_def not_less [symmetric])
  then have v: "pty_is_valid t p" using al(4) by simp
  have u: "[0..<SESSION_MAX] = 0 # [1..<SESSION_MAX]" by (simp add: SESSION_MAX_def upt_rec)
  obtain t1 where c: "session_create 1 (session_init z) = (1, t1)"
    unfolding session_create_def u by (simp add: session_init_def SESSION_MAX_def)
  have t1: "session_inv p t1" using session_inv_create [OF session_inv_init, of p 1 z] c by simp
  have "session_find 1 t1 = Some 0"
    using c unfolding session_create_def session_find_def u by (auto simp: session_init_def SESSION_MAX_def)
  then obtain t2 where s2: "session_set_controlling_pty 1 t p t1 = (True, t2)"
    and t2: "t2 = t1\<lparr>g_sessions := (g_sessions t1)[0 := (g_sessions t1 ! 0)\<lparr>controlling_pty := t\<rparr>]\<rparr>"
    using v by (simp add: session_set_controlling_pty_def)
  have i2: "session_inv p t2" using session_inv_set_pty [OF t1, of 1 t] s2 by simp
  have len: "0 < length (g_sessions t1)" using t1 by (simp add: session_inv_def SESSION_MAX_def)
  have "in_use (g_sessions t2 ! 0)"
    using session_find_iff [OF t1, of 1 0] \<open>session_find 1 t1 = Some 0\<close> len by (simp add: t2)
  then have f2: "session_find 1 t2 = Some 0" using session_find_iff [OF i2, of 1 0] by (simp add: SESSION_MAX_def)
  let ?t3 = "t2\<lparr>g_active_session_id := 1\<rparr>"
  have s3: "session_set_active 1 t2 = (True, ?t3)" using f2 by (simp add: session_set_active_def)
  moreover have "session_inv p ?t3" using session_inv_set_active [OF i2, of 1] s3 by simp
  moreover have "session_active_pty ?t3 = t"
    using f2 len by (simp add: session_active_pty_def session_find_def t2)
  ultimately show "\<exists>t1 t2 t3. session_create 1 (session_init z) = (1, t1) \<and>
    session_set_controlling_pty 1 t p t1 = (True, t2) \<and> session_set_active 1 t2 = (True, t3) \<and>
    session_inv p t3 \<and> session_active_pty t3 = t"
    using c s2 by blast
qed

lemma boot_drivers_ok:
  fixes s :: "'a shell_sys_scheme"
  assumes "static_ready s" "console_inv (con s)" "s' = boot_drivers s"
  shows "io_inv s'" "kbd_inv (kbd s')" "session_inv (ptys s') (sessions s')" "0 \<le> session_active_pty (sessions s')"
    "tty_session_pty (tty s') = session_active_pty (sessions s')" "tty_line_len (tty s') = 0" "tty_escape_state (tty s') = 0"
    "kbd s' = keyboard_init (kbd s)" "active_input s' = []" "history s' = history_new" "shell_line s' = replicate SHELL_LINE_MAX 0"
    "video s' = video s" "shell_sys.more s' = shell_sys.more s"
proof -
  let ?k = "keyboard_init (kbd s)"
  obtain t p where al: "pty_alloc (pty_init (ptys s)) = (t, p)" by fastforce
  obtain t1 t2 t3 where tb: "session_create 1 (session_init (sessions s)) = (1, t1)"
    "session_set_controlling_pty 1 t p t1 = (True, t2)" "session_set_active 1 t2 = (True, t3)"
    "session_inv p t3" "session_active_pty t3 = t"
    using boot_session_tables(2) [OF al, of "sessions s"] by blast
  note t = boot_session_tables(1) [OF al] and op = pty_alloc_open [OF pty_inv_init al]
  let ?s2 = "(tty_init (s\<lparr>kbd := ?k\<rparr>))\<lparr>ptys := p, sessions := t3\<rparr>"
  have f: "ptys (tty_init r) = ptys r" "sessions (tty_init r) = sessions r" for r :: "'a shell_sys_scheme"
    by (simp_all add: tty_init_def on_tty_def)
  have e: "s' = outln ''Session initialized'' (tty_attach_session 1 t ?s2)"
    using al tb t by (simp add: assms(3) boot_drivers_def boot_session_def Let_def f)
  have k: "kbd_inv ?k" using keyboard_init_inv [of "kbd s"] assms(1) by (simp add: static_ready_def)
  have ty: "tty_inv (tty s')"
    using assms(1) by (simp add: e tty_attach_session_def tty_init_def on_tty_def tty_inv_def static_ready_def
        ring_wf_zero)
  have c: "console_inv (con s')" unfolding e
    by (rule console_inv_outln) (use assms(2) in \<open>simp add: tty_attach_session_def tty_init_def on_tty_def\<close>)
  show "io_inv s'" using ty c op(1) by (simp add: io_inv_def e tty_attach_session_def on_tty_def)
  show "kbd_inv (kbd s')" "session_inv (ptys s') (sessions s')" "0 \<le> session_active_pty (sessions s')"
    "tty_session_pty (tty s') = session_active_pty (sessions s')" "tty_line_len (tty s') = 0" "tty_escape_state (tty s') = 0"
    "kbd s' = keyboard_init (kbd s)" "history s' = history_new" "shell_line s' = replicate SHELL_LINE_MAX 0"
    "video s' = video s" "shell_sys.more s' = shell_sys.more s"
    using k t tb(4,5) assms(1)
    by (simp_all add: e tty_attach_session_def tty_init_def on_tty_def static_ready_def)
  show "active_input s' = []"
    using op(4) t tb(5) by (simp add: active_input_def e tty_attach_session_def on_tty_def)
qed

text \<open>The invariant of the running kernel.\<close>

definition kernel_inv :: "(handler \<Rightarrow> u64) \<Rightarrow> 'a kernel_sys_scheme \<Rightarrow> bool" where
  "kernel_inv addr s \<longleftrightarrow> shell_inv s \<and> vm_inv (vmem (video s)) \<and> 0 \<le> session_active_pty (sessions s) \<and>
     length (idt s) = 256 \<and> (\<forall>v < 256. idt s ! v = idt_gate (addr (vector_handler v)) 0x8E) \<and>
     (int_enabled s \<longleftrightarrow> \<not> halted s)"

declare kernel_inv_def [inv_defs]

lemma boot_start_ok:
  fixes s :: "'a kernel_sys_scheme"
  assumes "io_inv s" "kbd_inv (kbd s)" "session_inv (ptys s) (sessions s)" "history s = history_new"
    "shell_line s = replicate SHELL_LINE_MAX 0" "s' = boot_start s"
  shows "shell_inv s'" "sessions s' = sessions s" "video s' = video s" "idt s' = idt s" "int_enabled s'" "halted s' = halted s"
    "kbd s' = kbd s" "ptys s' = ptys s" "shell_len s' = 0"
    "tty s' = (tty s)\<lparr>tty_canonical := True, tty_echo := True\<rparr>" "history s' = history s"
proof -
  have [simp]: "hist_inv history_new" by (simp add: hist_inv_def history_new_def)
  note start = assms(6) [unfolded boot_start_def Let_def shell_init_def shell_prompt_def]
  have "console_inv (con s')" using assms(1) by (simp add: start op_defs console_invs io_inv_def)
  moreover show "sessions s' = sessions s" "video s' = video s" "idt s' = idt s" "int_enabled s'" "halted s' = halted s"
    "kbd s' = kbd s" "ptys s' = ptys s" "shell_len s' = 0" "tty s' = (tty s)\<lparr>tty_canonical := True, tty_echo := True\<rparr>"
    "history s' = history s"
    by (simp_all add: start op_defs)
  moreover have "shell_line s' = shell_line s" by (simp add: start op_defs)
  ultimately show "shell_inv s'"
    using assms(1-5) by (simp add: shell_inv_def io_inv_def tty_inv_def)
qed

lemma kernel_more_fields:
  fixes s s' :: "'a kernel_sys_scheme"
  assumes "shell_sys.more s' = shell_sys.more s"
  shows "idt s' = idt s" "int_enabled s' = int_enabled s" "halted s' = halted s" "idtr_limit s' = idtr_limit s"
  using assms by (cases s; cases s'; simp)+

lemma kernel_main_boots:
  fixes s :: "'a kernel_sys_scheme"
  assumes "boot_info_sound m (ucast info)" "image_ready kstart kend (vmem (video s))" "static_ready s" "\<not> halted s"
  shows "\<exists>s'. kernel_main m kstart kend addr rd MULTIBOOT2_BOOTLOADER_MAGIC info s = Some s' \<and> kernel_inv addr s' \<and>
    \<not> halted s' \<and> tty_attached_pty s' = session_active_pty (sessions s') \<and> tty_canonical (tty s') \<and> tty_echo (tty s') \<and>
    tty_editor s' = (0, []) \<and> kbd s' = keyboard_init (kbd s) \<and> active_input s' = [] \<and> shell_len s' = 0 \<and> history s' = history_new"
proof -
  let ?s1 = "outln ''CPU mode: x86_64 long mode'' (outln ''WaluOS booting...'' (on_con console_init s))"
  have c1: "console_inv (con ?s1)"
    using console_init_inv(1) [of "con s"] assms(3) by (intro console_inv_outln) (simp add: on_con_def static_ready_def)
  have f1: "video ?s1 = video s" "boot_keeps s ?s1" "halted ?s1 = halted s"
    by (simp_all add: on_con_def boot_keeps_def outln_def)
  obtain s2 where s2: "boot_memory m kstart kend info ?s1 = Some s2" "vm_inv (vmem (video s2))" "console_inv (con s2)"
    "boot_keeps ?s1 s2" "shell_sys.more s2 = shell_sys.more ?s1"
    using boot_memory_ok [OF assms(1) _ c1] assms(2) f1(1) by metis
  obtain s3 where s3: "boot_framebuffer s2 = Some s3" "vm_inv (vmem (video s3))" "console_inv (con s3)"
    "boot_keeps s2 s3" "shell_sys.more s3 = shell_sys.more s2"
    using boot_framebuffer_ok [OF s2(2,3)] by blast
  let ?s4 = "boot_interrupts rd addr s3"
  obtain s4 where s4: "s4 = ?s4" by simp
  note i = boot_interrupts_ok [OF s4]
  obtain s5 where s5: "s5 = boot_drivers s4" by simp
  have keep: "boot_keeps s s4" using f1(2) s2(4) s3(4) i(3) by (simp add: boot_keeps_def)
  have "length (ansi_params (con s4)) = ANSI_MAX_PARAMS" using i(2) s3(3) by (simp add: console_inv_def)
  then have st: "static_ready s4" using assms(3) keep by (simp add: static_ready_def boot_keeps_def)
  have c4: "console_inv (con s4)" using i(2) s3(3) by simp
  note d = boot_drivers_ok [OF st c4 s5]
  obtain s' where s': "s' = boot_start s5" by simp
  note b = boot_start_ok [OF d(1-3) d(10,11) s']
  have h: "halted s' = halted s"
    using b(6) kernel_more_fields [OF d(13)] i(5) kernel_more_fields [OF s3(5)] kernel_more_fields [OF s2(5)] f1(3) by simp
  have "idt s' = idt (idt_init addr s3)" using b(4) kernel_more_fields [OF d(13)] i(4) by simp
  then have "kernel_inv addr s'"
    using b d(4,12) i(1) s3(2) h assms(4) idt_init_table(1) [of addr s3] idt_init_table(2) [of _ addr s3] by (simp add: kernel_inv_def)
  moreover have "kernel_main m kstart kend addr rd MULTIBOOT2_BOOTLOADER_MAGIC info s = Some s'"
    using s2(1) s3(1) s4 s5 s' by (simp add: kernel_main_def Let_def)
  ultimately show ?thesis
    using b d(4-10) h assms(4) keep by (simp add: boot_keeps_def tty_attached_pty_def tty_editor_def active_input_def)
qed

section \<open>The running kernel\<close>

text \<open>
  A step of the running kernel: a round of the idle loop, or the handler that the descriptor table has
  for a vector, for an interrupt while interrupts are on or for an exception. A halted kernel stops.
\<close>

inductive kernel_step :: "(handler \<Rightarrow> u64) \<Rightarrow> 'a kernel_sys_scheme \<Rightarrow> 'a kernel_sys_scheme \<Rightarrow> bool" for addr where
  poll: "\<not> halted s \<Longrightarrow> shell_poll s = Some s' \<Longrightarrow> kernel_step addr s s'"
| handle: "int_enabled s \<or> \<not> halted s \<and> v < 32 \<Longrightarrow> v < 256 \<Longrightarrow> addr h = gate_offset (idt s ! v) \<Longrightarrow>
    kernel_step addr s (run_handler cr2 error_code scancode h s)"

lemma sys_outb_shell_inv [simp]: "shell_inv (sys_outb port v s) = shell_inv s"
  by (simp add: sys_outb_def on_con_def outb_def shell_inv_def io_inv_def console_inv_def)

lemma sys_outb_sessions [simp]: "sessions (sys_outb port v s) = sessions s"
  by (simp add: sys_outb_def on_con_def)

lemma kernel_inv_eoi [simp]: "kernel_inv addr (pic_send_eoi line s) = kernel_inv addr s"
  by (simp add: pic_send_eoi_def kernel_inv_def)

text \<open>A panic prints and leaves the machine halted with interrupts off.\<close>

lemma prints_panic: "prints s (panic_report cr2 v e he s)"
  by (simp add: panic_report_def Let_def prints_out prints_on_con console_invs)

lemma panic_exception_spec:
  fixes s :: "'a kernel_sys_scheme"
  shows "\<exists>c. panic_exception cr2 v e he s = s\<lparr>con := c, int_enabled := False, halted := True\<rparr> \<and>
    (console_inv (con s) \<longrightarrow> console_inv c)"
proof -
  let ?t = "panic_report cr2 v e he (s\<lparr>int_enabled := False\<rparr>)"
  have p: "?t = s\<lparr>int_enabled := False, con := con ?t\<rparr>" "console_inv (con s) \<longrightarrow> console_inv (con ?t)"
    using prints_panic [of "s\<lparr>int_enabled := False\<rparr>" cr2 v e he] by (simp_all add: prints_def)
  have "panic_exception cr2 v e he s = s\<lparr>con := con ?t, int_enabled := False, halted := True\<rparr>"
    unfolding panic_exception_def cli_def by (subst p(1)) simp
  then show ?thesis using p(2) by blast
qed

lemma kernel_inv_handler:
  assumes "kernel_inv addr s"
  shows "kernel_inv addr (run_handler cr2 e sc h s)"
proof (cases h)
  case (Isr n)
  obtain v c he where p: "run_handler cr2 e sc h s = panic_exception cr2 v c he s"
    by (cases "isr_has_error n") (simp_all add: Isr run_handler_def isr_def)
  obtain t where "run_handler cr2 e sc h s = s\<lparr>con := t, int_enabled := False, halted := True\<rparr>"
    "console_inv (con s) \<longrightarrow> console_inv t"
    using panic_exception_spec [of cr2 v c he s] unfolding p by blast
  then show ?thesis using assms by (simp add: inv_defs)
next
  case Irq_keyboard
  have "kbd_inv (keyboard_on_irq sc (kbd s))" using assms keyboard_on_irq_inv by (auto simp: kernel_inv_def shell_inv_def)
  then show ?thesis using assms
    by (simp add: Irq_keyboard run_handler_def irq_keyboard_def) (simp add: inv_defs)
next
  case Irq_timer
  then show ?thesis using assms
    by (simp add: run_handler_def irq_timer_def) (simp add: inv_defs pit_on_tick_def)
qed (use assms in \<open>simp add: run_handler_def irq_default_def\<close>)

lemma kernel_inv_step:
  assumes "kernel_step addr s s'" "kernel_inv addr s"
  shows "kernel_inv addr s'"
  using assms(1)
proof cases
  case poll
  have "shell_inv s" "0 \<le> session_active_pty (sessions s)" using assms(2) by (simp_all add: kernel_inv_def)
  from shell_poll_ok [OF this] poll(2) have k: "shell_inv s'" "sessions s' = sessions s" "video s' = video s"
    "shell_sys.more s' = shell_sys.more s" by auto
  then show ?thesis using assms(2) kernel_more_fields [OF k(4)] by (simp add: kernel_inv_def)
next
  case handle
  then show ?thesis using kernel_inv_handler [OF assms(2)] by simp
qed

interpretation running_kernel: invariant_system "kernel_step addr" "kernel_inv addr" for addr
  by unfold_locales (rule kernel_inv_step)

section \<open>Properties\<close>

text \<open>
  C2: The kernel boots: with sound boot information, its page tables inside an image that ends below
  16 MiB, and zeroed static storage, \<^verbatim>\<open>kernel_main\<close> reaches its idle loop with the invariant of every
  component established, interrupts on, all 256 gates set, and the terminal attached to the
  pseudo-terminal of the active session; with any other magic number it halts with interrupts off.
\<close>

theorem kernel_boots:
  assumes "boot_info_sound m (ucast info)" "image_ready kstart kend (vmem (video s))" "static_ready s" "\<not> halted s"
  shows "\<exists>s'. kernel_main m kstart kend addr rd magic info s = Some s' \<and>
    (if magic = MULTIBOOT2_BOOTLOADER_MAGIC
     then kernel_inv addr s' \<and> int_enabled s' \<and> \<not> halted s' \<and>
       tty_attached_pty s' = session_active_pty (sessions s') \<and> 0 \<le> session_active_pty (sessions s')
     else halted s' \<and> \<not> int_enabled s')"
proof (cases "magic = MULTIBOOT2_BOOTLOADER_MAGIC")
  case True
  then show ?thesis using kernel_main_boots [OF assms, of addr rd] by (auto simp: kernel_inv_def)
qed (simp add: kernel_main_def halt_forever_def cli_def Let_def)

text \<open>
  After a boot, whatever interrupts, exceptions, scancodes and rounds of the idle loop follow in
  whatever order, the invariant of every component holds, and unless a processor exception halted
  the machine, the next round of the idle loop returns having handled everything that was typed.
\<close>

theorem kernel_stays_responsive:
  assumes "boot_info_sound m (ucast info)" "image_ready kstart kend (vmem (video s))" "static_ready s" "\<not> halted s"
    and "kernel_main m kstart kend addr rd MULTIBOOT2_BOOTLOADER_MAGIC info s = Some s0" "(kernel_step addr)\<^sup>*\<^sup>* s0 s1"
  shows "kernel_inv addr s1 \<and>
    (halted s1 \<or> (\<exists>s2. shell_poll s1 = Some s2 \<and> kernel_step addr s1 s2 \<and> kbd_bytes (kbd s2) = [] \<and> active_input s2 = []))"
proof -
  have "kernel_inv addr s0" using kernel_main_boots [OF assms(1-4), of addr rd] assms(5) by auto
  then have i: "kernel_inv addr s1" by (rule running_kernel.reach_inv [OF assms(6)])
  then have "shell_inv s1" "0 \<le> session_active_pty (sessions s1)" by (simp_all add: kernel_inv_def)
  from shell_poll_ok [OF this] show ?thesis using i by (auto intro: kernel_step.poll)
qed

lemma irq_keyboard_fold:
  fixes s :: "'a kernel_sys_scheme"
  shows "kbd (fold irq_keyboard scs s) = fold keyboard_on_irq scs (kbd s)" "tty (fold irq_keyboard scs s) = tty s"
    "ptys (fold irq_keyboard scs s) = ptys s" "io_sys.more (fold irq_keyboard scs s) = io_sys.more s"
    "kernel_inv addr s \<Longrightarrow> kernel_inv addr (fold irq_keyboard scs s)"
proof (induction scs arbitrary: s)
  case (Cons sc scs)
  have f: "kbd (irq_keyboard sc s) = keyboard_on_irq sc (kbd s)" "tty (irq_keyboard sc s) = tty s"
    "ptys (irq_keyboard sc s) = ptys s" "io_sys.more (irq_keyboard sc s) = io_sys.more s" for s :: "'a kernel_sys_scheme"
    by (simp_all add: irq_keyboard_def pic_send_eoi_def sys_outb_def on_con_def)
  { case 1 then show ?case using Cons.IH(1) f by simp
  next case 2 then show ?case using Cons.IH(2) f by simp
  next case 3 then show ?case using Cons.IH(3) f by simp
  next case 4 then show ?case using Cons.IH(4) f by simp
  next case 5 then show ?case
      using Cons.IH(5) kernel_inv_handler [of addr s _ _ sc Irq_keyboard] by (simp add: run_handler_def) }
qed simp_all

text \<open>
  C3: From power-on to a command: after a boot, keyboard interrupts whose scancodes spell a line and
  Enter, followed by one round of the idle loop, run that line. It is echoed; the command it names runs in a
  state where the line is the only entry of the history, and prints its output, clears the console
  or runs the self-test; then the prompt is printed and the shell waits for the next line.
\<close>

theorem boot_to_command:
  assumes "boot_info_sound m (ucast info)" "image_ready kstart kend (vmem (video s))" "static_ready s" "\<not> halted s"
    and "kernel_main m kstart kend addr rd MULTIBOOT2_BOOTLOADER_MAGIC info s = Some s0"
    and "s1 = fold irq_keyboard scancodes s0" "kbd_bytes (kbd s1) = line @ [0x0A]" "list_all line_byte line" "length line \<le> 127"
    and "cmd = dropWhile (\<lambda>c. c = 0x20) line" "cmd \<noteq> []"
  shows "\<exists>s2 t u s'. tty_poll_input s1 = Some s2 \<and> con s2 = fold console_putc (line @ [0x0A]) (con s1) \<and>
    sessions s2 = sessions s1 \<and> video s2 = video s1 \<and> g_ticks s2 = g_ticks s1 \<and>
    runs_in (history t) s2 t \<and> hist_list (history t) = [take 63 cmd] \<and> run_command (parse_command cmd) t = Some u \<and>
    shell_poll s1 = Some s' \<and> con s' = fold console_putc prompt_text (con u) \<and> history s' = history t \<and> shell_len s' = 0"
proof -
  have b: "kernel_inv addr s0" "tty_attached_pty s0 = session_active_pty (sessions s0)" "tty_canonical (tty s0)"
    "tty_editor s0 = (0, [])" "active_input s0 = []" "shell_len s0 = 0" "history s0 = history_new" "tty_echo (tty s0)"
    using kernel_main_boots [OF assms(1-4), of addr rd] assms(5) by auto
  note f = irq_keyboard_fold(2-4) [of scancodes s0, folded assms(6)] irq_keyboard_fold(5) [OF b(1), of scancodes, folded assms(6)]
  note m = more_fields [OF f(3)]
  have h: "shell_inv s1" "0 \<le> session_active_pty (sessions s1)" "tty_session_pty (tty s1) = session_active_pty (sessions s1)"
    "tty_canonical (tty s1)" "tty_editor s1 = (0, [])" "active_input s1 = []" "shell_len s1 = 0"
    using f(1,2,4) b m by (simp_all add: kernel_inv_def tty_attached_pty_def tty_editor_def active_input_def)
  have "hist_inv history_new" "hist_list history_new = []" "hist_count history_new = 0"
    by (simp_all add: hist_inv_def history_new_def hist_list_def)
  then have "hist_list (command_history line history_new) = [take 63 cmd]"
    using command_history_line(1) [OF _ assms(10,11), of history_new] by simp
  moreover have "tty_echo (tty s1)" "history s1 = history_new" using f(1) b(7,8) m by simp_all
  ultimately show ?thesis using typed_line_spec [OF h assms(7-11)] by (fastforce simp: runs_in_def)
qed

text \<open>Zeroed static storage, with the boot tables at \<open>0x110000\<close>, and controllers as the data sheet has them.\<close>

definition kernel_zero :: kernel_sys where
  "kernel_zero = \<lparr>kbd = keyboard_zero, ptys = \<lparr>g_ptys = [], g_pty_dropped_bytes = 0, g_pty_invalid_ops = 0\<rparr>,
     con = console_zero, tty = tty_zero, sessions = \<lparr>g_sessions = [], g_active_session_id = 0, g_session_invalid_ops = 0\<rparr>,
     video = \<lparr>vmem = \<lparr>pmm = \<lparr>frame_bitmap = [], total_frames = 0, used_frames = 0\<rparr>, tables = boot_tables 0x110000,
       pml4_table = 0x110000, invlpg_log = []\<rparr>, g_fb = fb_zero\<rparr>,
     g_ticks = 0, history = history_new, shell_line = replicate 128 0, shell_len = 0,
     idt = replicate 256 idt_zero, idtr_limit = None, int_enabled = False, halted = False\<rparr>"

definition datasheet_device :: device where
  "datasheet_device log port = irq_mask (chip (port - 1) log)"

lemma datasheet_device_ok: "pic_device datasheet_device"
  by (simp add: pic_device_def datasheet_device_def)

lemma kernel_zero_ready:
  "image_ready 0x100000 0x120000 (vmem (video kernel_zero))" "static_ready kernel_zero" "\<not> halted kernel_zero"
  using keyboard_zero_facts
  by (simp_all add: kernel_zero_def image_ready_def static_ready_def kbd_inv_def ring_wf_def console_zero_def tty_zero_def
      keyboard_zero_def)

lemma typed_l: "kbd_bytes (fold keyboard_on_irq [0x26, 0xA6, 0x1C] (keyboard_init keyboard_zero)) = [0x6C, 0x0A]"
  by code_simp

theorem irq_routing_witness:
  "gate_offset (idt (boot_interrupts datasheet_device (\<lambda>h. if h = Irq_keyboard then 7 else 9) kernel_zero) !
     (unat (vector_base (sys_chip 0x20 (boot_interrupts datasheet_device (\<lambda>h. if h = Irq_keyboard then 7 else 9) kernel_zero))) + 1)) = 7"
  using irq_routing [OF datasheet_device_ok, of 1, OF _ refl refl refl, of "\<lambda>h. if h = Irq_keyboard then 7 else 9" kernel_zero]
  by simp

theorem kernel_boots_witness:
  "\<exists>s'. kernel_main sample_memory 0x100000 0x120000 (\<lambda>_. 0x101000) datasheet_device 0x36d76289 0x1000 kernel_zero = Some s' \<and>
     int_enabled s' \<and> \<not> halted s' \<and> shell_inv s'"
  using kernel_boots [of sample_memory "0x1000", OF _ kernel_zero_ready, of "\<lambda>_. 0x101000" datasheet_device "0x36d76289"] sample_sound
  by (auto simp: kernel_inv_def)

theorem kernel_stays_responsive_witness:
  "\<exists>s0 s2. kernel_main sample_memory 0x100000 0x120000 (\<lambda>_. 0x101000) datasheet_device 0x36d76289 0x1000 kernel_zero = Some s0 \<and>
     shell_poll (run_handler 0 0 0x1E Irq_keyboard s0) = Some s2 \<and> kbd_bytes (kbd s2) = []"
proof -
  let ?a = "\<lambda>_ :: handler. 0x101000 :: u64"
  have snd: "boot_info_sound sample_memory (ucast (0x1000 :: u32))" using sample_sound by simp
  obtain s0 where s0: "kernel_main sample_memory 0x100000 0x120000 ?a datasheet_device 0x36d76289 0x1000 kernel_zero = Some s0"
    "kernel_inv ?a s0" "\<not> halted s0"
    using kernel_main_boots [OF snd kernel_zero_ready] by blast
  have st: "kernel_step ?a s0 (run_handler 0 0 0x1E Irq_keyboard s0)"
    by (rule kernel_step.handle [of _ 33]) (use s0(2,3) in \<open>simp_all add: kernel_inv_def vector_handler_def\<close>)
  have "\<not> halted (run_handler 0 0 0x1E Irq_keyboard s0)" using s0(3)
    by (simp add: run_handler_def irq_keyboard_def pic_send_eoi_def)
  moreover have "(kernel_step ?a)\<^sup>*\<^sup>* s0 (run_handler 0 0 0x1E Irq_keyboard s0)"
    using st by (rule r_into_rtranclp)
  ultimately show ?thesis using kernel_stays_responsive [OF snd kernel_zero_ready s0(1)] s0(1) by blast
qed

theorem boot_to_command_witness:
  "\<exists>s0 c s'. kernel_main sample_memory 0x100000 0x120000 (\<lambda>_. 0x101000) datasheet_device 0x36d76289 0x1000 kernel_zero = Some s0 \<and>
     shell_poll (fold irq_keyboard [0x26, 0xA6, 0x1C] s0) = Some s' \<and> hist_list (history s') = [bytes ''l''] \<and>
     con s' = fold console_putc prompt_text (fold console_putc (bytes ''Unknown command: l'' @ [0x0A]) c)"
proof -
  have snd: "boot_info_sound sample_memory (ucast (0x1000 :: u32))" using sample_sound by simp
  obtain s0 where s0: "kernel_main sample_memory 0x100000 0x120000 (\<lambda>_. 0x101000) datasheet_device 0x36d76289 0x1000 kernel_zero = Some s0"
    "kbd s0 = keyboard_init (kbd kernel_zero)"
    using kernel_main_boots [OF snd kernel_zero_ready] by blast
  have k: "kbd_bytes (kbd (fold irq_keyboard [0x26, 0xA6, 0x1C] s0)) = [0x6C] @ [0x0A]"
    unfolding irq_keyboard_fold(1) s0(2) using typed_l by (simp add: kernel_zero_def)
  have l: "list_all line_byte [0x6C]" "length [0x6C :: u8] \<le> 127" "[0x6C] = dropWhile (\<lambda>c. c = 0x20) [0x6C :: u8]" "[0x6C :: u8] \<noteq> []"
    "take 63 [0x6C] = bytes ''l''" "parse_command [0x6C] = Unknown (bytes ''l'')"
    by (simp_all add: line_byte_def tty_is_printable_def bytes_def parse_command_def)
  obtain t u s' :: kernel_sys where r: "hist_list (history t) = bytes ''l'' # []" "run_command (Unknown (bytes ''l'')) t = Some u"
    "shell_poll (fold irq_keyboard [0x26, 0xA6, 0x1C] s0) = Some s'" "con s' = fold console_putc prompt_text (con u)" "history s' = history t"
    using boot_to_command [OF snd kernel_zero_ready s0(1) refl k l(1-4), unfolded l(5,6)] by blast
  have "u = show_text (bytes ''Unknown command: l'' @ [0x0A]) t" using r(2) by (simp add: run_command_def bytes_def)
  then have "con s' = fold console_putc prompt_text (fold console_putc (bytes ''Unknown command: l'' @ [0x0A]) (con t))"
    using r(4) by (simp only: show_text_def on_con_def) simp
  then show ?thesis using s0(1) r(1,3,5) by metis
qed

end
