(* ===== verification/Idle.thy ===== *)
theory Idle
  imports Kernel Preempt
begin

text \<open>
  The idle loop of \<^verbatim>\<open>kernel_main\<close> one access at a time. A position tells where the processor is in
  \<^verbatim>\<open>shell_poll\<close> (\<^verbatim>\<open>kernel/src/core/shell.c\<close>) and the loop of \<^verbatim>\<open>tty_poll_input\<close> (\<^verbatim>\<open>tty.c\<close>) that it calls, with
  \<^verbatim>\<open>keyboard_pop_char\<close> cut into its three accesses to the queue, and interrupts come at any position. The
  single-step rounds of theory \<^verbatim>\<open>Kernel\<close> are the runs of this loop without interrupts.
\<close>

section \<open>Positions and steps\<close>

datatype position =
    Poll                       \<comment> \<open>before the check for a byte\<close>
  | Fetch                      \<comment> \<open>before the read of the byte\<close>
  | Store u8                   \<comment> \<open>before the store of the tail\<close>
  | Receive u8                 \<comment> \<open>in the body of the terminal's loop\<close>
  | Read_pty int               \<comment> \<open>before a read of the session's input\<close>
  | Run_pty int "u8 list"      \<comment> \<open>in the loop over the bytes read\<close>
  | Read_tty
  | Run_tty u8
  | Before_hlt
  | Asleep

fun program_step :: "position \<Rightarrow> 'a shell_sys_scheme \<Rightarrow> (position \<times> 'a shell_sys_scheme) option" where
  "program_step Poll s =
     Some (if pop_empty (kbd s)
           then let pty_id = session_active_pty (sessions s) in if pty_id \<ge> 0 then Read_pty pty_id else Read_tty
           else Fetch, s)"
| "program_step Fetch s = Some (Store (pop_read (kbd s)), s)"
| "program_step (Store c) s = Some (Receive c, s\<lparr>kbd := pop_store (kbd s)\<rparr>)"
| "program_step (Receive c) s = Some (Poll, tty_receive c s)"
| "program_step (Read_pty pty_id) s =
     (case pty_slave_read pty_id False 128 (ptys s) of (got, p) \<Rightarrow>
        Some (if length got = 0 then Before_hlt else Run_pty pty_id got, s\<lparr>ptys := p\<rparr>))"
| "program_step (Run_pty pty_id []) s = Some (Read_pty pty_id, s)"
| "program_step (Run_pty pty_id (c # cs)) s = map_option (Pair (Run_pty pty_id cs)) (shell_byte c s)"
| "program_step Read_tty s =
     (case tty_pop_char s of None \<Rightarrow> Some (Before_hlt, s) | Some (c, s1) \<Rightarrow> Some (Run_tty c, s1))"
| "program_step (Run_tty c) s = map_option (Pair Read_tty) (shell_byte c s)"
| "program_step Before_hlt s = Some (Asleep, s)"
| "program_step Asleep s = None"

text \<open>An interrupt wakes a processor that sleeps in \<^verbatim>\<open>hlt\<close>; otherwise it returns to where it was.\<close>

definition after_irq :: "position \<Rightarrow> position" where
  "after_irq pc = (if pc = Asleep then Poll else pc)"

text \<open>Uninterrupted runs.\<close>

definition runs :: "position \<times> 'a shell_sys_scheme \<Rightarrow> position \<times> 'a shell_sys_scheme \<Rightarrow> bool" where
  "runs c c' \<longleftrightarrow> (\<lambda>c c'. program_step (fst c) (snd c) = Some c')\<^sup>*\<^sup>* c c'"

inductive idle_step ::
    "(handler \<Rightarrow> u64) \<Rightarrow> position \<times> 'a kernel_sys_scheme \<Rightarrow> position \<times> 'a kernel_sys_scheme \<Rightarrow> bool" for addr where
  program: "\<not> halted s \<Longrightarrow> program_step pc s = Some c \<Longrightarrow> idle_step addr (pc, s) c"
| interrupted: "int_enabled s \<or> \<not> halted s \<and> v < 32 \<Longrightarrow> v < 256 \<Longrightarrow> addr h = gate_offset (idt s ! v) \<Longrightarrow>
    idle_step addr (pc, s) (after_irq pc, run_handler cr2 error_code scancode h s)"

section \<open>The invariant\<close>

text \<open>
  What a position says of the state: the byte being taken is still the oldest one, the session read
  from is the active one, and before the sleep its input is empty.
\<close>

definition at_position :: "position \<Rightarrow> 'a shell_sys_scheme \<Rightarrow> bool" where
  "at_position pc s = (case pc of
       Fetch \<Rightarrow> kbd_bytes (kbd s) \<noteq> []
     | Store c \<Rightarrow> kbd_bytes (kbd s) \<noteq> [] \<and> hd (kbd_bytes (kbd s)) = c
     | Read_pty i \<Rightarrow> i = session_active_pty (sessions s)
     | Run_pty i _ \<Rightarrow> i = session_active_pty (sessions s)
     | Read_tty \<Rightarrow> False | Run_tty _ \<Rightarrow> False
     | Before_hlt \<Rightarrow> active_input s = [] | Asleep \<Rightarrow> active_input s = []
     | _ \<Rightarrow> True)"

definition idle_inv :: "(handler \<Rightarrow> u64) \<Rightarrow> position \<times> 'a kernel_sys_scheme \<Rightarrow> bool" where
  "idle_inv addr c = (case c of (pc, s) \<Rightarrow> kernel_inv addr s \<and> at_position pc s)"

text \<open>The part of the kernel's invariant that the program's own steps could break.\<close>

definition program_keeps :: "'a shell_sys_scheme \<Rightarrow> 'a shell_sys_scheme \<Rightarrow> bool" where
  "program_keeps s s' \<longleftrightarrow> shell_inv s' \<and> sessions s' = sessions s \<and> video s' = video s \<and>
     shell_sys.more s' = shell_sys.more s"

lemma program_keeps_kernel:
  fixes s s' :: "'a kernel_sys_scheme"
  assumes "program_keeps s s'" "kernel_inv addr s"
  shows "kernel_inv addr s'"
proof -
  have "shell_sys.more s' = shell_sys.more s" using assms(1) by (simp add: program_keeps_def)
  from kernel_more_fields [OF this] show ?thesis using assms by (simp add: program_keeps_def kernel_inv_def)
qed

lemma program_keeps_ok: "shell_ok s s' \<Longrightarrow> program_keeps s s'"
  by (simp add: shell_ok_def program_keeps_def)

lemma shell_inv_receive:
  assumes "shell_inv s"
  shows "program_keeps s (tty_receive c s)" "kbd (tty_receive c s) = kbd s"
proof -
  have r: "tty_receive c s = tty_test_inject_bytes (Some [c]) 1 s"
    by (simp add: tty_test_inject_bytes_def for_range_def)
  note i = shell_inv_inject [OF assms r]
  show "program_keeps s (tty_receive c s)" "kbd (tty_receive c s) = kbd s"
    using i more_fields [OF i(2)] by (simp_all add: program_keeps_def)
qed

lemma pop_store_bytes:
  assumes "kbd_inv s" "kbd_bytes s \<noteq> []"
  shows "kbd_inv (pop_store s)" "kbd_bytes s = hd (kbd_bytes s) # kbd_bytes (pop_store s)" "pop_read s = hd (kbd_bytes s)"
proof -
  have e: "\<not> pop_empty s" using pop_accesses(1) [OF assms(1)] assms(2) by simp
  then have p: "keyboard_pop_char s = Some (hd (kbd_bytes s), pop_store s)"
    using pop_accesses(2,3) [OF assms(1)] by simp
  show "kbd_inv (pop_store s)" "kbd_bytes s = hd (kbd_bytes s) # kbd_bytes (pop_store s)"
    using keyboard_pop_char_spec(2) [OF assms(1) p] by simp_all
  show "pop_read s = hd (kbd_bytes s)" using pop_accesses(2) [OF assms(1) e] .
qed

lemma read_pty_keeps:
  assumes "shell_inv s" "i = session_active_pty (sessions s)" "0 \<le> i" "pty_slave_read i False n (ptys s) = (got, p)"
  shows "program_keeps s (s\<lparr>ptys := p\<rparr>)" "got = [] \<Longrightarrow> 0 < n \<Longrightarrow> active_input (s\<lparr>ptys := p\<rparr>) = []"
proof -
  have v: "pty_inv (ptys s)" "pty_is_valid i (ptys s)"
    using assms session_active_open [of "ptys s" "sessions s"] by (auto simp: inv_defs)
  note st = slave_read_step [OF v assms(4)]
  show "program_keeps s (s\<lparr>ptys := p\<rparr>)" using shell_inv_ptys [OF assms(1) st(1)] st(2) by (simp add: program_keeps_def)
  show "got = [] \<Longrightarrow> 0 < n \<Longrightarrow> active_input (s\<lparr>ptys := p\<rparr>) = []" using st(3,4) assms(2) by (simp add: active_input_def)
qed

lemma program_step_keeps:
  assumes "shell_inv s" "0 \<le> session_active_pty (sessions s)" "at_position pc s" "program_step pc s = Some (pc', s')"
  shows "program_keeps s s' \<and> at_position pc' s'"
proof (cases pc)
  case Poll
  have "kbd_inv (kbd s)" using assms(1) by (simp add: inv_defs)
  from pop_accesses(1) [OF this] show ?thesis
    using Poll assms by (auto simp: Let_def at_position_def program_keeps_def split: if_splits)
next
  case Fetch
  have "kbd_inv (kbd s)" using assms(1) by (simp add: inv_defs)
  then show ?thesis using Fetch assms pop_store_bytes(3) by (auto simp: at_position_def program_keeps_def)
next
  case (Store c)
  have "kbd_inv (kbd s)" using assms(1) by (simp add: inv_defs)
  then show ?thesis using Store assms pop_store_bytes(1)
    by (auto simp: at_position_def program_keeps_def) (simp add: inv_defs)
next
  case (Receive c)
  then show ?thesis using assms shell_inv_receive(1) [OF assms(1)] by (auto simp: at_position_def)
next
  case (Read_pty i)
  then show ?thesis
    using assms read_pty_keeps(1,2) [OF assms(1), of i 128]
    by (auto simp: at_position_def program_keeps_def split: prod.splits if_splits)
next
  case (Run_pty i cs)
  then show ?thesis
  proof (cases cs)
    case (Cons b bs)
    from shell_byte_ok [OF assms(1,2), of b] show ?thesis
      using assms Run_pty Cons program_keeps_ok [of s s'] by (auto simp: at_position_def shell_ok_def)
  qed (use assms Run_pty in \<open>auto simp: at_position_def program_keeps_def\<close>)
qed (use assms in \<open>auto simp: at_position_def program_keeps_def active_input_def\<close>)

text \<open>An interrupt leaves the oldest bytes and the sessions alone.\<close>

lemma run_handler_position:
  fixes s :: "'a kernel_sys_scheme"
  assumes "kernel_inv addr s" "at_position pc s"
  shows "at_position (after_irq pc) (run_handler cr2 e sc h s)"
proof -
  let ?s = "run_handler cr2 e sc h s"
  have ss: "sessions ?s = sessions s \<and> ptys ?s = ptys s \<and> (\<exists>bs. kbd_bytes (kbd ?s) = kbd_bytes (kbd s) @ bs)"
  proof (cases h)
    case (Isr n)
    obtain v c he where p: "?s = panic_exception cr2 v c he s"
      by (cases "isr_has_error n") (simp_all add: Isr run_handler_def isr_def)
    obtain t where "?s = s\<lparr>con := t, int_enabled := False, halted := True\<rparr>"
      using panic_exception_spec [of cr2 v c he s] unfolding p by blast
    then show ?thesis by simp
  next
    case Irq_keyboard
    have "kbd_inv (kbd s)" using assms(1) by (simp add: inv_defs)
    from keyboard_on_irq_appends [OF this, of sc] show ?thesis
      by (simp add: Irq_keyboard run_handler_def irq_keyboard_def pic_send_eoi_def sys_outb_def on_con_def)
  qed (simp_all add: run_handler_def irq_timer_def irq_default_def pic_send_eoi_def sys_outb_def on_con_def pit_on_tick_def)
  then show ?thesis using assms(2)
    by (cases pc) (auto simp: at_position_def after_irq_def active_input_def)
qed

lemma idle_step_inv:
  assumes "idle_step addr c c'" "idle_inv addr c"
  shows "idle_inv addr c'"
  using assms(1)
proof cases
  case (program s pc)
  obtain pc' s' where c': "c' = (pc', s')" by fastforce
  have "kernel_inv addr s" "at_position pc s" using assms(2) program(1) by (simp_all add: idle_inv_def)
  moreover from this have "shell_inv s" "0 \<le> session_active_pty (sessions s)" by (simp_all add: kernel_inv_def)
  ultimately show ?thesis
    using program_step_keeps [of s pc pc' s'] program_keeps_kernel [of s s' addr] program(3) c' by (simp add: idle_inv_def)
next
  case (interrupted s v h pc cr2 e sc)
  then show ?thesis using assms(2) kernel_inv_handler run_handler_position by (auto simp: idle_inv_def)
qed

interpretation idle: invariant_system "idle_step addr" "idle_inv addr" for addr
  by unfold_locales (rule idle_step_inv)

section \<open>Runs\<close>

lemma runs_refl [simp]: "runs c c"
  by (simp add: runs_def)

lemma runs_trans [trans]: "runs c c' \<Longrightarrow> runs c' c'' \<Longrightarrow> runs c c''"
  by (simp add: runs_def)

lemma runs_first: "program_step pc s = Some c \<Longrightarrow> runs c c' \<Longrightarrow> runs (pc, s) c'"
  unfolding runs_def by (rule converse_rtranclp_into_rtranclp) auto

text \<open>What is left of a round at a position, in terms of the loops as the shell's theory has them.\<close>

fun rest :: "position \<Rightarrow> 'a shell_sys_scheme \<Rightarrow> 'a shell_sys_scheme option" where
  "rest Poll s = shell_poll s"
| "rest Fetch s = shell_poll (tty_receive (pop_read (kbd s)) (s\<lparr>kbd := pop_store (kbd s)\<rparr>))"
| "rest (Store c) s = shell_poll (tty_receive c (s\<lparr>kbd := pop_store (kbd s)\<rparr>))"
| "rest (Receive c) s = shell_poll (tty_receive c s)"
| "rest (Read_pty i) s = shell_pty_loop i s"
| "rest (Run_pty i cs) s = do { s1 \<leftarrow> shell_bytes cs s; shell_pty_loop i s1 }"
| "rest Read_tty s = shell_tty_loop s"
| "rest (Run_tty c) s = do { s1 \<leftarrow> shell_byte c s; shell_tty_loop s1 }"
| "rest Before_hlt s = Some s"
| "rest Asleep s = Some s"

lemma pop_char_accesses: "keyboard_pop_char s = (if pop_empty s then None else Some (pop_read s, pop_store s))"
  by (simp add: keyboard_pop_char_def pop_empty_def pop_read_def pop_store_def)

lemma shell_poll_unfold:
  "shell_poll s =
     (if pop_empty (kbd s)
      then let i = session_active_pty (sessions s) in if i \<ge> 0 then shell_pty_loop i s else shell_tty_loop s
      else shell_poll (tty_receive (pop_read (kbd s)) (s\<lparr>kbd := pop_store (kbd s)\<rparr>)))"
  by (simp add: shell_poll_def tty_poll_input.simps [of s] pop_char_accesses)

lemma rest_step: "program_step pc s = Some (pc', s') \<Longrightarrow> rest pc s = rest pc' s'"
proof (cases pc)
  case Poll
  assume "program_step pc s = Some (pc', s')"
  then show ?thesis using Poll shell_poll_unfold [of s] by (simp add: Let_def split: if_splits) auto
next
  case (Run_pty i cs)
  assume "program_step pc s = Some (pc', s')"
  then show ?thesis using Run_pty by (cases cs) auto
qed (auto simp: shell_pty_loop.simps [of _ s] shell_tty_loop.simps [of s] split: prod.splits option.splits if_splits)

lemma runs_rest: "runs c c' \<Longrightarrow> rest (fst c) (snd c) = rest (fst c') (snd c')"
  unfolding runs_def
proof (induction rule: converse_rtranclp_induct)
  case (step y z)
  then show ?case using rest_step [of "fst y" "snd y" "fst z" "snd z"] by simp
qed simp

lemma poll_runs: "tty_poll_input s = Some s' \<Longrightarrow> runs (Poll, s) (Poll, s') \<and> pop_empty (kbd s')"
proof (induction rule: tty_poll_input.raw_induct [rotated, consumes 1, case_names round])
  case (round poll s s')
  show ?case
  proof (cases "pop_empty (kbd s)")
    case True
    then show ?thesis using round.hyps by (simp add: pop_char_accesses)
  next
    case False
    let ?c = "pop_read (kbd s)" and ?t = "s\<lparr>kbd := pop_store (kbd s)\<rparr>"
    have r: "runs (Poll, tty_receive ?c ?t) (Poll, s')" "pop_empty (kbd s')"
      using round False by (simp_all add: pop_char_accesses)
    from r(1) have "runs (Receive ?c, ?t) (Poll, s')" by (rule runs_first [rotated]) simp
    then have "runs (Store ?c, s) (Poll, s')" by (rule runs_first [rotated]) simp
    then have "runs (Fetch, s) (Poll, s')" by (rule runs_first [rotated]) simp
    then have "runs (Poll, s) (Poll, s')" by (rule runs_first [rotated]) (simp add: False)
    then show ?thesis using r(2) by simp
  qed
qed

lemma run_pty_runs: "shell_bytes cs s = Some s' \<Longrightarrow> runs (Run_pty i cs, s) (Read_pty i, s')"
proof (induction cs arbitrary: s)
  case Nil
  then show ?case by (intro runs_first [OF _ runs_refl]) simp
next
  case (Cons c cs)
  obtain s1 where s1: "shell_byte c s = Some s1" "shell_bytes cs s1 = Some s'"
    using Cons.prems by (cases "shell_byte c s") simp_all
  show ?case by (rule runs_first [OF _ Cons.IH [OF s1(2)]]) (simp add: s1(1))
qed

lemma read_pty_runs: "shell_pty_loop i s = Some s' \<Longrightarrow> runs (Read_pty i, s) (Before_hlt, s')"
proof (induction rule: shell_pty_loop.raw_induct [rotated, consumes 1, case_names round])
  case (round loop i s s')
  obtain got p where r: "pty_slave_read i False 128 (ptys s) = (got, p)" by fastforce
  show ?case
  proof (cases "length got = 0")
    case True
    then show ?thesis using round(2) r by (intro runs_first [OF _ runs_refl]) simp
  next
    case False
    then obtain s1 where s1: "shell_bytes got (s\<lparr>ptys := p\<rparr>) = Some s1" "loop i s1 = Some s'"
      using round(2) r by (cases "shell_bytes got (s\<lparr>ptys := p\<rparr>)") simp_all
    show ?thesis using False r
      by (intro runs_first [OF _ runs_trans [OF run_pty_runs [OF s1(1)] round(1) [OF s1(2)]]]) simp
  qed
qed

lemma read_tty_runs: "shell_tty_loop s = Some s' \<Longrightarrow> runs (Read_tty, s) (Before_hlt, s')"
proof (induction rule: shell_tty_loop.raw_induct [rotated, consumes 1, case_names round])
  case (round loop s s')
  show ?case
  proof (cases "tty_pop_char s")
    case None
    then show ?thesis using round(2) by (intro runs_first [OF _ runs_refl]) simp
  next
    case (Some r)
    obtain c s1 where r: "r = (c, s1)" by fastforce
    obtain s2 where s2: "shell_byte c s1 = Some s2" "loop s2 = Some s'"
      using round(2) Some r by (cases "shell_byte c s1") simp_all
    have "runs (Run_tty c, s1) (Before_hlt, s')"
      by (rule runs_first [OF _ round(1) [OF s2(2)]]) (simp add: s2(1))
    then show ?thesis using Some r by (intro runs_first) simp_all
  qed
qed

lemma round_runs:
  assumes "shell_poll s = Some s'"
  shows "runs (Poll, s) (Before_hlt, s')"
proof -
  obtain s1 where s1: "tty_poll_input s = Some s1" using assms by (cases "tty_poll_input s") (simp_all add: shell_poll_def)
  let ?i = "session_active_pty (sessions s1)"
  have "runs (if ?i \<ge> 0 then Read_pty ?i else Read_tty, s1) (Before_hlt, s')"
    using assms s1 read_pty_runs read_tty_runs by (auto simp: shell_poll_def)
  then have "runs (Poll, s1) (Before_hlt, s')"
    using poll_runs [OF s1] by (intro runs_first [rotated]) (auto simp: Let_def)
  then show ?thesis using runs_trans poll_runs [OF s1] by blast
qed

text \<open>From every position the rest of the round is a run too.\<close>

lemma rest_runs:
  assumes "rest pc s = Some s'" "pc \<noteq> Asleep"
  shows "runs (pc, s) (Before_hlt, s')"
proof -
  have receive: "runs (Receive c, t) (Before_hlt, s')" if "shell_poll (tty_receive c t) = Some s'" for c t
    using round_runs [OF that] by (rule runs_first [rotated]) simp
  have store: "runs (Store c, t) (Before_hlt, s')" if "shell_poll (tty_receive c (t\<lparr>kbd := pop_store (kbd t)\<rparr>)) = Some s'" for c t
    using receive [OF that] by (rule runs_first [rotated]) simp
  show ?thesis
  proof (cases pc)
    case Poll
    then show ?thesis using assms round_runs by simp
  next
    case Fetch
    have "runs (Store (pop_read (kbd s)), s) (Before_hlt, s')" using store assms(1) Fetch by simp
    then show ?thesis unfolding Fetch by (rule runs_first [rotated]) simp
  next
    case (Run_pty i cs)
    obtain s1 where s1: "shell_bytes cs s = Some s1" "shell_pty_loop i s1 = Some s'"
      using assms(1) Run_pty by (cases "shell_bytes cs s") simp_all
    show ?thesis unfolding Run_pty by (rule runs_trans [OF run_pty_runs [OF s1(1)] read_pty_runs [OF s1(2)]])
  next
    case (Run_tty c)
    obtain s1 where s1: "shell_byte c s = Some s1" "shell_tty_loop s1 = Some s'"
      using assms(1) Run_tty by (cases "shell_byte c s") simp_all
    show ?thesis unfolding Run_tty by (rule runs_first [OF _ read_tty_runs [OF s1(2)]]) (simp add: s1(1))
  qed (use assms receive store read_pty_runs read_tty_runs in simp_all)
qed

text \<open>Under the invariant every round ends, from wherever it is.\<close>

definition polling :: "position \<Rightarrow> bool" where
  "polling pc = (case pc of Poll \<Rightarrow> True | Fetch \<Rightarrow> True | Store _ \<Rightarrow> True | Receive _ \<Rightarrow> True | _ \<Rightarrow> False)"

lemma poll_ends:
  assumes "shell_inv s" "program_keeps s s'" "0 \<le> session_active_pty (sessions s)"
  shows "\<exists>s2. shell_poll s' = Some s2 \<and> active_input s2 = [] \<and> kbd_bytes (kbd s2) = []"
  using shell_poll_ok [of s'] assms(2,3) by (auto simp: program_keeps_def)

lemma round_ends:
  assumes inv: "shell_inv s" "0 \<le> session_active_pty (sessions s)" and pos: "at_position pc s"
  shows "\<exists>s2. rest pc s = Some s2 \<and> active_input s2 = [] \<and> (polling pc \<longrightarrow> kbd_bytes (kbd s2) = [])"
proof -
  have receive: "\<exists>s2. shell_poll (tty_receive c t) = Some s2 \<and> active_input s2 = [] \<and> kbd_bytes (kbd s2) = []"
    if "shell_inv t" "sessions t = sessions s" for c t
    using poll_ends [OF that(1) shell_inv_receive(1) [OF that(1)]] inv(2) that(2) by simp
  have store: "shell_inv (s\<lparr>kbd := pop_store (kbd s)\<rparr>)" if "kbd_bytes (kbd s) \<noteq> []"
    using inv(1) pop_store_bytes(1) [of "kbd s"] that by (simp add: inv_defs)
  have read: "\<exists>s2. shell_pty_loop (session_active_pty (sessions s)) t = Some s2 \<and> active_input s2 = []"
    if "shell_inv t" "sessions t = sessions s" for t
    using shell_pty_loop_ok [OF that(1) refl] inv(2) that(2) by auto
  show ?thesis
  proof (cases pc)
    case Poll
    then show ?thesis using shell_poll_ok [OF inv] by auto
  next
    case (Run_pty i cs)
    obtain t where "shell_bytes cs s = Some t" "shell_ok s t" using shell_bytes_ok [OF inv] by blast
    then show ?thesis using Run_pty pos read [of t] by (auto simp: at_position_def polling_def shell_ok_def)
  qed (use pos receive [OF inv(1) refl] receive [OF store] read [OF inv(1) refl]
      in \<open>auto simp: at_position_def polling_def\<close>)
qed

text \<open>The program's runs are runs of the kernel.\<close>

lemma runs_idle:
  fixes s :: "'a kernel_sys_scheme"
  assumes "runs (pc, s) c'" "idle_inv addr (pc, s)" "\<not> halted s"
  shows "(idle_step addr)\<^sup>*\<^sup>* (pc, s) c'"
  using assms unfolding runs_def
proof (induction "(pc, s)" arbitrary: pc s rule: converse_rtranclp_induct)
  case (step z)
  obtain pc' s' where z: "z = (pc', s')" by fastforce
  have st: "program_step pc s = Some (pc', s')" using step.hyps(1) z by simp
  then have one: "idle_step addr (pc, s) (pc', s')" using step.prems(2) by (intro idle_step.program)
  have "shell_inv s" "0 \<le> session_active_pty (sessions s)" "at_position pc s"
    using step.prems(1) by (simp_all add: idle_inv_def kernel_inv_def)
  then have "shell_sys.more s' = shell_sys.more s" using program_step_keeps [OF _ _ _ st] by (simp add: program_keeps_def)
  then have "\<not> halted s'" using kernel_more_fields(3) step.prems(2) by blast
  then show ?case
    using step.hyps(3) [OF z] idle_step_inv [OF one step.prems(1)] one z by (auto intro: converse_rtranclp_into_rtranclp)
qed simp

text \<open>
  A key that arrives between the last look at the queue and \<^verbatim>\<open>hlt\<close> does not keep the processor from
  sleeping: its bytes wait for the next interrupt.
\<close>

lemma key_before_hlt_waits:
  fixes s :: "'a kernel_sys_scheme"
  assumes "kernel_inv addr s" "\<not> halted s"
  shows "(idle_step addr)\<^sup>*\<^sup>* (Before_hlt, s) (Asleep, irq_keyboard sc s)" "kbd (irq_keyboard sc s) = keyboard_on_irq sc (kbd s)"
proof -
  have "idle_step addr (Before_hlt, s) (after_irq Before_hlt, run_handler 0 0 sc Irq_keyboard s)"
    using assms by (intro idle_step.interrupted [of _ 33]) (simp_all add: kernel_inv_def vector_handler_def)
  then have "idle_step addr (Before_hlt, s) (Before_hlt, irq_keyboard sc s)" by (simp add: after_irq_def run_handler_def)
  moreover have "idle_step addr (Before_hlt, irq_keyboard sc s) (Asleep, irq_keyboard sc s)"
    by (rule idle_step.program) (simp_all add: irq_keyboard_def pic_send_eoi_def assms(2))
  ultimately show "(idle_step addr)\<^sup>*\<^sup>* (Before_hlt, s) (Asleep, irq_keyboard sc s)"
    by (meson converse_rtranclp_into_rtranclp r_into_rtranclp)
  show "kbd (irq_keyboard sc s) = keyboard_on_irq sc (kbd s)"
    by (simp add: irq_keyboard_def pic_send_eoi_def sys_outb_def on_con_def)
qed

section \<open>Properties\<close>

text \<open>
  The two models of a round agree: \<^verbatim>\<open>shell_poll\<close> returns with a state exactly when the accesses and loop
  bodies it consists of, one after the other, lead from its start to the end of the round with that state.
\<close>

lemma round_in_steps: "shell_poll s = Some s' \<longleftrightarrow> runs (Poll, s) (Before_hlt, s')"
  using round_runs runs_rest [of "(Poll, s)" "(Before_hlt, s')"] by auto

text \<open>
  C1: After a boot, with interrupts and exceptions at any point of the idle loop, also inside
  \<^verbatim>\<open>keyboard_pop_char\<close> and between the bytes of a command, the invariant of every component holds. Unless
  an exception halted the machine, a sleeping processor is woken by the timer, and from any other
  point the round comes to its end, having handled what the session had to read and, when it was still
  polling, all that was typed.
\<close>

theorem idle_loop_responsive:
  assumes "boot_info_sound m (ucast info)" "image_ready kstart kend (vmem (video s))" "static_ready s" "\<not> halted s"
    and "kernel_main m kstart kend addr rd MULTIBOOT2_BOOTLOADER_MAGIC info s = Some s0"
    and "(idle_step addr)\<^sup>*\<^sup>* (Poll, s0) (pc, s1)"
  shows "kernel_inv addr s1 \<and>
    (halted s1 \<or>
     (if pc = Asleep then idle_step addr (pc, s1) (Poll, irq_timer s1)
      else \<exists>s2. (idle_step addr)\<^sup>*\<^sup>* (pc, s1) (Before_hlt, s2) \<and> active_input s2 = [] \<and>
        (polling pc \<longrightarrow> kbd_bytes (kbd s2) = [])))"
proof -
  have "kernel_inv addr s0" using kernel_main_boots [OF assms(1-4), of addr rd] assms(5) by auto
  then have "idle_inv addr (Poll, s0)" by (simp add: idle_inv_def at_position_def)
  then have i: "idle_inv addr (pc, s1)" by (rule idle.reach_inv [OF assms(6)])
  then have k: "kernel_inv addr s1" "shell_inv s1" "0 \<le> session_active_pty (sessions s1)" "at_position pc s1"
    by (simp_all add: idle_inv_def kernel_inv_def)
  have "idle_step addr (Asleep, s1) (after_irq Asleep, run_handler 0 0 0 Irq_timer s1)" if "\<not> halted s1"
    using k(1) that by (intro idle_step.interrupted [of _ 32]) (simp_all add: kernel_inv_def vector_handler_def)
  then have wake: "idle_step addr (Asleep, s1) (Poll, irq_timer s1)" if "\<not> halted s1"
    using that by (simp add: after_irq_def run_handler_def)
  obtain s2 where "rest pc s1 = Some s2" "active_input s2 = []" "polling pc \<longrightarrow> kbd_bytes (kbd s2) = []"
    using round_ends [OF k(2-4)] by blast
  then show ?thesis using k(1) wake rest_runs [of pc s1 s2] runs_idle [OF _ i] by auto
qed

theorem idle_loop_responsive_witness:
  "\<exists>s0 s2. kernel_main sample_memory 0x100000 0x120000 (\<lambda>_. 0x101000) datasheet_device 0x36d76289 0x1000 kernel_zero = Some s0 \<and>
     (idle_step (\<lambda>_. 0x101000))\<^sup>*\<^sup>* (Poll, irq_keyboard 0x1E s0) (Before_hlt, s2) \<and> kbd_bytes (kbd s2) = []"
proof -
  let ?a = "\<lambda>_ :: handler. 0x101000 :: u64"
  have snd: "boot_info_sound sample_memory (ucast (0x1000 :: u32))" using sample_sound by simp
  obtain s0 where s0: "kernel_main sample_memory 0x100000 0x120000 ?a datasheet_device 0x36d76289 0x1000 kernel_zero = Some s0"
    "kernel_inv ?a s0" "\<not> halted s0"
    using kernel_main_boots [OF snd kernel_zero_ready] by blast
  have "idle_step ?a (Poll, s0) (after_irq Poll, run_handler 0 0 0x1E Irq_keyboard s0)"
    using s0(2,3) by (intro idle_step.interrupted [of _ 33]) (simp_all add: kernel_inv_def vector_handler_def)
  then have "(idle_step ?a)\<^sup>*\<^sup>* (Poll, s0) (Poll, irq_keyboard 0x1E s0)"
    by (simp add: after_irq_def run_handler_def r_into_rtranclp)
  moreover have "\<not> halted (irq_keyboard 0x1E s0)" using s0(3) by (simp add: irq_keyboard_def pic_send_eoi_def)
  ultimately show ?thesis
    using idle_loop_responsive [OF snd kernel_zero_ready s0(1)] s0(1) by (fastforce simp: polling_def)
qed

end
