(* ===== verification/Libc.thy ===== *)
theory Libc
  imports Prelude
begin

text \<open>
  What the services under \<^verbatim>\<open>userland/\<close> use of the C library, and their logger
  (\<^verbatim>\<open>userland/common/log.c\<close>). A C string is the list of its bytes before the terminating zero. What
  the operating system supplies (files, standard input, the time) is the record \<open>os\<close>, an argument;
  what a process writes is the record \<open>proc\<close>. The services never call \<^verbatim>\<open>setlocale\<close>, so the character
  classes are those of the C locale.
\<close>

section \<open>Strings and input\<close>

text \<open>
  \<^verbatim>\<open>fgets(line, n, fp)\<close>: at most \<open>n - 1\<close> bytes up to and with a newline, and what is left to read. The
  string in the buffer is the part before the first zero byte.
\<close>

fun fgets_bytes :: "nat \<Rightarrow> u8 list \<Rightarrow> u8 list \<times> u8 list" where
  "fgets_bytes 0 f = ([], f)"
| "fgets_bytes (Suc n) [] = ([], [])"
| "fgets_bytes (Suc n) (b # f) =
     (if b = 0x0A then ([b], f) else case fgets_bytes n f of (l, r) \<Rightarrow> (b # l, r))"

definition fgets :: "nat \<Rightarrow> u8 list \<Rightarrow> (u8 list \<times> u8 list) option" where
  "fgets n f = (if f = [] then None else case fgets_bytes (n - 1) f of (l, r) \<Rightarrow> Some (c_str l, r))"

text \<open>\<^verbatim>\<open>snprintf(buf, n, "%s", s)\<close>.\<close>

definition snprintf_s :: "nat \<Rightarrow> u8 list \<Rightarrow> u8 list" where
  "snprintf_s n s = take (n - 1) s"

text \<open>\<^verbatim>\<open>strchr\<close> as the parts before and after the first occurrence.\<close>

definition strchr :: "u8 \<Rightarrow> u8 list \<Rightarrow> (u8 list \<times> u8 list) option" where
  "strchr c s = (if c \<in> set s then Some (takeWhile (\<lambda>b. b \<noteq> c) s, tl (dropWhile (\<lambda>b. b \<noteq> c) s)) else None)"

text \<open>\<^verbatim>\<open>strtok_r\<close>: the next token and the position saved behind it.\<close>

definition strtok_r :: "u8 list \<Rightarrow> u8 list \<Rightarrow> u8 list option \<times> u8 list" where
  "strtok_r delim s =
     (let t = dropWhile (\<lambda>b. b \<in> set delim) s
      in if t = [] then (None, [])
         else (Some (takeWhile (\<lambda>b. b \<notin> set delim) t), tl (dropWhile (\<lambda>b. b \<notin> set delim) t)))"

text \<open>\<^verbatim>\<open>s[strcspn(s, reject)] = '\0'\<close>.\<close>

definition cut_at :: "u8 list \<Rightarrow> u8 list \<Rightarrow> u8 list" where
  "cut_at reject s = takeWhile (\<lambda>b. b \<notin> set reject) s"

definition isupper :: "u8 \<Rightarrow> bool" where "isupper c \<longleftrightarrow> 0x41 \<le> c \<and> c \<le> 0x5A"
definition islower :: "u8 \<Rightarrow> bool" where "islower c \<longleftrightarrow> 0x61 \<le> c \<and> c \<le> 0x7A"
definition isdigit :: "u8 \<Rightarrow> bool" where "isdigit c \<longleftrightarrow> 0x30 \<le> c \<and> c \<le> 0x39"
definition isspace :: "u8 \<Rightarrow> bool" where "isspace c \<longleftrightarrow> c = 0x20 \<or> 0x09 \<le> c \<and> c \<le> 0x0D"

section \<open>Printing\<close>

fun dec :: "nat \<Rightarrow> u8 list" where
  "dec n = (if n < 10 then [0x30 + of_nat n] else dec (n div 10) @ [0x30 + of_nat (n mod 10)])"

declare dec.simps [simp del]

definition dec_int :: "int \<Rightarrow> u8 list" where
  "dec_int i = (if i < 0 then 0x2D # dec (nat (- i)) else dec (nat i))"

definition dec2 :: "int \<Rightarrow> u8 list" where
  "dec2 i = (if 0 \<le> i \<and> i < 10 then 0x30 # dec_int i else dec_int i)"

text \<open>Broken-down time with the fields the format uses; \<^verbatim>\<open>strftime\<close> yields nothing when it does not fit.\<close>

record tm =
  tm_year :: int
  tm_mon :: int
  tm_mday :: int
  tm_hour :: int
  tm_min :: int
  tm_sec :: int

definition strftime_iso :: "nat \<Rightarrow> tm \<Rightarrow> u8 list option" where
  "strftime_iso n t =
     (let s = dec_int (tm_year t + 1900) @ bytes ''-'' @ dec2 (tm_mon t + 1) @ bytes ''-'' @ dec2 (tm_mday t) @ bytes ''T'' @
            dec2 (tm_hour t) @ bytes '':'' @ dec2 (tm_min t) @ bytes '':'' @ dec2 (tm_sec t) @ bytes ''Z''
      in if length s < n then Some s else None)"

section \<open>Processes\<close>

record os =
  os_files :: "u8 list \<Rightarrow> u8 list option"
  os_stdin :: "u8 list"
  os_gmtime :: "tm option"

record proc =
  p_stdout :: "u8 list"
  p_stderr :: "u8 list"
  p_audit :: "u8 list"

definition proc_start :: proc where
  "proc_start = \<lparr>p_stdout = [], p_stderr = [], p_audit = []\<rparr>"

definition printf :: "u8 list list \<Rightarrow> proc \<Rightarrow> proc" where
  "printf parts p = p\<lparr>p_stdout := p_stdout p @ concat parts\<rparr>"

definition eprintf :: "u8 list list \<Rightarrow> proc \<Rightarrow> proc" where
  "eprintf parts p = p\<lparr>p_stderr := p_stderr p @ concat parts\<rparr>"

definition puts :: "string \<Rightarrow> proc \<Rightarrow> proc" where
  "puts str = printf [bytes str, [0x0A]]"

section \<open>Logger\<close>

definition log_emit :: "'a os_scheme \<Rightarrow> string \<Rightarrow> string \<Rightarrow> string \<Rightarrow> proc \<Rightarrow> proc" where
  "log_emit os level component message p =
     (case os_gmtime os of
        None \<Rightarrow> p
      | Some now \<Rightarrow>
          (case strftime_iso 32 now of
             None \<Rightarrow> p
           | Some ts \<Rightarrow> eprintf [bytes ''ts='', ts, bytes '' level='', bytes level, bytes '' component='', bytes component,
                          bytes '' msg='', [0x22], bytes message, [0x22, 0x0A]] p))"

definition log_info :: "'a os_scheme \<Rightarrow> string \<Rightarrow> string \<Rightarrow> proc \<Rightarrow> proc" where
  "log_info os = log_emit os ''info''"

definition log_error :: "'a os_scheme \<Rightarrow> string \<Rightarrow> string \<Rightarrow> proc \<Rightarrow> proc" where
  "log_error os = log_emit os ''error''"

section \<open>Facts\<close>

lemma fgets_bytes_append: "fgets_bytes n f = (l, r) \<Longrightarrow> f = l @ r \<and> length l \<le> n"
  by (induction n f arbitrary: l r rule: fgets_bytes.induct) (auto split: if_splits prod.splits)

lemma fgets_shorter:
  assumes "fgets n f = Some (l, r)" "2 \<le> n"
  shows "length r < length f"
proof -
  obtain m where n: "n = Suc (Suc m)" using assms(2) by (cases n rule: nat.exhaust; cases "n - 1") auto
  obtain l' where "fgets_bytes (Suc m) f = (l', r)" "f \<noteq> []"
    using assms(1) by (auto simp: fgets_def n split: if_splits prod.splits)
  then show ?thesis
    using fgets_bytes_append [of "Suc m" f l' r] by (cases f) (auto split: if_splits prod.splits)
qed

lemma fgets_bytes_line: "0x0A \<notin> set l \<Longrightarrow> length l < n \<Longrightarrow> fgets_bytes n (l @ 0x0A # f) = (l @ [0x0A], f)"
proof (induction l arbitrary: n)
  case Nil
  then show ?case by (cases n) auto
next
  case (Cons b l)
  then show ?case by (cases n) auto
qed

text \<open>A line that fits the buffer is read whole.\<close>

lemma fgets_line:
  assumes "0x0A \<notin> set l" "0 \<notin> set l" "length l + 1 < n"
  shows "fgets n (l @ 0x0A # f) = Some (l @ [0x0A], f)"
  using assms fgets_bytes_line [of l "n - 1" f] by (simp add: fgets_def c_str_no_nul)

lemma fgets_no_nul: "fgets n f = Some (l, r) \<Longrightarrow> 0 \<notin> set l"
  by (auto simp: fgets_def split: if_splits prod.splits)

lemma takeWhile_split: "(\<And>b. b \<in> set a \<Longrightarrow> P b) \<Longrightarrow> \<not> P c \<Longrightarrow> takeWhile P (a @ c # s) = a \<and> dropWhile P (a @ c # s) = c # s"
  by (induction a) auto

lemma strchr_first:
  assumes "c \<notin> set a"
  shows "strchr c (a @ c # s) = Some (a, s)"
proof -
  have "b \<noteq> c" if "b \<in> set a" for b using that assms by auto
  then show ?thesis using takeWhile_split [of a "\<lambda>b. b \<noteq> c" c s] by (simp add: strchr_def)
qed

lemma strtok_r_token:
  assumes "a \<noteq> []" "\<And>b. b \<in> set a \<Longrightarrow> b \<notin> set delim" "d \<in> set delim"
  shows "strtok_r delim (a @ d # s) = (Some a, s)"
proof -
  have "dropWhile (\<lambda>b. b \<in> set delim) (a @ d # s) = a @ d # s" using assms(1,2) by (cases a) auto
  then show ?thesis
    using takeWhile_split [of a "\<lambda>b. b \<notin> set delim" d s] assms by (simp add: strtok_r_def)
qed

lemma strtok_r_some:
  assumes "strtok_r delim s = (Some t, r)"
  shows "t \<noteq> []" "\<forall>b \<in> set t. b \<notin> set delim" "length r < length s"
proof -
  let ?d = "dropWhile (\<lambda>b. b \<in> set delim) s"
  have d: "?d \<noteq> []" and t: "t = takeWhile (\<lambda>b. b \<notin> set delim) ?d" and r: "r = tl (dropWhile (\<lambda>b. b \<notin> set delim) ?d)"
    using assms by (auto simp: strtok_r_def Let_def split: if_splits)
  have hd: "hd ?d \<notin> set delim" using hd_dropWhile [OF d] .
  then obtain b bs where bs: "?d = b # bs" using d by (cases ?d) auto
  then have "b \<notin> set delim" using hd by simp
  then show "t \<noteq> []" by (simp add: t bs)
  show "\<forall>b \<in> set t. b \<notin> set delim" unfolding t by (auto dest: set_takeWhileD)
  have "length (dropWhile (\<lambda>b. b \<notin> set delim) (b # bs)) \<le> length bs"
    using \<open>b \<notin> set delim\<close> length_dropWhile_le [of _ bs] by simp
  then show "length r < length s"
    using length_dropWhile_le [of "\<lambda>b. b \<in> set delim" s] by (simp add: r bs)
qed

lemma strtok_r_nonempty: "fst (strtok_r delim s) \<noteq> Some []"
  using strtok_r_some(1) by (metis prod.collapse)

lemma log_fields [simp]:
  "p_stdout (log_emit os lv c m p) = p_stdout p" "p_audit (log_emit os lv c m p) = p_audit p"
  "p_stdout (log_info os c m p) = p_stdout p" "p_audit (log_info os c m p) = p_audit p"
  "p_stdout (log_error os c m p) = p_stdout p" "p_audit (log_error os c m p) = p_audit p"
  by (simp_all add: log_info_def log_error_def log_emit_def eprintf_def split: option.split)

end
