(* ===== verification/Walud.thy ===== *)
theory Walud
  imports Libc
begin

unbundle bit_operations_syntax

text \<open>
  The service manager (\<^verbatim>\<open>userland/walud/walud.c\<close>): it reads a unit file, checks it, and starts the
  service as the user the unit names. The buffers of \<^verbatim>\<open>unit_service_t\<close> are their strings. What the
  operating system answers to the calls that start a process is part of the record \<open>walud_os\<close>; the
  calls of the child that take effect are a list.
\<close>

section \<open>Unit files\<close>

record unit_service =
  u_description :: "u8 list"
  u_after :: "u8 list"
  u_requires :: "u8 list"
  u_exec_start :: "u8 list"
  u_user :: "u8 list"
  u_restart :: "u8 list"
  u_wanted_by :: "u8 list"

definition unit_zero :: unit_service where
  "unit_zero = \<lparr>u_description = [], u_after = [], u_requires = [], u_exec_start = [], u_user = [], u_restart = [],
     u_wanted_by = []\<rparr>"

definition trim_space :: "u8 \<Rightarrow> bool" where
  "trim_space c \<longleftrightarrow> c = 0x20 \<or> c = 0x09 \<or> c = 0x0A \<or> c = 0x0D"

text \<open>The second loop stops at the first byte left, which is no blank.\<close>

definition trim :: "u8 list \<Rightarrow> u8 list" where
  "trim s = (case dropWhile trim_space s of [] \<Rightarrow> [] | c # t \<Rightarrow> c # rev (dropWhile trim_space (rev t)))"

definition unit_assign :: "u8 list \<Rightarrow> u8 list \<Rightarrow> u8 list \<Rightarrow> unit_service \<Rightarrow> unit_service" where
  "unit_assign sec key value u =
     (if sec = bytes ''Unit'' then
        if key = bytes ''Description'' then u\<lparr>u_description := snprintf_s 128 value\<rparr>
        else if key = bytes ''After'' then u\<lparr>u_after := snprintf_s 128 value\<rparr>
        else if key = bytes ''Requires'' then u\<lparr>u_requires := snprintf_s 128 value\<rparr>
        else u
      else if sec = bytes ''Service'' then
        if key = bytes ''ExecStart'' then u\<lparr>u_exec_start := snprintf_s 256 value\<rparr>
        else if key = bytes ''User'' then u\<lparr>u_user := snprintf_s 64 value\<rparr>
        else if key = bytes ''Restart'' then u\<lparr>u_restart := snprintf_s 32 value\<rparr>
        else u
      else if sec = bytes ''Install'' then
        if key = bytes ''WantedBy'' then u\<lparr>u_wanted_by := snprintf_s 64 value\<rparr> else u
      else u)"

record unit_parser =
  cur_section :: "u8 list"
  line_no :: int
  parsed :: unit_service

text \<open>One line; the error is the number of a line with a malformed section header.\<close>

definition parse_line :: "u8 list \<Rightarrow> unit_parser \<Rightarrow> int + unit_parser" where
  "parse_line line s0 =
     (let p = trim line; s = s0\<lparr>line_no := int_wrap (line_no s0 + 1)\<rparr>
      in if p = [] \<or> hd p = of_char CHR ''#'' \<or> hd p = of_char CHR '';'' then Inr s
         else if hd p = of_char CHR ''['' then
           (case strchr (of_char CHR '']'') p of
              None \<Rightarrow> Inl (line_no s)
            | Some (h, _) \<Rightarrow> Inr (s\<lparr>cur_section := snprintf_s 32 (tl h)\<rparr>))
         else
           (case strchr (of_char CHR ''='') p of
              None \<Rightarrow> Inr s
            | Some (k, v) \<Rightarrow> Inr (s\<lparr>parsed := unit_assign (cur_section s) (trim k) (trim v) (parsed s)\<rparr>)))"

function parse_lines :: "u8 list \<Rightarrow> unit_parser \<Rightarrow> int + unit_parser" where
  "parse_lines f s =
     (case fgets 512 f of
        None \<Rightarrow> Inr s
      | Some (line, r) \<Rightarrow> (case parse_line line s of Inl n \<Rightarrow> Inl n | Inr s' \<Rightarrow> parse_lines r s'))"
  by pat_completeness auto
termination
  by (relation "measure (\<lambda>(f, s). length f)") (auto dest: fgets_shorter)

declare parse_lines.simps [simp del]

definition parser_start :: unit_parser where
  "parser_start = \<lparr>cur_section = [], line_no = 0, parsed = unit_zero\<rparr>"

definition parse_unit_file :: "'a os_scheme \<Rightarrow> u8 list \<Rightarrow> proc \<Rightarrow> unit_service option \<times> proc" where
  "parse_unit_file os path p =
     (case os_files os path of
        None \<Rightarrow> (None, log_error os ''walud'' ''failed to open unit file'' p)
      | Some f \<Rightarrow>
          (case parse_lines f parser_start of
             Inl n \<Rightarrow> (None, eprintf [bytes ''walud: '', path, bytes '':'', dec_int n, bytes '': malformed section header'', [0x0A]] p)
           | Inr s \<Rightarrow> (Some (parsed s), p)))"

definition is_absolute_path :: "u8 list \<Rightarrow> bool" where
  "is_absolute_path path \<longleftrightarrow> path \<noteq> [] \<and> hd path = of_char CHR ''/''"

definition validate_unit :: "'a os_scheme \<Rightarrow> unit_service \<Rightarrow> proc \<Rightarrow> bool \<times> proc" where
  "validate_unit os u p =
     (if u_description u = [] then (False, log_error os ''walud'' ''missing Unit.Description'' p)
      else if u_exec_start u = [] then (False, log_error os ''walud'' ''missing Service.ExecStart'' p)
      else if \<not> is_absolute_path (u_exec_start u)
        then (False, log_error os ''walud'' ''Service.ExecStart must be an absolute path'' p)
      else if u_restart u \<noteq> [] \<and> u_restart u \<noteq> bytes ''no'' \<and> u_restart u \<noteq> bytes ''on-failure'' \<and>
          u_restart u \<noteq> bytes ''always''
        then (False, log_error os ''walud'' ''Service.Restart must be no|on-failure|always'' p)
      else (True, p))"

definition print_unit :: "unit_service \<Rightarrow> proc \<Rightarrow> proc" where
  "print_unit u = fold (\<lambda>(k, v). printf [bytes k, bytes ''='', v, [0x0A]])
     [(''Description'', u_description u), (''After'', u_after u), (''Requires'', u_requires u),
      (''ExecStart'', u_exec_start u), (''User'', u_user u), (''Restart'', u_restart u), (''WantedBy'', u_wanted_by u)]"

definition print_usage :: "proc \<Rightarrow> proc" where
  "print_usage = puts ''Usage: walud <validate|show|start> <unit-file>''"

section \<open>Starting a service\<close>

datatype syscall = Setgid u32 | Setuid u32 | Execv "u8 list" "u8 list list" | Exit int

record walud_os = os +
  getpwnam :: "u8 list \<Rightarrow> (u32 \<times> u32) option"
  setgid_ok :: "u32 \<Rightarrow> bool"
  setuid_ok :: "u32 \<Rightarrow> bool"
  execv_ok :: "u8 list \<Rightarrow> bool"
  fork_ok :: bool
  wait_status :: "u32 option"

text \<open>The argument vector without the final null pointer: at most one less than the array holds.\<close>

fun split_args :: "nat \<Rightarrow> u8 list \<Rightarrow> u8 list list" where
  "split_args 0 s = []"
| "split_args (Suc n) s = (case strtok_r [0x20, 0x09] s of (None, _) \<Rightarrow> [] | (Some t, r) \<Rightarrow> t # split_args n r)"

definition split_exec_start :: "u8 list \<Rightarrow> nat \<Rightarrow> u8 list list" where
  "split_exec_start line max_argv = split_args (max_argv - 1) line"

definition apply_unit_user :: "'a walud_os_scheme \<Rightarrow> unit_service \<Rightarrow> proc \<Rightarrow> int \<times> syscall list \<times> proc" where
  "apply_unit_user os u p =
     (if u_user u = [] \<or> u_user u = bytes ''root'' then (0, [], p)
      else case getpwnam os (u_user u) of
          None \<Rightarrow> (-1, [], log_error os ''walud'' ''Service.User not found'' p)
        | Some (uid, gid) \<Rightarrow>
            if \<not> setgid_ok os gid then (-1, [], log_error os ''walud'' ''setgid failed'' p)
            else if \<not> setuid_ok os uid then (-1, [Setgid gid], log_error os ''walud'' ''setuid failed'' p)
            else (0, [Setgid gid, Setuid uid], p))"

definition unit_child :: "'a walud_os_scheme \<Rightarrow> unit_service \<Rightarrow> u8 list list \<Rightarrow> proc \<Rightarrow> syscall list \<times> proc" where
  "unit_child os u argv_exec p =
     (case apply_unit_user os u p of (rc, tr, p') \<Rightarrow>
        if rc \<noteq> 0 then (tr @ [Exit 126], p')
        else if execv_ok os (hd argv_exec) then (tr @ [Execv (hd argv_exec) argv_exec], p')
        else (tr @ [Exit 127], p'))"

definition wifexited :: "u32 \<Rightarrow> bool" where
  "wifexited status \<longleftrightarrow> status AND 0x7F = 0"

definition wexitstatus :: "u32 \<Rightarrow> int" where
  "wexitstatus status = uint (drop_bit 8 status AND 0xFF)"

definition wifsignaled :: "u32 \<Rightarrow> bool" where
  "wifsignaled status \<longleftrightarrow> status AND 0x7F \<noteq> 0 \<and> status AND 0x7F \<noteq> 0x7F"

definition wtermsig :: "u32 \<Rightarrow> int" where
  "wtermsig status = uint (status AND 0x7F)"

definition start_unit :: "'a walud_os_scheme \<Rightarrow> unit_service \<Rightarrow> proc \<Rightarrow> int \<times> syscall list \<times> proc" where
  "start_unit os u p0 =
     (let argv_exec = split_exec_start (snprintf_s 256 (u_exec_start u)) 32
      in if argv_exec = [] then (5, [], log_error os ''walud'' ''ExecStart parse failed'' p0)
         else if \<not> fork_ok os then (6, [], log_error os ''walud'' ''fork failed'' p0)
         else case unit_child os u argv_exec p0 of (tr, p) \<Rightarrow>
           (case wait_status os of
              None \<Rightarrow> (7, tr, log_error os ''walud'' ''waitpid failed'' p)
            | Some status \<Rightarrow>
                if wifexited status then
                  (wexitstatus status, tr,
                   if wexitstatus status = 0 then log_info os ''walud'' ''unit exited successfully'' p
                   else log_error os ''walud'' ''unit exited with non-zero status'' p)
                else if wifsignaled status then
                  (128 + wtermsig status, tr, log_error os ''walud'' ''unit terminated by signal'' p)
                else (8, tr, p)))"

definition walud_main :: "'a walud_os_scheme \<Rightarrow> u8 list list \<Rightarrow> proc \<Rightarrow> int \<times> syscall list \<times> proc" where
  "walud_main os argv p0 =
     (if length argv \<noteq> 3 then (1, [], print_usage p0)
      else case parse_unit_file os (argv ! 2) p0 of
          (None, p) \<Rightarrow> (2, [], p)
        | (Some u, p) \<Rightarrow>
            if argv ! 1 = bytes ''validate'' then
              (case validate_unit os u p of (ok, p') \<Rightarrow>
                 if \<not> ok then (3, [], p') else (0, [], log_info os ''walud'' ''unit validation succeeded'' p'))
            else if argv ! 1 = bytes ''show'' then (0, [], print_unit u p)
            else if argv ! 1 = bytes ''start'' then
              (case validate_unit os u p of (ok, p') \<Rightarrow> if \<not> ok then (3, [], p') else start_unit os u p')
            else (1, [], print_usage p))"

section \<open>Blanks\<close>

lemma trim_blank_end:
  assumes "trim_space c"
  shows "trim (s @ [c]) = trim s"
proof (cases "dropWhile trim_space s")
  case Nil
  then have "dropWhile trim_space (s @ [c]) = []" using assms by (auto simp: dropWhile_append)
  then show ?thesis using Nil by (simp only: trim_def)
next
  case (Cons a t)
  then have "\<not> (\<forall>x \<in> set s. trim_space x)" by (metis dropWhile_eq_Nil_conv list.distinct(1))
  then have "dropWhile trim_space (s @ [c]) = a # t @ [c]" using Cons by (auto simp: dropWhile_append)
  then show ?thesis using Cons assms by (simp add: trim_def)
qed

lemma trim_ends:
  assumes "trim s = s" "s \<noteq> []"
  shows "\<not> trim_space (hd s)" "\<not> trim_space (last s)"
proof -
  let ?d = "dropWhile trim_space s"
  have d: "?d \<noteq> []"
  proof
    assume "?d = []"
    then have "trim s = []" by (simp only: trim_def list.case)
    then show False using assms by simp
  qed
  obtain c t where ct: "?d = c # t" using d by (cases ?d) auto
  have c: "\<not> trim_space c" using hd_dropWhile [OF d] ct by simp
  have s: "s = c # rev (dropWhile trim_space (rev t))" using assms(1) ct by (simp add: trim_def)
  show "\<not> trim_space (hd s)" unfolding s using c by simp
  have "\<not> trim_space (hd (dropWhile trim_space (rev t)))" if "dropWhile trim_space (rev t) \<noteq> []"
    using hd_dropWhile [OF that] .
  then show "\<not> trim_space (last s)"
    unfolding s using c by (simp add: last_rev)
qed

lemma trim_id:
  assumes "s = [] \<or> \<not> trim_space (hd s) \<and> \<not> trim_space (last s)"
  shows "trim s = s"
proof (cases s)
  case (Cons c t)
  have "dropWhile trim_space (rev t) = rev t"
    using assms Cons by (cases "rev t") (auto split: if_splits)
  then show ?thesis using assms Cons by (simp add: trim_def)
qed (simp add: trim_def)

lemma trim_line: "s = [] \<or> \<not> trim_space (hd s) \<and> \<not> trim_space (last s) \<Longrightarrow> trim (s @ [0x0A]) = s"
  using trim_id [of s] trim_blank_end [of "0x0A" s] by (simp add: trim_space_def)

section \<open>Reading back a unit file\<close>

text \<open>A unit as the documentation writes it, and the values such a file can carry.\<close>

definition unit_lines :: "unit_service \<Rightarrow> u8 list list" where
  "unit_lines u = [bytes ''[Unit]'', bytes ''Description='' @ u_description u, bytes ''After='' @ u_after u,
     bytes ''Requires='' @ u_requires u, bytes ''[Service]'', bytes ''ExecStart='' @ u_exec_start u,
     bytes ''User='' @ u_user u, bytes ''Restart='' @ u_restart u, bytes ''[Install]'', bytes ''WantedBy='' @ u_wanted_by u]"

definition unit_text :: "unit_service \<Rightarrow> u8 list" where
  "unit_text u = concat (map (\<lambda>l. l @ [0x0A]) (unit_lines u))"

definition value_ok :: "nat \<Rightarrow> u8 list \<Rightarrow> bool" where
  "value_ok n v \<longleftrightarrow> trim v = v \<and> 0x0A \<notin> set v \<and> 0 \<notin> set v \<and> length v < n"

definition unit_ok :: "unit_service \<Rightarrow> bool" where
  "unit_ok u \<longleftrightarrow> value_ok 128 (u_description u) \<and> value_ok 128 (u_after u) \<and> value_ok 128 (u_requires u) \<and>
     value_ok 256 (u_exec_start u) \<and> value_ok 64 (u_user u) \<and> value_ok 32 (u_restart u) \<and> value_ok 64 (u_wanted_by u)"

definition key_ok :: "u8 list \<Rightarrow> bool" where
  "key_ok k \<longleftrightarrow> k \<noteq> [] \<and> (\<forall>b \<in> set k. isupper b \<or> islower b)"

lemma key_byte:
  assumes "isupper b \<or> islower b"
  shows "\<not> trim_space b" "b \<notin> {of_char CHR ''='', of_char CHR ''#'', of_char CHR '';'', of_char CHR ''['', 0x0A, 0}"
  using assms by (auto simp: isupper_def islower_def trim_space_def)

lemma parse_assign_line:
  assumes "key_ok k" "trim v = v"
  shows "parse_line (k @ of_char CHR ''='' # v @ [0x0A]) s =
    Inr (s\<lparr>line_no := int_wrap (line_no s + 1), parsed := unit_assign (cur_section s) k v (parsed s)\<rparr>)"
proof -
  let ?l = "k @ of_char CHR ''='' # v"
  note kb = key_byte
  have hd: "hd ?l \<in> set k" using assms(1) by (cases k) (auto simp: key_ok_def)
  then have h: "isupper (hd ?l) \<or> islower (hd ?l)" using assms(1) by (auto simp: key_ok_def)
  have l: "\<not> trim_space (last ?l)"
    using trim_ends(2) [OF assms(2)] by (cases "v = []") (auto simp: trim_space_def)
  have "trim (?l @ [0x0A]) = ?l" using trim_line [of ?l] kb(1) [OF h] l by blast
  then have t: "trim (k @ of_char CHR ''='' # v @ [0x0A]) = ?l" by simp
  have "\<not> trim_space (hd k)" "\<not> trim_space (last k)" "of_char CHR ''='' \<notin> set k"
    using assms(1) kb by (auto simp: key_ok_def dest: last_in_set hd_in_set)
  then have k: "trim k = k" "strchr (of_char CHR ''='') ?l = Some (k, v)"
    by (auto intro: trim_id strchr_first)
  show ?thesis
    using t k kb(2) [OF h] assms by (simp add: parse_line_def Let_def)
qed

lemma parse_section_line:
  assumes "of_char CHR '']'' \<notin> set n" "length n < 32"
  shows "parse_line (of_char CHR ''['' # n @ [of_char CHR '']'', 0x0A]) s =
    Inr (s\<lparr>line_no := int_wrap (line_no s + 1), cur_section := n\<rparr>)"
proof -
  let ?l = "(of_char CHR ''['' # n) @ of_char CHR '']'' # []"
  have "trim (?l @ [0x0A]) = ?l" by (rule trim_line) (simp add: trim_space_def)
  moreover have "strchr (of_char CHR '']'') ?l = Some (of_char CHR ''['' # n, [])" by (rule strchr_first) (use assms in simp)
  ultimately show ?thesis using assms by (simp add: parse_line_def Let_def snprintf_s_def)
qed

lemma parse_lines_step:
  assumes "0x0A \<notin> set l" "0 \<notin> set l" "length l + 1 < 512" "parse_line (l @ [0x0A]) s = Inr s'"
  shows "parse_lines (l @ 0x0A # f) s = parse_lines f s'"
  using assms fgets_line [OF assms(1-3), of f] by (simp add: parse_lines.simps [of "l @ 0x0A # f"])

lemma parse_value_line:
  assumes "key_ok k" "length k \<le> 12" "value_ok n v" "n \<le> 256"
  shows "parse_lines (k @ 0x3D # v @ 0x0A # f) s =
    parse_lines f (s\<lparr>line_no := int_wrap (line_no s + 1), parsed := unit_assign (cur_section s) k v (parsed s)\<rparr>)"
proof -
  let ?l = "k @ 0x3D # v"
  have "0x0A \<notin> set ?l" "0 \<notin> set ?l" "length ?l + 1 < 512"
    using assms key_byte(2) by (auto simp: key_ok_def value_ok_def)
  moreover have "parse_line (?l @ [0x0A]) s =
      Inr (s\<lparr>line_no := int_wrap (line_no s + 1), parsed := unit_assign (cur_section s) k v (parsed s)\<rparr>)"
    using parse_assign_line [OF assms(1), of v s] assms(3) by (simp add: value_ok_def)
  ultimately show ?thesis using parse_lines_step [of ?l s _ f] by simp
qed

lemma parse_header_line:
  assumes "0x5D \<notin> set n" "0x0A \<notin> set n" "0 \<notin> set n" "length n < 32"
  shows "parse_lines (0x5B # n @ 0x5D # 0x0A # f) s =
    parse_lines f (s\<lparr>line_no := int_wrap (line_no s + 1), cur_section := n\<rparr>)"
proof -
  let ?l = "0x5B # n @ [0x5D]"
  have "parse_line (?l @ [0x0A]) s = Inr (s\<lparr>line_no := int_wrap (line_no s + 1), cur_section := n\<rparr>)"
    using parse_section_line [of n s] assms(1,4) by simp
  then show ?thesis using parse_lines_step [of ?l s _ f] assms by simp
qed

lemma unit_keys:
  "key_ok (bytes ''Description'')" "key_ok (bytes ''After'')" "key_ok (bytes ''Requires'')" "key_ok (bytes ''ExecStart'')"
  "key_ok (bytes ''User'')" "key_ok (bytes ''Restart'')" "key_ok (bytes ''WantedBy'')"
  by (simp_all add: key_ok_def bytes_def isupper_def islower_def)

lemma unit_text_eq:
  "unit_text u = 0x5B # bytes ''Unit'' @ 0x5D # 0x0A #
     bytes ''Description'' @ 0x3D # u_description u @ 0x0A #
     bytes ''After'' @ 0x3D # u_after u @ 0x0A # bytes ''Requires'' @ 0x3D # u_requires u @ 0x0A #
     0x5B # bytes ''Service'' @ 0x5D # 0x0A #
     bytes ''ExecStart'' @ 0x3D # u_exec_start u @ 0x0A # bytes ''User'' @ 0x3D # u_user u @ 0x0A #
     bytes ''Restart'' @ 0x3D # u_restart u @ 0x0A #
     0x5B # bytes ''Install'' @ 0x5D # 0x0A #
     bytes ''WantedBy'' @ 0x3D # u_wanted_by u @ 0x0A # []"
  by (simp add: unit_text_def unit_lines_def bytes_def)

text \<open>A value is put into the field that its section and key name, and into no other.\<close>

lemma unit_assign_fields:
  "unit_assign (bytes ''Unit'') (bytes ''Description'') v u = u\<lparr>u_description := take 127 v\<rparr>"
  "unit_assign (bytes ''Unit'') (bytes ''After'') v u = u\<lparr>u_after := take 127 v\<rparr>"
  "unit_assign (bytes ''Unit'') (bytes ''Requires'') v u = u\<lparr>u_requires := take 127 v\<rparr>"
  "unit_assign (bytes ''Service'') (bytes ''ExecStart'') v u = u\<lparr>u_exec_start := take 255 v\<rparr>"
  "unit_assign (bytes ''Service'') (bytes ''User'') v u = u\<lparr>u_user := take 63 v\<rparr>"
  "unit_assign (bytes ''Service'') (bytes ''Restart'') v u = u\<lparr>u_restart := take 31 v\<rparr>"
  "unit_assign (bytes ''Install'') (bytes ''WantedBy'') v u = u\<lparr>u_wanted_by := take 63 v\<rparr>"
  by (simp_all add: unit_assign_def snprintf_s_def bytes_def)

lemma parse_unit_text:
  assumes "unit_ok u"
  shows "\<exists>s. parse_lines (unit_text u) parser_start = Inr s \<and> parsed s = u"
proof -
  note v = assms [unfolded unit_ok_def]
  have h: "0x5D \<notin> set (bytes n)" "0x0A \<notin> set (bytes n)" "0 \<notin> set (bytes n)" "length (bytes n) < 32"
    if "n \<in> {''Unit'', ''Service'', ''Install''}" for n
    using that by (auto simp: bytes_def)
  have len: "length (bytes n) = length n" for n by (simp add: bytes_def)
  show ?thesis
    using v unfolding unit_text_eq
    by (simp add: parse_header_line h parse_value_line [OF unit_keys(1), of 128] parse_value_line [OF unit_keys(2), of 128]
        parse_value_line [OF unit_keys(3), of 128] parse_value_line [OF unit_keys(4), of 256] parse_value_line [OF unit_keys(5), of 64]
        parse_value_line [OF unit_keys(6), of 32] parse_value_line [OF unit_keys(7), of 64] len parser_start_def unit_assign_fields)
      (simp add: parse_lines.simps fgets_def value_ok_def unit_zero_def)
qed

text \<open>
  C32: A unit file is read back exactly: for every unit whose values fit their fields, carry no line
  break or zero byte and no blanks at their ends, parsing the file that lists them under their
  sections and keys gives that unit, without a message.
\<close>

theorem unit_file_roundtrip:
  assumes "unit_ok u" "os_files os path = Some (unit_text u)"
  shows "parse_unit_file os path p = (Some u, p)"
  using parse_unit_text [OF assms(1)] assms(2) by (auto simp: parse_unit_file_def)

definition unit_sample :: unit_service where
  "unit_sample = \<lparr>u_description = bytes ''Storage service'', u_after = [], u_requires = [],
     u_exec_start = bytes ''/bin/storaged probe'', u_user = bytes ''walu'', u_restart = bytes ''on-failure'',
     u_wanted_by = bytes ''multi-user''\<rparr>"

definition os_sample :: walud_os where
  "os_sample = \<lparr>os_files = (\<lambda>path. if path = bytes ''u'' then Some (unit_text unit_sample) else None), os_stdin = [],
     os_gmtime = None, getpwnam = (\<lambda>n. if n = bytes ''walu'' then Some (1000, 100) else None), setgid_ok = (\<lambda>_. True),
     setuid_ok = (\<lambda>_. True), execv_ok = (\<lambda>_. True), fork_ok = True, wait_status = Some 0\<rparr>"

lemma unit_sample_ok: "unit_ok unit_sample"
  by (simp add: unit_ok_def value_ok_def unit_sample_def bytes_def trim_def trim_space_def)

theorem unit_file_roundtrip_witness: "parse_unit_file os_sample (bytes ''u'') proc_start = (Some unit_sample, proc_start)"
  by (rule unit_file_roundtrip [OF unit_sample_ok]) (simp add: os_sample_def)

section \<open>Field sizes\<close>

definition unit_bounded :: "unit_service \<Rightarrow> bool" where
  "unit_bounded u \<longleftrightarrow> length (u_description u) < 128 \<and> length (u_after u) < 128 \<and> length (u_requires u) < 128 \<and>
     length (u_exec_start u) < 256 \<and> length (u_user u) < 64 \<and> length (u_restart u) < 32 \<and> length (u_wanted_by u) < 64"

lemma unit_field_bounded:
  assumes "unit_bounded u"
  shows "unit_bounded (u\<lparr>u_description := snprintf_s 128 v\<rparr>)" "unit_bounded (u\<lparr>u_after := snprintf_s 128 v\<rparr>)"
    "unit_bounded (u\<lparr>u_requires := snprintf_s 128 v\<rparr>)" "unit_bounded (u\<lparr>u_exec_start := snprintf_s 256 v\<rparr>)"
    "unit_bounded (u\<lparr>u_user := snprintf_s 64 v\<rparr>)" "unit_bounded (u\<lparr>u_restart := snprintf_s 32 v\<rparr>)"
    "unit_bounded (u\<lparr>u_wanted_by := snprintf_s 64 v\<rparr>)"
  using assms by (simp_all add: unit_bounded_def snprintf_s_def)

lemma unit_assign_bounded: "unit_bounded u \<Longrightarrow> unit_bounded (unit_assign sec k v u)"
  unfolding unit_assign_def by (simp only: unit_field_bounded if_bool_eq_conj if_cancel simp_thms if_distrib [of unit_bounded])

lemma parse_line_bounded:
  assumes "parse_line l s = Inr s'" "unit_bounded (parsed s)"
  shows "unit_bounded (parsed s')"
  using assms by (auto simp: parse_line_def Let_def unit_assign_bounded split: if_splits option.splits)

lemma parse_lines_bounded:
  "parse_lines f s = Inr s' \<Longrightarrow> unit_bounded (parsed s) \<Longrightarrow> unit_bounded (parsed s')"
proof (induction f s rule: parse_lines.induct)
  case (1 f s)
  show ?case
  proof (cases "fgets 512 f")
    case None
    then show ?thesis using 1(2,3) by (simp add: parse_lines.simps [of f s])
  next
    case (Some lr)
    obtain l r where lr: "lr = (l, r)" by fastforce
    obtain s1 where s1: "parse_line l s = Inr s1" "parse_lines r s1 = Inr s'"
      using 1(2) Some lr by (auto simp: parse_lines.simps [of f s] split: sum.splits)
    then show ?thesis using 1(1) [OF Some lr [symmetric] s1(1)] parse_line_bounded [OF s1(1)] 1(3) by blast
  qed
qed

lemma parse_unit_file_bounded: "parse_unit_file os path p = (Some u, p') \<Longrightarrow> unit_bounded u"
  using parse_lines_bounded [of _ parser_start]
  by (auto simp: parse_unit_file_def parser_start_def unit_zero_def unit_bounded_def split: option.splits sum.splits)

section \<open>What a started service runs as\<close>

lemma split_args_bound: "length (split_args n s) \<le> n"
  by (induction n s rule: split_args.induct) (auto split: prod.splits option.splits)

lemma split_args_first:
  assumes "s = c # t" "c \<noteq> 0x20" "c \<noteq> 0x09"
  shows "\<exists>w rest. split_args (Suc n) s = (c # w) # rest"
  using assms by (auto simp: strtok_r_def)

text \<open>The child executes only when the change of user it needs succeeded, group first.\<close>

lemma unit_child_execs:
  assumes "unit_child os u argv p = (tr, p')" "Execv path args \<in> set tr"
  shows "path = hd argv \<and> args = argv \<and>
    (if u_user u = [] \<or> u_user u = bytes ''root'' then tr = [Execv path args]
     else \<exists>uid gid. getpwnam os (u_user u) = Some (uid, gid) \<and> tr = [Setgid gid, Setuid uid, Execv path args])"
proof (cases "u_user u = [] \<or> u_user u = bytes ''root''")
  case True
  then show ?thesis using assms by (auto simp: unit_child_def apply_unit_user_def split: if_splits)
next
  case False
  then obtain uid gid where pw: "getpwnam os (u_user u) = Some (uid, gid)"
    using assms by (cases "getpwnam os (u_user u)") (auto simp: unit_child_def apply_unit_user_def)
  then show ?thesis
    using assms False by (auto simp: unit_child_def apply_unit_user_def split: if_splits)
qed

lemma start_unit_child:
  assumes "start_unit os u p = (rc, tr, p')" "tr \<noteq> []"
  shows "\<exists>p1. unit_child os u (split_args 31 (take 255 (u_exec_start u))) p = (tr, p1)"
  using assms
  by (auto simp: start_unit_def Let_def split_exec_start_def snprintf_s_def split: if_splits prod.splits option.splits)

lemma validate_unit_ok:
  "validate_unit os u p = (True, p') \<Longrightarrow> u_description u \<noteq> [] \<and> is_absolute_path (u_exec_start u) \<and> p' = p"
  by (auto simp: validate_unit_def is_absolute_path_def split: if_splits)

text \<open>
  C31: What \<^verbatim>\<open>walud\<close> may execute: whenever a child of it executes a program, the command was \<^verbatim>\<open>start\<close>, the
  unit file was read and valid, the program is named by an absolute path, there are at most 31
  arguments, and unless the unit asks for root or for no user the child first took on the group and
  then the user that the unit names.
\<close>

theorem walud_exec_guarded:
  assumes "walud_main os argv p = (rc, tr, p')" "Execv path args \<in> set tr"
  shows "argv ! 1 = bytes ''start'' \<and> is_absolute_path path \<and> hd args = path \<and> length args \<le> 31 \<and>
    (\<exists>u p1. parse_unit_file os (argv ! 2) p = (Some u, p1) \<and> unit_bounded u \<and> fst (validate_unit os u p1) \<and>
      (if u_user u = [] \<or> u_user u = bytes ''root'' then tr = [Execv path args]
       else \<exists>uid gid. getpwnam os (u_user u) = Some (uid, gid) \<and> tr = [Setgid gid, Setuid uid, Execv path args]))"
proof -
  obtain u p1 p2 where u: "argv ! 1 = bytes ''start''" "parse_unit_file os (argv ! 2) p = (Some u, p1)"
    "validate_unit os u p1 = (True, p2)" "start_unit os u p2 = (rc, tr, p')"
    using assms by (auto simp: walud_main_def split: if_splits prod.splits option.splits)
  have v: "is_absolute_path (u_exec_start u)" using validate_unit_ok [OF u(3)] by blast
  obtain p3 where c: "unit_child os u (split_args 31 (take 255 (u_exec_start u))) p2 = (tr, p3)"
    using start_unit_child [OF u(4)] assms(2) by (metis empty_iff list.set(1))
  note ch = unit_child_execs [OF c assms(2)]
  obtain t where t: "take 255 (u_exec_start u) = of_char CHR ''/'' # t"
    using v by (cases "u_exec_start u") (auto simp: is_absolute_path_def)
  obtain w rest where "split_args (Suc 30) (take 255 (u_exec_start u)) = (of_char CHR ''/'' # w) # rest"
    using split_args_first [OF t, of 30] by auto
  then have a: "split_args 31 (take 255 (u_exec_start u)) = (of_char CHR ''/'' # w) # rest" by (simp add: eval_nat_numeral)
  have "length args \<le> 31" using ch split_args_bound [of 31] by simp
  moreover have "is_absolute_path path" using ch a by (simp add: is_absolute_path_def)
  ultimately show ?thesis using ch u parse_unit_file_bounded [OF u(2)] by auto
qed

theorem walud_exec_guarded_witness:
  "\<exists>rc p'. walud_main os_sample [bytes ''walud'', bytes ''start'', bytes ''u''] proc_start =
      (rc, [Setgid 100, Setuid 1000, Execv (bytes ''/bin/storaged'') [bytes ''/bin/storaged'', bytes ''probe'']], p') \<and>
    is_absolute_path (bytes ''/bin/storaged'')"
proof -
  let ?argv = "[bytes ''walud'', bytes ''start'', bytes ''u'']"
  let ?tr = "[Setgid 100, Setuid 1000, Execv (bytes ''/bin/storaged'') [bytes ''/bin/storaged'', bytes ''probe'']]"
  have f: "parse_unit_file os_sample (bytes ''u'') proc_start = (Some unit_sample, proc_start)"
    using parse_unit_text [OF unit_sample_ok] by (auto simp: parse_unit_file_def os_sample_def)
  have v: "validate_unit os_sample unit_sample proc_start = (True, proc_start)"
    by (simp add: validate_unit_def unit_sample_def is_absolute_path_def bytes_def)
  have a: "split_args 31 (take 255 (u_exec_start unit_sample)) = [bytes ''/bin/storaged'', bytes ''probe'']"
  proof -
    have g: "split_args (Suc (Suc (Suc n))) (take 255 (u_exec_start unit_sample)) = [bytes ''/bin/storaged'', bytes ''probe'']" for n
      by (simp add: unit_sample_def bytes_def strtok_r_def)
    have n: "31 = Suc (Suc (Suc 28))" by simp
    show ?thesis unfolding n by (rule g)
  qed
  have c: "unit_child os_sample unit_sample [bytes ''/bin/storaged'', bytes ''probe''] proc_start = (?tr, proc_start)"
    by (simp add: unit_child_def apply_unit_user_def os_sample_def unit_sample_def bytes_def)
  have "\<exists>rc p'. start_unit os_sample unit_sample proc_start = (rc, ?tr, p')"
    using a c by (simp add: start_unit_def split_exec_start_def snprintf_s_def os_sample_def wifexited_def)
  then obtain rc p' where s: "start_unit os_sample unit_sample proc_start = (rc, ?tr, p')" by blast
  have "walud_main os_sample ?argv proc_start = (rc, ?tr, p')"
    using f v s by (simp add: walud_main_def) (simp add: bytes_def)
  then show ?thesis using walud_exec_guarded [of os_sample ?argv proc_start] by fastforce
qed

end
