(* ===== verification/Authd.thy ===== *)
theory Authd
  imports Libc
begin

text \<open>
  The authentication service (\<^verbatim>\<open>userland/authd/authd.c\<close>): the password policy, the state of a shadow
  hash, and the check of a password against a shadow file. The hash function of the system's crypt
  library is a parameter, part of the record \<open>authd_os\<close>.
\<close>

section \<open>Password policy\<close>

record password_policy =
  min_len :: int
  require_upper :: int
  require_lower :: int
  require_digit :: int
  require_symbol :: int

record char_classes =
  has_upper :: bool
  has_lower :: bool
  has_digit :: bool
  has_symbol :: bool

definition note_class :: "u8 \<Rightarrow> char_classes \<Rightarrow> char_classes" where
  "note_class c f =
     (if isupper c then f\<lparr>has_upper := True\<rparr>
      else if islower c then f\<lparr>has_lower := True\<rparr>
      else if isdigit c then f\<lparr>has_digit := True\<rparr>
      else f\<lparr>has_symbol := True\<rparr>)"

definition check_policy :: "u8 list \<Rightarrow> password_policy \<Rightarrow> int" where
  "check_policy password policy =
     (let f = fold note_class password \<lparr>has_upper = False, has_lower = False, has_digit = False, has_symbol = False\<rparr>
      in if int_wrap (int (length password)) < min_len policy then 1
         else if require_upper policy \<noteq> 0 \<and> \<not> has_upper f then 2
         else if require_lower policy \<noteq> 0 \<and> \<not> has_lower f then 3
         else if require_digit policy \<noteq> 0 \<and> \<not> has_digit f then 4
         else if require_symbol policy \<noteq> 0 \<and> \<not> has_symbol f then 5
         else 0)"

definition policy :: password_policy where
  "policy = \<lparr>min_len = 12, require_upper = 1, require_lower = 1, require_digit = 1, require_symbol = 1\<rparr>"

section \<open>Shadow file\<close>

record authd_os = os +
  crypt :: "u8 list \<Rightarrow> u8 list \<Rightarrow> u8 list option"

definition check_shadow_hash_state :: "u8 list \<Rightarrow> int" where
  "check_shadow_hash_state hash_field =
     (case hash_field of
        [] \<Rightarrow> 1
      | c # _ \<Rightarrow> if c = of_char CHR ''!'' \<or> c = of_char CHR ''*'' then 2 else 0)"

definition shadow_fields :: "u8 list \<Rightarrow> u8 list option \<times> u8 list option" where
  "shadow_fields line =
     (case strtok_r [0x3A, 0x0A] line of (name, save) \<Rightarrow> (name, fst (strtok_r [0x3A, 0x0A] save)))"

function shadow_search :: "u8 list \<Rightarrow> u8 list \<Rightarrow> u8 list option" where
  "shadow_search user f =
     (case fgets 1024 f of
        None \<Rightarrow> None
      | Some (line, r) \<Rightarrow>
          (case shadow_fields line of
             (Some name, Some hash) \<Rightarrow> if name = user then Some hash else shadow_search user r
           | _ \<Rightarrow> shadow_search user r))"
  by pat_completeness auto
termination
  by (relation "measure (\<lambda>(user, f). length f)") (auto dest: fgets_shorter)

declare shadow_search.simps [simp del]

definition parse_shadow_hash :: "'a os_scheme \<Rightarrow> u8 list \<Rightarrow> u8 list \<Rightarrow> nat \<Rightarrow> int + u8 list" where
  "parse_shadow_hash os shadow_path user out_len =
     (case os_files os shadow_path of
        None \<Rightarrow> Inl (-1)
      | Some f \<Rightarrow> (case shadow_search user f of None \<Rightarrow> Inl 1 | Some hash \<Rightarrow> Inr (snprintf_s out_len hash)))"

definition verify_user_password :: "'a authd_os_scheme \<Rightarrow> u8 list \<Rightarrow> u8 list \<Rightarrow> u8 list \<Rightarrow> int" where
  "verify_user_password os user password shadow_path =
     (case parse_shadow_hash os shadow_path user 512 of
        Inl rc \<Rightarrow> if rc = 1 then 7 else 8
      | Inr hash \<Rightarrow>
          let state = check_shadow_hash_state hash
          in if state \<noteq> 0 then if state = 1 then 9 else 10
             else case crypt os password hash of
                 None \<Rightarrow> 11
               | Some computed \<Rightarrow> if computed = hash then 0 else 12)"

section \<open>Commands\<close>

definition authd_usage :: "proc \<Rightarrow> proc" where
  "authd_usage = fold puts [''Usage:'', ''  authd policy-check <password>'', ''  authd policy-check --stdin'',
     ''  authd shadow-state <hash-field>'', ''  authd verify --user <name> [--shadow <path>] --password-stdin'']"

text \<open>A line of standard input without its line end.\<close>

definition read_password :: "'a os_scheme \<Rightarrow> u8 list option" where
  "read_password os = map_option (\<lambda>(line, _). cut_at [0x0D, 0x0A] line) (fgets 512 (os_stdin os))"

fun verify_args :: "u8 list list \<Rightarrow> u8 list option \<times> u8 list \<times> bool \<Rightarrow> (u8 list option \<times> u8 list \<times> bool) option" where
  "verify_args [] st = Some st"
| "verify_args (a # rest) (user, shadow_path, got) =
     (if a = bytes ''--user'' \<and> rest \<noteq> [] then verify_args (tl rest) (Some (hd rest), shadow_path, got)
      else if a = bytes ''--shadow'' \<and> rest \<noteq> [] then verify_args (tl rest) (user, hd rest, got)
      else if a = bytes ''--password-stdin'' then verify_args rest (user, shadow_path, True)
      else None)"

definition cmd_policy_check :: "'a os_scheme \<Rightarrow> u8 list \<Rightarrow> proc \<Rightarrow> int \<times> proc" where
  "cmd_policy_check os arg p =
     (case (if arg = bytes ''--stdin'' then read_password os else Some arg) of
        None \<Rightarrow> (6, log_error os ''authd'' ''failed reading password from stdin'' p)
      | Some password \<Rightarrow>
          let rc = check_policy password policy
          in if rc \<noteq> 0 then (rc, log_error os ''authd'' ''password policy check failed'' p)
             else (0, log_info os ''authd'' ''password policy check passed'' p))"

definition cmd_verify :: "'a authd_os_scheme \<Rightarrow> u8 list list \<Rightarrow> proc \<Rightarrow> int \<times> proc" where
  "cmd_verify os args p =
     (case verify_args args (None, bytes ''/etc/shadow'', False) of
        Some (Some user, shadow_path, True) \<Rightarrow>
          (case read_password os of
             None \<Rightarrow> (6, log_error os ''authd'' ''failed to read password from stdin'' p)
           | Some password \<Rightarrow>
               let rc = verify_user_password os user password shadow_path
               in if rc \<noteq> 0 then (rc, log_error os ''authd'' ''password verify failed'' p)
                  else (0, log_info os ''authd'' ''password verify succeeded'' p))
      | _ \<Rightarrow> (1, authd_usage p))"

definition cmd_shadow_state :: "u8 list \<Rightarrow> proc \<Rightarrow> int \<times> proc" where
  "cmd_shadow_state field p =
     (let rc = check_shadow_hash_state field
      in if rc = 0 then (0, puts ''state=active'' p)
         else if rc = 1 then (2, puts ''state=unset'' p)
         else (3, puts ''state=locked'' p))"

definition authd_main :: "'a authd_os_scheme \<Rightarrow> u8 list list \<Rightarrow> proc \<Rightarrow> int \<times> proc" where
  "authd_main os argv p =
     (if length argv < 3 then (1, authd_usage p)
      else if argv ! 1 = bytes ''policy-check'' then cmd_policy_check os (argv ! 2) p
      else if argv ! 1 = bytes ''verify'' then cmd_verify os (drop 2 argv) p
      else if argv ! 1 = bytes ''shadow-state'' then cmd_shadow_state (argv ! 2) p
      else (1, authd_usage p))"

section \<open>Policy\<close>

lemma fold_classes:
  "fold note_class s f = \<lparr>has_upper = has_upper f \<or> (\<exists>c \<in> set s. isupper c), has_lower = has_lower f \<or> (\<exists>c \<in> set s. islower c),
     has_digit = has_digit f \<or> (\<exists>c \<in> set s. isdigit c),
     has_symbol = has_symbol f \<or> (\<exists>c \<in> set s. \<not> isupper c \<and> \<not> islower c \<and> \<not> isdigit c)\<rparr>"
proof (induction s arbitrary: f)
  case (Cons c s)
  have "\<not> (isupper c \<and> islower c)" "\<not> (isupper c \<and> isdigit c)" "\<not> (islower c \<and> isdigit c)"
    by (auto simp: isupper_def islower_def isdigit_def word_le_nat_alt)
  then show ?case using Cons.IH by (auto simp: note_class_def)
qed simp

lemma check_policy_spec:
  assumes "length password < 2 ^ 31"
  shows "check_policy password policy =
    (if length password < 12 then 1
     else if \<not> (\<exists>c \<in> set password. isupper c) then 2
     else if \<not> (\<exists>c \<in> set password. islower c) then 3
     else if \<not> (\<exists>c \<in> set password. isdigit c) then 4
     else if \<not> (\<exists>c \<in> set password. \<not> isupper c \<and> \<not> islower c \<and> \<not> isdigit c) then 5
     else 0)"
proof -
  have "(int_wrap (int (length password)) < 12) = (length password < 12)" using assms by simp
  then show ?thesis
    by (simp only: check_policy_def policy_def fold_classes Let_def password_policy.simps char_classes.simps simp_thms)
      simp
qed

lemma policy_check_result:
  "fst (authd_main os [name, bytes ''policy-check'', password] p) = check_policy password policy"
  if "password \<noteq> bytes ''--stdin''"
  using that by (simp add: authd_main_def cmd_policy_check_def Let_def)

text \<open>
  C35: \<^verbatim>\<open>authd policy-check\<close> accepts exactly the passwords of at least 12 bytes with an upper-case
  letter, a lower-case letter, a digit and some other byte, and otherwise exits with the number of
  the first of these requirements that fails.
\<close>

theorem policy_check_exact:
  assumes "length password < 2 ^ 31" "password \<noteq> bytes ''--stdin''"
  shows "fst (authd_main os [name, bytes ''policy-check'', password] p) =
    (if length password < 12 then 1
     else if \<not> (\<exists>c \<in> set password. isupper c) then 2
     else if \<not> (\<exists>c \<in> set password. islower c) then 3
     else if \<not> (\<exists>c \<in> set password. isdigit c) then 4
     else if \<not> (\<exists>c \<in> set password. \<not> isupper c \<and> \<not> islower c \<and> \<not> isdigit c) then 5
     else 0)"
  unfolding policy_check_result [OF assms(2)] check_policy_spec [OF assms(1)] ..

definition authd_sample :: authd_os where
  "authd_sample = \<lparr>os_files = (\<lambda>path. if path = bytes ''/etc/shadow''
       then Some (bytes ''root:$1:19000'' @ 0x0A # bytes ''guest::19000:0'' @ 0x0A # bytes ''off:!x:1'' @ [0x0A]) else None),
     os_stdin = bytes ''secret'' @ [0x0A], os_gmtime = None,
     crypt = (\<lambda>pw h. if pw = bytes ''secret'' then Some h else Some [])\<rparr>"

theorem policy_check_exact_witness:
  "fst (authd_main authd_sample [[], bytes ''policy-check'', bytes ''Correct-Horse7''] proc_start) = 0 \<and>
   fst (authd_main authd_sample [[], bytes ''policy-check'', bytes ''correct-horse7''] proc_start) = 2"
  using policy_check_exact [of "bytes ''Correct-Horse7''" authd_sample "[]" proc_start]
    policy_check_exact [of "bytes ''correct-horse7''" authd_sample "[]" proc_start]
  by (simp add: bytes_def isupper_def islower_def isdigit_def)

section \<open>Verification\<close>

text \<open>
  A shadow file as its format defines it: per line a name, a hash and the remaining fields, separated by
  colons. A line fits the read buffer, and the hash fits its own.
\<close>

type_synonym shadow_entry = "u8 list \<times> u8 list \<times> u8 list"

fun shadow_line :: "shadow_entry \<Rightarrow> u8 list" where
  "shadow_line (name, hash, rest) = name @ 0x3A # hash @ 0x3A # rest @ [0x0A]"

definition field_ok :: "u8 list \<Rightarrow> bool" where
  "field_ok s \<longleftrightarrow> 0x3A \<notin> set s \<and> 0x0A \<notin> set s \<and> 0 \<notin> set s"

fun shadow_entry_ok :: "shadow_entry \<Rightarrow> bool" where
  "shadow_entry_ok (name, hash, rest) \<longleftrightarrow> name \<noteq> [] \<and> hash \<noteq> [] \<and> field_ok name \<and> field_ok hash \<and> length hash < 512 \<and>
     0x0A \<notin> set rest \<and> 0 \<notin> set rest \<and> length (shadow_line (name, hash, rest)) < 1024"

lemma shadow_fields_line:
  assumes "name \<noteq> []" "hash \<noteq> []" "field_ok name" "field_ok hash"
  shows "shadow_fields (name @ 0x3A # hash @ 0x3A # rest) = (Some name, Some hash)"
proof -
  have "strtok_r [0x3A, 0x0A] (name @ 0x3A # hash @ 0x3A # rest) = (Some name, hash @ 0x3A # rest)"
    "strtok_r [0x3A, 0x0A] (hash @ 0x3A # rest) = (Some hash, rest)"
    using assms by (auto simp: field_ok_def intro!: strtok_r_token)
  then show ?thesis by (simp add: shadow_fields_def)
qed

lemma fgets_shadow_line:
  assumes "field_ok name" "field_ok hash" "0x0A \<notin> set rest" "0 \<notin> set rest" "length (shadow_line (name, hash, rest)) < 1024"
  shows "fgets 1024 (shadow_line (name, hash, rest) @ f) = Some (shadow_line (name, hash, rest), f)"
  using fgets_line [of "name @ 0x3A # hash @ 0x3A # rest" 1024 f] assms by (simp add: field_ok_def)

lemma shadow_search_lines:
  assumes "list_all shadow_entry_ok es"
  shows "shadow_search user (concat (map shadow_line es)) =
    map_option (fst \<circ> snd) (find (\<lambda>(name, _). name = user) es)"
  using assms
proof (induction es)
  case Nil
  then show ?case by (simp add: shadow_search.simps fgets_def)
next
  case (Cons e es)
  obtain name hash rest where e: "e = (name, hash, rest)" by (cases e)
  have g: "fgets 1024 (shadow_line e @ concat (map shadow_line es)) = Some (shadow_line e, concat (map shadow_line es))"
    using fgets_shadow_line [of name hash rest] Cons.prems by (simp add: e)
  have "shadow_fields (shadow_line e) = (Some name, Some hash)"
    using shadow_fields_line [of name hash "rest @ [0x0A]"] Cons.prems by (simp add: e)
  then show ?case
    using Cons by (simp add: shadow_search.simps [of user "shadow_line e @ _"] g) (simp add: e)
qed

text \<open>
  C33: For a well-formed shadow file the check is the one the format asks for: the user's first entry
  decides; an unknown user gives 7, a hash that starts with an exclamation mark or an asterisk 10, a
  failing hash function 11, and otherwise the password is accepted exactly when its hash with the
  stored one as salt is the stored one.
\<close>

theorem verify_shadow_exact:
  assumes "list_all shadow_entry_ok es" "os_files os path = Some (concat (map shadow_line es))"
  shows "verify_user_password os user password path =
    (case find (\<lambda>(name, _). name = user) es of
       None \<Rightarrow> 7
     | Some (_, hash, _) \<Rightarrow>
         if hd hash = of_char CHR ''!'' \<or> hd hash = of_char CHR ''*'' then 10
         else if crypt os password hash = None then 11
         else if crypt os password hash = Some hash then 0 else 12)"
proof (cases "find (\<lambda>(name, _). name = user) es")
  case None
  then show ?thesis
    using shadow_search_lines [OF assms(1), of user] assms(2)
    by (simp add: verify_user_password_def parse_shadow_hash_def)
next
  case (Some e)
  obtain name hash rest where e: "e = (name, hash, rest)" by (cases e)
  have "e \<in> set es" using Some by (metis (no_types, lifting) find_Some_iff nth_mem)
  then have "shadow_entry_ok e" using assms(1) by (simp add: list_all_iff)
  then have h: "hash \<noteq> []" "snprintf_s 512 hash = hash" by (simp_all add: e snprintf_s_def)
  then show ?thesis
    using shadow_search_lines [OF assms(1), of user] assms(2) Some
    by (cases hash) (auto simp: verify_user_password_def parse_shadow_hash_def e check_shadow_hash_state_def Let_def
        split: option.splits)
qed

lemma shadow_search_nonempty: "shadow_search user f = Some h \<Longrightarrow> h \<noteq> []"
proof (induction user f rule: shadow_search.induct)
  case (1 user f)
  show ?case
  proof (cases "fgets 1024 f")
    case None
    then show ?thesis using 1(4) by (simp add: shadow_search.simps [of user f])
  next
    case (Some lr)
    obtain l r where lr: "lr = (l, r)" by fastforce
    obtain n g where f: "shadow_fields l = (n, g)" by fastforce
    have "g \<noteq> Some []" using f strtok_r_nonempty by (auto simp: shadow_fields_def split: prod.splits)
    then show ?thesis
      using 1 Some lr f by (auto simp: shadow_search.simps [of user f] split: option.splits if_splits)
  qed
qed

theorem verify_shadow_exact_witness:
  "verify_user_password (authd_sample\<lparr>os_files := (\<lambda>_. Some (concat (map shadow_line [(bytes ''root'', bytes ''$1'', bytes ''19000'')])))\<rparr>)
     (bytes ''root'') (bytes ''secret'') (bytes ''/etc/shadow'') = 0"
proof -
  let ?es = "[(bytes ''root'', bytes ''$1'', bytes ''19000'')]"
  have "list_all shadow_entry_ok ?es" by (simp add: field_ok_def bytes_def)
  then show ?thesis
    using verify_shadow_exact [of ?es "authd_sample\<lparr>os_files := (\<lambda>_. Some (concat (map shadow_line ?es)))\<rparr>"
        "bytes ''/etc/shadow''" "bytes ''root''" "bytes ''secret''"]
    by (simp add: authd_sample_def bytes_def)
qed

text \<open>
  C37: An account without a password is never reported as such: no input makes the check return 9,
  because the tokenizer skips the empty hash field, and the field behind it, the date of the last
  change, is then taken for the hash.
\<close>

theorem empty_hash_unnoticed:
  assumes "os_files os path = Some (user @ 0x3A # 0x3A # date @ 0x3A # rest @ 0x0A # f)"
    and "user \<noteq> []" "date \<noteq> []" "field_ok user" "field_ok date" "0x0A \<notin> set rest" "0 \<notin> set rest"
    and "length user + length date + length rest + 4 < 1024" "length date < 512" "hd date \<notin> {of_char CHR ''!'', of_char CHR ''*''}"
  shows "verify_user_password os user password path =
      (case crypt os password date of None \<Rightarrow> 11 | Some computed \<Rightarrow> if computed = date then 0 else 12) \<and>
    (\<forall>u pw pth. verify_user_password os u pw pth \<noteq> 9)"
proof -
  let ?l = "user @ 0x3A # 0x3A # date @ 0x3A # rest"
  have g: "fgets 1024 (?l @ 0x0A # f) = Some (?l @ [0x0A], f)"
    by (rule fgets_line) (use assms(4-8) in \<open>auto simp: field_ok_def\<close>)
  have t: "strtok_r [0x3A, 0x0A] (user @ 0x3A # 0x3A # date @ 0x3A # rest @ [0x0A]) = (Some user, 0x3A # date @ 0x3A # rest @ [0x0A])"
    using assms(2,4) by (auto simp: field_ok_def intro!: strtok_r_token)
  have "strtok_r [0x3A, 0x0A] (date @ 0x3A # rest @ [0x0A]) = (Some date, rest @ [0x0A])"
    using assms(3,5) by (auto simp: field_ok_def intro!: strtok_r_token)
  then have "strtok_r [0x3A, 0x0A] (0x3A # date @ 0x3A # rest @ [0x0A]) = (Some date, rest @ [0x0A])"
    by (simp add: strtok_r_def)
  then have s: "shadow_search user (?l @ 0x0A # f) = Some date"
    using g t by (simp add: shadow_search.simps [of user "_ @ _"] shadow_fields_def)
  have "snprintf_s 512 date = date" using assms(9) by (simp add: snprintf_s_def)
  then have v: "verify_user_password os user password path =
      (case crypt os password date of None \<Rightarrow> 11 | Some computed \<Rightarrow> if computed = date then 0 else 12)"
    using s assms(1,3,10) by (cases date) (simp_all add: verify_user_password_def parse_shadow_hash_def check_shadow_hash_state_def Let_def
        split: option.split)
  have "h \<noteq> [] \<Longrightarrow> snprintf_s 512 h \<noteq> []" for h by (simp add: snprintf_s_def)
  then have "verify_user_password os u pw pth \<noteq> 9" for u pw pth
    using shadow_search_nonempty [of u]
    by (auto simp: verify_user_password_def parse_shadow_hash_def check_shadow_hash_state_def Let_def split: option.splits list.splits)
  then show ?thesis using v by blast
qed

theorem empty_hash_unnoticed_witness:
  "verify_user_password (authd_sample\<lparr>os_files := (\<lambda>_. Some (bytes ''guest'' @ 0x3A # 0x3A # bytes ''19000'' @ 0x3A # [0x0A]))\<rparr>)
     (bytes ''guest'') [] (bytes ''/etc/shadow'') = 12"
  using empty_hash_unnoticed [of "authd_sample\<lparr>os_files := (\<lambda>_. Some (bytes ''guest'' @ 0x3A # 0x3A # bytes ''19000'' @ 0x3A # [0x0A]))\<rparr>"
      "bytes ''/etc/shadow''" "bytes ''guest''" "bytes ''19000''" "[]" "[]" "[]"]
  by (simp add: authd_sample_def bytes_def field_ok_def)

end
