(* ===== verification/Storaged.thy ===== *)
theory Storaged
  imports Libc
begin

unbundle bit_operations_syntax

text \<open>
  The storage service (\<^verbatim>\<open>userland/storaged/storaged.c\<close>): it reports on a block device and decides
  whether a device may be formatted. What \<^verbatim>\<open>stat\<close> and the programs it runs answer, and whether the
  audit log can be opened, is part of the record \<open>storaged_os\<close>.
\<close>

section \<open>Mounted devices\<close>

text \<open>\<^verbatim>\<open>%<n>s\<close> and \<^verbatim>\<open>%*d\<close> of \<^verbatim>\<open>fscanf\<close>: a word of at most \<open>n\<close> bytes; whether a number was read, and the rest.\<close>

definition scan_word :: "nat \<Rightarrow> u8 list \<Rightarrow> (u8 list \<times> u8 list) option" where
  "scan_word n f =
     (let t = dropWhile isspace f; w = take n (takeWhile (\<lambda>c. \<not> isspace c) t)
      in if w = [] then None else Some (w, drop (length w) t))"

definition scan_int :: "u8 list \<Rightarrow> bool \<times> u8 list" where
  "scan_int f =
     (let t = dropWhile isspace f;
          u = (if t \<noteq> [] \<and> (hd t = 0x2B \<or> hd t = 0x2D) then tl t else t)
      in (takeWhile isdigit u \<noteq> [], dropWhile isdigit u))"

text \<open>One call of \<^verbatim>\<open>fscanf\<close>: the device of a row for which all four words were read, and what is left.\<close>

definition scan_mount :: "u8 list \<Rightarrow> (u8 list \<times> u8 list) option" where
  "scan_mount f =
     (case scan_word 255 f of None \<Rightarrow> None | Some (dev, f1) \<Rightarrow>
     (case scan_word 255 f1 of None \<Rightarrow> None | Some (mountpt, f2) \<Rightarrow>
     (case scan_word 63 f2 of None \<Rightarrow> None | Some (fstype, f3) \<Rightarrow>
     (case scan_word 255 f3 of None \<Rightarrow> None | Some (opts, f4) \<Rightarrow>
        (case scan_int f4 of (ok, f5) \<Rightarrow> Some (c_str dev, if ok then snd (scan_int f5) else f5))))))"

lemma scan_word_splits:
  assumes "scan_word n f = Some (w, r)"
  shows "w \<noteq> [] \<and> dropWhile isspace f = w @ r"
proof -
  define t where "t = dropWhile isspace f"
  obtain k where k: "takeWhile (\<lambda>c. \<not> isspace c) t = take k t" using takeWhile_eq_take by blast
  have w: "w \<noteq> []" "w = take n (takeWhile (\<lambda>c. \<not> isspace c) t)" "r = drop (length w) t"
    using assms by (auto simp: scan_word_def Let_def t_def split: if_splits)
  have "w = take (min n k) t" using w(2) unfolding k by simp
  then have "w @ r = t" using w(3) by (cases "min n k \<le> length t") (simp_all add: min_def split: if_splits)
  then show ?thesis using w(1) by (simp add: t_def)
qed

lemma scan_word_shorter: "scan_word n f = Some (w, r) \<Longrightarrow> length r < length f"
  using scan_word_splits [of n f w r] length_dropWhile_le [of isspace f] by (cases w) auto

lemma scan_int_shorter: "length (snd (scan_int f)) \<le> length f"
proof -
  define t where "t = dropWhile isspace f"
  define u where "u = (if t \<noteq> [] \<and> (hd t = 0x2B \<or> hd t = 0x2D) then tl t else t)"
  have "length (dropWhile isdigit u) \<le> length u" "length u \<le> length t" "length t \<le> length f"
    by (simp_all add: u_def t_def length_dropWhile_le)
  then show ?thesis by (simp add: scan_int_def Let_def flip: t_def u_def)
qed

lemma scan_mount_shorter:
  assumes "scan_mount f = Some (d, r)"
  shows "length r < length f"
proof -
  obtain w1 f1 w2 f2 w3 f3 w4 f4 where s: "scan_word 255 f = Some (w1, f1)" "scan_word 255 f1 = Some (w2, f2)"
    "scan_word 63 f2 = Some (w3, f3)" "scan_word 255 f3 = Some (w4, f4)"
    using assms by (auto simp: scan_mount_def split: option.splits)
  obtain ok f5 where i: "scan_int f4 = (ok, f5)" by fastforce
  have "length r \<le> length f5"
    using assms s i scan_int_shorter [of f5] by (auto simp: scan_mount_def split: if_splits)
  moreover have "length f5 \<le> length f4" using scan_int_shorter [of f4] i by simp
  ultimately show ?thesis using s [THEN scan_word_shorter] by linarith
qed

function mounted_loop :: "u8 list \<Rightarrow> u8 list \<Rightarrow> bool" where
  "mounted_loop device f =
     (case scan_mount f of
        None \<Rightarrow> False
      | Some (dev, r) \<Rightarrow> if dev = device then True else mounted_loop device r)"
  by pat_completeness auto
termination
  by (relation "measure (\<lambda>(d, f). length f)") (auto dest: scan_mount_shorter)

declare mounted_loop.simps [simp del]

definition is_device_mounted :: "'a os_scheme \<Rightarrow> u8 list \<Rightarrow> bool" where
  "is_device_mounted os device =
     (case os_files os (bytes ''/proc/self/mounts'') of None \<Rightarrow> False | Some f \<Rightarrow> mounted_loop device f)"

section \<open>Requests\<close>

record storaged_os = os +
  stat_mode :: "u8 list \<Rightarrow> u32 option"
  popen :: "u8 list \<Rightarrow> u8 list option"
  audit_opens :: bool

record format_args =
  fa_device :: "u8 list option"
  fa_dry_run :: bool
  fa_force :: bool
  fa_yes :: bool
  fa_confirm :: "u8 list option"

definition or_dash :: "u8 list option \<Rightarrow> u8 list" where
  "or_dash s = (case s of None \<Rightarrow> bytes ''-'' | Some t \<Rightarrow> t)"

definition audit_event ::
    "'a storaged_os_scheme \<Rightarrow> string \<Rightarrow> u8 list option \<Rightarrow> string \<Rightarrow> string \<Rightarrow> proc \<Rightarrow> proc" where
  "audit_event os op device result detail p =
     (if \<not> audit_opens os then p
      else p\<lparr>p_audit := p_audit p @ bytes ''op='' @ bytes op @ bytes '' device='' @ or_dash device @ bytes '' result='' @
             bytes result @ bytes '' detail='' @ bytes detail @ [0x0A]\<rparr>)"

definition storaged_usage :: "proc \<Rightarrow> proc" where
  "storaged_usage = fold puts [''Usage:'', ''  storaged probe --device <path>'',
     ''  storaged format --device <path> [--dry-run] [--force --confirm <path> --yes]'', ''Safety:'',
     ''  destructive operations require --force, --confirm <exact-device>, and --yes'']"

fun format_options :: "u8 list list \<Rightarrow> format_args \<Rightarrow> format_args option" where
  "format_options [] a = Some a"
| "format_options (x # rest) a =
     (if x = bytes ''--device'' \<and> rest \<noteq> [] then format_options (tl rest) (a\<lparr>fa_device := Some (hd rest)\<rparr>)
      else if x = bytes ''--dry-run'' then format_options rest (a\<lparr>fa_dry_run := True\<rparr>)
      else if x = bytes ''--force'' then format_options rest (a\<lparr>fa_force := True\<rparr>)
      else if x = bytes ''--yes'' then format_options rest (a\<lparr>fa_yes := True\<rparr>)
      else if x = bytes ''--confirm'' \<and> rest \<noteq> [] then format_options (tl rest) (a\<lparr>fa_confirm := Some (hd rest)\<rparr>)
      else None)"

text \<open>The options after the command, with the device they must name.\<close>

definition parse_format_args :: "u8 list list \<Rightarrow> (u8 list \<times> format_args) option" where
  "parse_format_args args =
     (case format_options args \<lparr>fa_device = None, fa_dry_run = False, fa_force = False, fa_yes = False, fa_confirm = None\<rparr> of
        None \<Rightarrow> None
      | Some a \<Rightarrow> (case fa_device a of None \<Rightarrow> None | Some device \<Rightarrow> Some (device, a)))"

definition is_valid_block_path :: "u8 list \<Rightarrow> bool" where
  "is_valid_block_path path \<longleftrightarrow> take 5 path = bytes ''/dev/'' \<and> 5 < length path"

definition is_block_device :: "'a storaged_os_scheme \<Rightarrow> u8 list \<Rightarrow> bool" where
  "is_block_device os path = (case stat_mode os path of None \<Rightarrow> False | Some mode \<Rightarrow> mode AND 0xF000 = 0x6000)"

definition yes_no :: "bool \<Rightarrow> u8 list" where
  "yes_no b = (if b then bytes ''yes'' else bytes ''no'')"

text \<open>The first line a program prints, as one item of the report.\<close>

definition report_command :: "'a storaged_os_scheme \<Rightarrow> string \<Rightarrow> u8 list \<Rightarrow> proc \<Rightarrow> proc" where
  "report_command os label cmd =
     (case popen os (take 511 cmd) of
        None \<Rightarrow> printf [bytes label, bytes ''=unknown'', [0x0A]]
      | Some output \<Rightarrow>
          (case fgets 256 output of
             None \<Rightarrow> printf [bytes label, bytes ''=unknown'', [0x0A]]
           | Some (buf, _) \<Rightarrow> printf [bytes label, bytes ''='', cut_at [0x0D, 0x0A] buf, [0x0A]]))"

definition print_probe_info :: "'a storaged_os_scheme \<Rightarrow> u8 list \<Rightarrow> proc \<Rightarrow> proc" where
  "print_probe_info os device p0 =
     (let p1 = printf [bytes ''device='', device, [0x0A]] p0;
          p2 = printf [bytes ''block_device='', yes_no (is_block_device os device), [0x0A]] p1;
          p3 = printf [bytes ''mounted='', yes_no (is_device_mounted os device), [0x0A]] p2;
          p4 = report_command os ''size'' (bytes ''lsblk -ndo SIZE '' @ device @ bytes '' 2>/dev/null'') p3
      in report_command os ''fstype'' (bytes ''blkid -o value -s TYPE '' @ device @ bytes '' 2>/dev/null'') p4)"

definition command_probe :: "'a storaged_os_scheme \<Rightarrow> u8 list \<Rightarrow> proc \<Rightarrow> int \<times> proc" where
  "command_probe os device p =
     (if \<not> is_valid_block_path device
      then (2, audit_event os ''probe'' (Some device) ''deny'' ''invalid-path''
                 (log_error os ''storaged'' ''invalid device path for probe'' p))
      else (0, audit_event os ''probe'' (Some device) ''ok'' ''reported'' (print_probe_info os device p)))"

definition command_format :: "'a storaged_os_scheme \<Rightarrow> u8 list \<Rightarrow> format_args \<Rightarrow> proc \<Rightarrow> int \<times> proc" where
  "command_format os device a p =
     (let audit = audit_event os ''format'' (Some device)
      in if \<not> is_valid_block_path device then
           (2, audit ''deny'' ''invalid-path'' (log_error os ''storaged'' ''device path must be under /dev/'' p))
         else if \<not> is_block_device os device then
           (2, audit ''deny'' ''not-block-device'' (log_error os ''storaged'' ''device path is not a block device'' p))
         else if fa_dry_run a then
           (0, audit ''dry-run'' ''policy-check-only''
                 (printf [bytes ''dry-run: mounted='', yes_no (is_device_mounted os device), [0x0A]]
                   (printf [bytes ''dry-run: mkfs.ext4 '', device, [0x0A]] p)))
         else if is_device_mounted os device then
           (4, audit ''deny'' ''mounted'' (log_error os ''storaged'' ''refusing to format a mounted device'' p))
         else if \<not> fa_force a \<or> \<not> fa_yes a \<or> fa_confirm a \<noteq> Some device then
           (3, audit ''deny'' ''missing-force-confirm-yes''
                 (storaged_usage (log_error os ''storaged'' ''missing mandatory destructive-operation confirmation flags'' p)))
         else
           (0, audit ''approved'' ''force-confirm-yes''
                 (log_info os ''storaged'' ''format request approved by force+confirm+yes policy''
                   (printf [bytes ''approved: mkfs.ext4 '', device, [0x0A]] p))))"

definition storaged_main :: "'a storaged_os_scheme \<Rightarrow> u8 list list \<Rightarrow> proc \<Rightarrow> int \<times> proc" where
  "storaged_main os argv p =
     (if length argv < 2 then (1, storaged_usage p)
      else if argv ! 1 = bytes ''probe'' then
        if length argv \<noteq> 4 \<or> argv ! 2 \<noteq> bytes ''--device'' then (1, storaged_usage p)
        else command_probe os (argv ! 3) p
      else if argv ! 1 = bytes ''format'' then
        (case parse_format_args (drop 2 argv) of
           None \<Rightarrow> (1, storaged_usage p)
         | Some (device, a) \<Rightarrow> command_format os device a p)
      else (1, storaged_usage p))"

section \<open>The mount table\<close>

text \<open>A row as the kernel prints it: device, mount point, type and options, and two zeros.\<close>

type_synonym mount_row = "u8 list \<times> u8 list \<times> u8 list \<times> u8 list"

fun mount_line :: "mount_row \<Rightarrow> u8 list" where
  "mount_line (dev, mountpt, fstype, opts) =
     dev @ 0x20 # mountpt @ 0x20 # fstype @ 0x20 # opts @ 0x20 # 0x30 # 0x20 # 0x30 # [0x0A]"

definition word_ok :: "nat \<Rightarrow> u8 list \<Rightarrow> bool" where
  "word_ok n w \<longleftrightarrow> w \<noteq> [] \<and> length w \<le> n \<and> (\<forall>c \<in> set w. \<not> isspace c \<and> c \<noteq> 0)"

fun mount_row_ok :: "mount_row \<Rightarrow> bool" where
  "mount_row_ok (dev, mountpt, fstype, opts) \<longleftrightarrow>
     word_ok 255 dev \<and> word_ok 255 mountpt \<and> word_ok 63 fstype \<and> word_ok 255 opts"

lemma isspace_consts [simp]: "isspace 0x20" "isspace 0x0A" "\<not> isspace 0x30" "\<not> isdigit 0x20" "\<not> isdigit 0x0A" "isdigit 0x30"
  by (simp_all add: isspace_def isdigit_def word_le_nat_alt)

lemma skip_word: "w \<noteq> [] \<Longrightarrow> \<forall>c \<in> set w. \<not> isspace c \<Longrightarrow> dropWhile isspace (w @ r) = w @ r"
  by (cases w) auto

lemma scan_word_blank [simp]: "isspace c \<Longrightarrow> scan_word n (c # f) = scan_word n f"
  by (simp add: scan_word_def)

lemma scan_word_word:
  assumes "word_ok n w" "isspace c"
  shows "scan_word n (w @ c # r) = Some (w, c # r)"
proof -
  have "takeWhile (\<lambda>c. \<not> isspace c) (w @ c # r) = w"
    using takeWhile_split [of w "\<lambda>c. \<not> isspace c" c r] assms by (simp add: word_ok_def)
  moreover have "0 < n" using assms(1) by (cases n) (auto simp: word_ok_def)
  ultimately show ?thesis using skip_word [of w "c # r"] assms by (simp add: scan_word_def word_ok_def)
qed

text \<open>A word that is too long is cut, and its rest is the next thing to read.\<close>

lemma scan_word_cut:
  assumes "length w = n" "0 < n" "\<forall>c \<in> set (w @ v). \<not> isspace c" "isspace c"
  shows "scan_word n (w @ v @ c # r) = Some (w, v @ c # r)"
proof -
  have "takeWhile (\<lambda>c. \<not> isspace c) ((w @ v) @ c # r) = w @ v"
    using takeWhile_split [of "w @ v" "\<lambda>c. \<not> isspace c" c r] assms by simp
  moreover have "dropWhile isspace (w @ v @ c # r) = w @ v @ c # r" using skip_word [of w "v @ c # r"] assms by auto
  ultimately show ?thesis using assms by (auto simp: scan_word_def)
qed

lemma scan_int_zero: "scan_int (0x20 # 0x30 # 0x20 # r) = (True, 0x20 # r)" "scan_int (0x20 # 0x30 # 0x0A # r) = (True, 0x0A # r)"
  by (simp_all add: scan_int_def Let_def)

text \<open>What is no number stays to be read.\<close>

definition no_number :: "u8 list \<Rightarrow> bool" where
  "no_number w \<longleftrightarrow> w \<noteq> [] \<and> \<not> isdigit (hd w) \<and> hd w \<noteq> 0x2B \<and> hd w \<noteq> 0x2D"

lemma scan_int_word:
  assumes "no_number w" "\<forall>c \<in> set w. \<not> isspace c"
  shows "scan_int (w @ r) = (False, w @ r)" "isspace c \<Longrightarrow> scan_int (c # w @ r) = (False, w @ r)"
  using assms by (cases w; auto simp: scan_int_def no_number_def Let_def)+

lemma c_str_word: "word_ok n w \<Longrightarrow> c_str w = w"
  by (rule c_str_no_nul) (auto simp: word_ok_def)

lemma scan_mount_row:
  assumes "mount_row_ok (dev, m, t, opts)"
  shows "scan_mount (mount_line (dev, m, t, opts) @ f) = Some (dev, 0x0A # f)"
proof -
  have w: "word_ok 255 dev" "word_ok 255 m" "word_ok 63 t" "word_ok 255 opts" using assms by simp_all
  show ?thesis
    using w by (simp add: scan_mount_def scan_word_word scan_int_zero c_str_word [OF w(1)])
qed

lemma mounted_loop_blank: "mounted_loop d (0x0A # f) = mounted_loop d f"
  by (simp add: mounted_loop.simps [of d "0x0A # f"] mounted_loop.simps [of d f] scan_mount_def)

lemma mounted_loop_end: "mounted_loop d [] = False"
  by (simp add: mounted_loop.simps [of d "[]"] scan_mount_def scan_word_def)

lemma mounted_loop_row:
  assumes "mount_row_ok r"
  shows "mounted_loop d (mount_line r @ f) = (fst r = d \<or> mounted_loop d f)"
proof -
  obtain dev m t opts where r: "r = (dev, m, t, opts)" by (cases r)
  show ?thesis
    using scan_mount_row [of dev m t opts f] assms
    by (simp only: r mounted_loop.simps [of d "mount_line (dev, m, t, opts) @ f"]) (simp add: mounted_loop_blank)
qed

lemma mounted_loop_rows:
  "list_all mount_row_ok rows \<Longrightarrow> mounted_loop d (concat (map mount_line rows)) = (d \<in> fst ` set rows)"
  by (induction rows) (auto simp: mounted_loop_row mounted_loop_end)

lemma mounted_loop_prefix:
  "list_all mount_row_ok rows \<Longrightarrow> mounted_loop d (concat (map mount_line rows) @ f) = (d \<in> fst ` set rows \<or> mounted_loop d f)"
  by (induction rows) (auto simp: mounted_loop_row)

text \<open>
  C34: When every word of the mount table fits its buffer, a device counts as mounted exactly when a
  row of the table starts with it.
\<close>

theorem mounted_exact:
  assumes "list_all mount_row_ok rows" "os_files os (bytes ''/proc/self/mounts'') = Some (concat (map mount_line rows))"
  shows "is_device_mounted os device \<longleftrightarrow> device \<in> fst ` set rows"
  using assms mounted_loop_rows by (simp add: is_device_mounted_def)

definition storaged_sample :: "u8 list \<Rightarrow> storaged_os" where
  "storaged_sample mounts = \<lparr>os_files = (\<lambda>_. Some mounts), os_stdin = [], os_gmtime = None,
     stat_mode = (\<lambda>_. Some 0x61B0), popen = (\<lambda>_. None), audit_opens = True\<rparr>"

definition row_sda1 :: mount_row where
  "row_sda1 = (bytes ''/dev/sda1'', bytes ''/mnt'', bytes ''ext4'', bytes ''rw,relatime'')"

lemma row_sda1_ok: "mount_row_ok row_sda1"
  by (simp add: row_sda1_def word_ok_def bytes_def isspace_def word_le_nat_alt)

theorem mounted_exact_witness:
  "is_device_mounted (storaged_sample (mount_line row_sda1)) (bytes ''/dev/sda1'') \<and>
   \<not> is_device_mounted (storaged_sample (mount_line row_sda1)) (bytes ''/dev/sdb1'')"
  using mounted_exact [of "[row_sda1]" "storaged_sample (mount_line row_sda1)"] row_sda1_ok
  by (simp add: storaged_sample_def) (simp add: row_sda1_def bytes_def)

section \<open>Formatting\<close>

text \<open>The line about a request on the device, appended to the audit log if that can be opened.\<close>

definition audit_line :: "'a storaged_os_scheme \<Rightarrow> u8 list \<Rightarrow> string \<Rightarrow> string \<Rightarrow> u8 list" where
  "audit_line os device result detail = (if audit_opens os
     then bytes ''op=format device='' @ device @ bytes '' result='' @ bytes result @ bytes '' detail='' @ bytes detail @ [0x0A]
     else [])"

lemma audit_event_fields:
  "p_stdout (audit_event os op dv r d q) = p_stdout q"
  "p_audit (audit_event os ''format'' (Some device) r d q) = p_audit q @ audit_line os device r d"
  by (simp_all add: audit_event_def audit_line_def or_dash_def bytes_def)

lemma storaged_usage_audit: "p_audit (storaged_usage q) = p_audit q"
  by (simp add: storaged_usage_def puts_def printf_def)

lemma storaged_usage_stdout: "p_stdout q = p_stdout p \<Longrightarrow> p_stdout (storaged_usage q) = p_stdout (storaged_usage p)"
  by (simp add: storaged_usage_def puts_def printf_def)

text \<open>
  C30: The format policy, for any arguments. If they cannot be parsed, only the usage is printed and
  nothing is audited. Otherwise the approval is printed, and audited as approved, only for a path under
  \<^verbatim>\<open>/dev/\<close> that is a block device, counts as not mounted, and was named again after \<^verbatim>\<open>--confirm\<close> together
  with \<^verbatim>\<open>--force\<close> and \<^verbatim>\<open>--yes\<close>, and is no dry run. A denial has the return code and the audit line of its
  reason and prints nothing, or the usage when the confirmation is incomplete.
\<close>

theorem format_policy:
  assumes "storaged_main os (name # bytes ''format'' # args) p = (rc, p')"
  shows "case parse_format_args args of
      None \<Rightarrow> rc = 1 \<and> p' = storaged_usage p
    | Some (device, a) \<Rightarrow>
       (let block = is_valid_block_path device \<and> is_block_device os device; dry = fa_dry_run a;
            mounted = is_device_mounted os device; confirmed = fa_force a \<and> fa_yes a \<and> fa_confirm a = Some device;
            audited = (\<lambda>result detail. p_audit p' = p_audit p @ audit_line os device result detail)
        in (\<not> block \<longrightarrow> rc = 2 \<and> p_stdout p' = p_stdout p \<and>
              audited ''deny'' (if is_valid_block_path device then ''not-block-device'' else ''invalid-path'')) \<and>
           (block \<and> dry \<longrightarrow> rc = 0 \<and> audited ''dry-run'' ''policy-check-only'' \<and>
              p_stdout p' = p_stdout p @ bytes ''dry-run: mkfs.ext4 '' @ device @ 0x0A # bytes ''dry-run: mounted='' @ yes_no mounted @ [0x0A]) \<and>
           (block \<and> \<not> dry \<and> mounted \<longrightarrow> rc = 4 \<and> p_stdout p' = p_stdout p \<and> audited ''deny'' ''mounted'') \<and>
           (block \<and> \<not> dry \<and> \<not> mounted \<and> \<not> confirmed \<longrightarrow> rc = 3 \<and> p_stdout p' = p_stdout (storaged_usage p) \<and>
              audited ''deny'' ''missing-force-confirm-yes'') \<and>
           (block \<and> \<not> dry \<and> \<not> mounted \<and> confirmed \<longrightarrow> rc = 0 \<and> audited ''approved'' ''force-confirm-yes'' \<and>
              p_stdout p' = p_stdout p @ bytes ''approved: mkfs.ext4 '' @ device @ [0x0A]))"
proof (cases "parse_format_args args")
  case None
  then show ?thesis using assms by (simp add: storaged_main_def bytes_def)
next
  case (Some da)
  obtain device a where da: "da = (device, a)" by (cases da)
  have c: "command_format os device a p = (rc, p')" using assms Some da by (simp add: storaged_main_def bytes_def)
  note fields = audit_event_fields storaged_usage_audit
  have u: "p_stdout (storaged_usage (log_error os n m p)) = p_stdout (storaged_usage p)" for n m
    by (rule storaged_usage_stdout) simp
  show ?thesis
    using c unfolding Some da option.case prod.case Let_def command_format_def
    by (auto simp: fields u printf_def split: if_splits)
qed

lemma confirmed_args:
  "parse_format_args [bytes ''--device'', d, bytes ''--force'', bytes ''--confirm'', d, bytes ''--yes''] =
     Some (d, \<lparr>fa_device = Some d, fa_dry_run = False, fa_force = True, fa_yes = True, fa_confirm = Some d\<rparr>)"
  by (simp add: parse_format_args_def bytes_def)

theorem format_policy_witness:
  "p_stdout (snd (storaged_main (storaged_sample []) [[], bytes ''format'', bytes ''--device'', bytes ''/dev/sdb1'', bytes ''--force'',
     bytes ''--confirm'', bytes ''/dev/sdb1'', bytes ''--yes''] proc_start)) = bytes ''approved: mkfs.ext4 /dev/sdb1'' @ [0x0A]"
proof -
  let ?d = "bytes ''/dev/sdb1''"
  let ?args = "[bytes ''--device'', ?d, bytes ''--force'', bytes ''--confirm'', ?d, bytes ''--yes'']"
  obtain rc p' where r: "storaged_main (storaged_sample []) ([] # bytes ''format'' # ?args) proc_start = (rc, p')" by fastforce
  have "is_valid_block_path ?d" "is_block_device (storaged_sample []) ?d" "\<not> is_device_mounted (storaged_sample []) ?d"
    by (simp_all add: is_valid_block_path_def is_block_device_def storaged_sample_def is_device_mounted_def mounted_loop_end)
      (simp add: bytes_def)
  then show ?thesis using format_policy [OF r] r confirmed_args [of ?d] by (simp add: proc_start_def bytes_def)
qed

text \<open>
  C36: A mounted device is approved for formatting when it is in the last row of the mount table and the
  row before has options of 256 to 510 bytes, as overlay mounts can: the options are cut after 255 bytes, the
  columns shift, and the device is read as the options of a row that does not exist. The other words
  fit their buffers, the device's options even 63 bytes, and neither the rest of the options nor the mount
  point starts like a number. (From 511 bytes of options on the columns shift differently.)
\<close>

theorem mounted_device_approved:
  assumes "os_files os (bytes ''/proc/self/mounts'') =
      Some (concat (map mount_line rows) @ mount_line (dev1, m1, t1, o1 @ o2) @ mount_line (d, m2, t2, opts2))"
    and "list_all mount_row_ok rows" "d \<notin> fst ` set rows"
    and "mount_row_ok (dev1, m1, t1, o1)" "length o1 = 255" "word_ok 255 o2" "no_number o2"
    and "mount_row_ok (d, m2, t2, opts2)" "length opts2 \<le> 63" "no_number m2" "d \<notin> {dev1, o2, m2}"
    and "is_valid_block_path d" "is_block_device os d"
  shows "\<not> is_device_mounted os d \<and>
    storaged_main os [name, bytes ''format'', bytes ''--device'', d, bytes ''--force'', bytes ''--confirm'', d, bytes ''--yes''] p =
      (0, audit_event os ''format'' (Some d) ''approved'' ''force-confirm-yes''
            (log_info os ''storaged'' ''format request approved by force+confirm+yes policy''
              (printf [bytes ''approved: mkfs.ext4 '', d, [0x0A]] p)))"
proof -
  let ?zeros = "0x20 # 0x30 # 0x20 # 0x30 # [0x0A]"
  have w: "word_ok 255 dev1" "word_ok 255 m1" "word_ok 63 t1" "word_ok 255 d" "word_ok 255 m2" "word_ok 63 t2" "word_ok 255 t2"
    "word_ok 63 opts2" "word_ok 255 [0x30]" "word_ok 63 [0x30]" "\<forall>c \<in> set (o1 @ o2). \<not> isspace c"
    using assms by (auto simp: word_ok_def)
  note sw = scan_word_word [OF _ isspace_consts(1)] scan_word_word [OF _ isspace_consts(2)]
  have cut: "scan_word 255 (o1 @ o2 @ 0x20 # r) = Some (o1, o2 @ 0x20 # r)" for r
    by (rule scan_word_cut) (use assms(5) w in simp_all)
  have i2: "scan_int (o2 @ r) = (False, o2 @ r)" "scan_int (0x20 # m2 @ r) = (False, m2 @ r)" for r
    using scan_int_word(1) [OF assms(7)] scan_int_word(2) [OF assms(10), of "0x20"] w assms(6) by (auto simp: word_ok_def)
  have z: "scan_word n (0x30 # c # r) = Some ([0x30], c # r)" if "isspace c" "n \<in> {63, 255}" for n c r
    using scan_word_word [of n "[0x30]" c r] w(9,10) that by auto
  define f1 where "f1 = mount_line (dev1, m1, t1, o1 @ o2) @ mount_line (d, m2, t2, opts2)"
  define f2 where "f2 = o2 @ ?zeros @ mount_line (d, m2, t2, opts2)"
  define f3 where "f3 = m2 @ 0x20 # t2 @ 0x20 # opts2 @ ?zeros"
  have s1: "scan_mount f1 = Some (dev1, f2)"
    by (simp add: f1_def f2_def scan_mount_def sw w cut i2 c_str_word [OF w(1)])
  have s2: "scan_mount f2 = Some (o2, f3)"
    by (simp add: f2_def f3_def scan_mount_def sw w assms(6) z i2 c_str_word [OF assms(6)])
  have s3: "scan_mount f3 = Some (m2, [])"
    by (simp add: f3_def scan_mount_def sw w z c_str_word [OF w(5)]) (simp add: scan_int_def)
  have "\<not> mounted_loop d f3" using s3 assms(11) mounted_loop_end by (auto simp: mounted_loop.simps [of d f3])
  then have "\<not> mounted_loop d f2" using s2 assms(11) by (auto simp: mounted_loop.simps [of d f2])
  then have "\<not> mounted_loop d f1" using s1 assms(11) by (auto simp: mounted_loop.simps [of d f1])
  then have m: "\<not> is_device_mounted os d" using assms(1-3) mounted_loop_prefix [of rows d f1] by (simp add: is_device_mounted_def f1_def)
  have e: "bytes ''format'' \<noteq> bytes ''probe''" by (simp add: bytes_def)
  show ?thesis
    using m assms(12,13) e confirmed_args [of d] by (simp add: storaged_main_def command_format_def Let_def)
qed

theorem mounted_device_approved_witness:
  "\<not> is_device_mounted (storaged_sample (mount_line (bytes ''overlay'', bytes ''/'', bytes ''overlay'', replicate 255 0x78 @ bytes ''y'') @
     mount_line row_sda1)) (bytes ''/dev/sda1'')"
proof -
  let ?f = "mount_line (bytes ''overlay'', bytes ''/'', bytes ''overlay'', replicate 255 0x78 @ bytes ''y'') @ mount_line row_sda1"
  have a: "os_files (storaged_sample ?f) (bytes ''/proc/self/mounts'') = Some ?f" by (simp only: storaged_sample_def os.simps)
  have x: "\<not> isspace (0x78 :: u8)" by (simp add: isspace_def word_le_nat_alt)
  have b: "mount_row_ok (bytes ''overlay'', bytes ''/'', bytes ''overlay'', replicate 255 0x78)"
  proof -
    have "word_ok 255 (replicate 255 0x78)" using x by (auto simp: word_ok_def)
    then show ?thesis by (simp add: word_ok_def bytes_def isspace_def word_le_nat_alt)
  qed
  have c: "word_ok 255 (bytes ''y'')" "no_number (bytes ''y'')" "no_number (bytes ''/mnt'')"
    by (simp_all add: word_ok_def no_number_def bytes_def isspace_def isdigit_def word_le_nat_alt)
  have d: "bytes ''/dev/sda1'' \<notin> {bytes ''overlay'', bytes ''y'', bytes ''/mnt''}" "length (bytes ''rw,relatime'') \<le> 63"
    "is_valid_block_path (bytes ''/dev/sda1'')" by (simp_all add: bytes_def is_valid_block_path_def)
  have e: "is_block_device (storaged_sample ?f) (bytes ''/dev/sda1'')" by (simp add: is_block_device_def storaged_sample_def)
  show ?thesis
    using mounted_device_approved [of _ "[]", simplified list.map concat.simps append_Nil, OF a [unfolded row_sda1_def] _ _ b _ c(1,2) row_sda1_ok [unfolded row_sda1_def] d(2) c(3) d(1,3)
        e [unfolded row_sda1_def]] by (simp add: row_sda1_def)
qed

end
