(* ===== verification/Spec2Isabelle.thy ===== *)
theory Spec2Isabelle
  imports Session Keyboard Preempt Console_Text Tty Pmm Vmm Video Commands Kernel Idle Walud Authd Storaged
begin

text \<open>
  A verification library for WALU OS: a 64-bit kernel in C (\<^verbatim>\<open>src/kernel\<close>) with a Rust part
  (\<^verbatim>\<open>src/rust\<close>), and three services in C (\<^verbatim>\<open>src/userland\<close>).

  \<^bold>\<open>The program.\<close> \<^verbatim>\<open>kernel_main\<close> is entered from the boot assembly with the address of the Multiboot2
  information. It sets up the console, reads the framebuffer and the memory map out of that
  information, takes over the page tables, maps the framebuffer, fills the interrupt descriptors,
  programs the interrupt controller and the timer, creates a session with a pseudo-terminal, attaches
  the terminal to it, enables interrupts and loops: one round of the shell, then a halt until the
  next interrupt. The keyboard interrupt turns scancodes into key events and bytes and queues them.
  In each round the shell lets the terminal take the bytes from the keyboard queue, through its line
  discipline, into the pseudo-terminal of the active session, reads lines from there and runs them. All output goes
  to the console, which draws on VGA text memory or on a framebuffer and copies to the serial port.
  The services are separate programs: a service starter, a password checker and a storage helper.

  \<^bold>\<open>Theories and the code they model.\<close>
  \<^item> \<^verbatim>\<open>Prelude\<close>: word types, \<^verbatim>\<open>size_t\<close> and \<^verbatim>\<open>int\<close> with their wrap-around, counted loops, and the
    interfaces \<open>invariant_machine\<close> (operations keep an invariant) and \<open>invariant_system\<close> (so does a
    step relation).
  \<^item> \<^verbatim>\<open>Ring\<close>: the array ring behind every queue, and the interfaces \<open>bounded_fifo\<close> and \<open>counting_fifo\<close> of a
    bounded queue that counts what it drops. The keyboard's two queues, both directions of a
    pseudo-terminal and the reader's side of the terminal are interpretations.
  \<^item> \<^verbatim>\<open>Pty\<close> (\<^verbatim>\<open>core/pty.c\<close>), \<^verbatim>\<open>Session\<close> (\<^verbatim>\<open>core/session.c\<close>): the tables of pseudo-terminals and of sessions.
  \<^item> \<^verbatim>\<open>Keymap\<close>, \<^verbatim>\<open>Keyboard\<close>, \<^verbatim>\<open>Preempt\<close> (\<^verbatim>\<open>core/keyboard.c\<close>, \<^verbatim>\<open>keyboard.h\<close>): the layout, the interrupt half and
    the readers, and the readers with interrupts between their memory accesses.
  \<^item> \<^verbatim>\<open>Display\<close> (\<^verbatim>\<open>core/font8x8.c\<close>), \<^verbatim>\<open>Console\<close>, \<^verbatim>\<open>Console_Draw\<close>, \<^verbatim>\<open>Console_Screen\<close>, \<^verbatim>\<open>Console_Text\<close>, \<^verbatim>\<open>Utf8\<close>
    (\<^verbatim>\<open>core/console.c\<close>): the console; what its backends draw where, down to the pixels of a cell; the invariant of every output byte;
    what is shown.
  \<^item> \<^verbatim>\<open>Tty\<close> (\<^verbatim>\<open>core/tty.c\<close>): the line discipline, on a state with the keyboard, pseudo-terminals and console.
  \<^item> \<^verbatim>\<open>Multiboot\<close>, \<^verbatim>\<open>Pmm\<close>, \<^verbatim>\<open>Vmm\<close>, \<^verbatim>\<open>Video\<close> (\<^verbatim>\<open>multiboot2.h\<close>, \<^verbatim>\<open>core/pmm.c\<close>, \<^verbatim>\<open>vmm.c\<close>, \<^verbatim>\<open>video.c\<close>): the walk over the boot
    information, the frame allocator, the page tables, and the framebuffer.
  \<^item> \<^verbatim>\<open>C_String\<close> (\<^verbatim>\<open>lib/string.c\<close>), \<^verbatim>\<open>History\<close> (\<^verbatim>\<open>rust/src/lib.rs\<close>), \<^verbatim>\<open>Shell\<close>, \<^verbatim>\<open>Commands\<close> (\<^verbatim>\<open>core/shell.c\<close>): the
    commands and the two read loops; what each command prints, and what a typed line does from the keyboard queue to the prompt.
  \<^item> \<^verbatim>\<open>Interrupts\<close> (\<^verbatim>\<open>arch/x86_64/idt.c\<close>, \<^verbatim>\<open>core/pic.c\<close>, \<^verbatim>\<open>core/pit.c\<close>, \<^verbatim>\<open>io.h\<close>), \<^verbatim>\<open>Kernel\<close> (\<^verbatim>\<open>core/kernel.c\<close>): gates,
    controller, handlers; the start-up phase by phase and the running kernel as the step relation
    \<^const>\<open>kernel_step\<close>; \<^verbatim>\<open>Idle\<close>: the same by single accesses, \<^const>\<open>idle_step\<close>.
  \<^item> \<^verbatim>\<open>Libc\<close> (\<^verbatim>\<open>common/log.c\<close> and the C library calls the services make), \<^verbatim>\<open>Walud\<close>, \<^verbatim>\<open>Authd\<close>, \<^verbatim>\<open>Storaged\<close>
    (\<^verbatim>\<open>walud/walud.c\<close>, \<^verbatim>\<open>authd/authd.c\<close>, \<^verbatim>\<open>storaged/storaged.c\<close>): the services.

  \<^bold>\<open>State.\<close> The static variables of a file are the fields of one record, under their names in the code;
  a function is a definition of the same name that takes its arguments and the record and returns the
  result and the new record. The records nest as the calls do: \<^typ>\<open>'a io_sys_scheme\<close> is what the
  terminal acts on, the shell extends it, the kernel extends that. Integers keep their width:
  words where the code does arithmetic on them, naturals for indices and \<^verbatim>\<open>size_t\<close> values that stay small, with
  the wrap-around written out where it can happen. A loop whose end is not evident is a
  \<^theory_text>\<open>partial_function (option)\<close>, so \<^const>\<open>None\<close> says that it never ends; there is no fuel. That the
  loops end is proved for all states the invariants allow, and for the boot information under
  hypotheses on its sizes; where it fails, that is proved too (\<open>pmm_init_hangs\<close>).

  \<^bold>\<open>What the lemmas show.\<close> Each component has an invariant that all its operations keep. On top of it:
  \<^item> the queues are lists: what is written is what is read, in order, up to a capacity, with an exact
    count of the losses (\<open>pty_channel_fifo\<close>, \<open>pty_reply_channel_order\<close>, \<open>keyboard_irq_delivers\<close>);
  \<^item> the terminal refines a line editor on a byte list (\<open>tty_refines_line_editor\<close>);
  \<^item> a mapping request refines the update of a page map (\<open>vmm_map_2m_refines\<close>); no frame has two owners;
  \<^item> all memory the console writes is the visible screen, and both backends show the same, on the framebuffer
    pixel by pixel (\<open>framebuffer_writes_in_bounds\<close>, \<open>backends_show_the_same\<close>);
  \<^item> the decoders undo the encoders (\<open>utf8_decoder_inverts_encoder\<close>, \<open>numbers_printed_exactly\<close>,
    \<open>unit_file_roundtrip\<close>);
  \<^item> the whole: the kernel boots, routes the interrupts to the right handlers, stays responsive under every
    sequence of interrupts, and turns typed scancodes into the command they spell, with the output of that command
    (\<open>typed_line_runs\<close>, \<open>boot_to_command\<close>; the commands' output is specified by \<open>command_output\<close>);
  \<^item> the services: a unit's program runs only after the group and the user were taken on, verification
    depends on the user's own entry only, and a format is approved only for an unmounted block device,
    within the limits of the mount-table scan, which are also shown.

  \<^bold>\<open>Interrupts and order.\<close> The running kernel has two models. In \<^verbatim>\<open>Kernel\<close> a round of the idle loop and a
  handler are single steps. In \<^verbatim>\<open>Idle\<close> the round is cut into the accesses to the keyboard's byte queue, the
  terminal's handling of a byte, the reads of the session's input and the handling of each byte of it,
  and interrupts come between any two of them, or while the processor sleeps; without interrupts both
  are the same (\<open>round_in_steps\<close>). The handlers share with the loop the keyboard's state, the tick
  counter, the controller and, in a panic, the console; what they do inside the handling of one byte is taken before or
  after it. \<open>preemption_invisible\<close> shows for \<^verbatim>\<open>keyboard_pop_char\<close> that a caller cannot tell either.
  An interrupt between \<^verbatim>\<open>sti\<close> and the end of the start-up is taken at its end.

  \<^bold>\<open>Parameters.\<close> Memory as the boot loader leaves it; the addresses the linker gives to the
  image and to the handlers; what a port reads, with the mask register of the 8259 as its data
  sheet has it (\<^const>\<open>pic_device\<close>); the fault address; for the services, the hash function and the answers of the operating
  system (files, users, devices, exit states, time).

  \<^bold>\<open>Not modelled.\<close> The machine code of \<^verbatim>\<open>boot.S\<close> apart from the page tables it lays out, the linker
  script and the boot loader's configuration; \<^verbatim>\<open>docs/interfaces/syscalls.h\<close>, which declares calls
  that do not exist yet; tests, scripts and documents. The wait for the serial transmitter is
  left out, so a port that never becomes ready is not covered. The spin lock around the history
  is taken and released within one call that no handler makes. Clearing the password buffer has no effect the
  model could show.
\<close>

end
